(* ===== verification/Prelude.thy ===== *)
theory Prelude
  imports Complex_Main "HOL-Library.Word" "HOL-Library.AList" "HOL-Library.List_Lexorder"
    "HOL-Library.Char_ord"
begin

text \<open>
  Shared vocabulary of the development: the Go integer types as machine words, Go maps as
  association lists with distinct keys, Go errors as values, the rendering of numbers in a
  radix (\<^verbatim>\<open>strconv.Itoa\<close>, \<^verbatim>\<open>%d\<close>, \<^verbatim>\<open>%x\<close>), and the generic lemmas the components share.
\<close>

section \<open>Go integers and Go maps\<close>

type_synonym u8 = "8 word"
type_synonym u16 = "16 word"
type_synonym u32 = "32 word"
type_synonym u64 = "64 word"

text \<open>
  A Go map is an association list with distinct keys. The order of the list is the order in
  which a \<^verbatim>\<open>range\<close> loop happens to enumerate the map; nothing else reads it, and the theorems
  that matter are stated through \<^const>\<open>map_of\<close>, which does not see it.
\<close>

type_synonym ('k, 'v) gomap = "('k \<times> 'v) list"

abbreviation gput :: "'k \<Rightarrow> 'v \<Rightarrow> ('k, 'v) gomap \<Rightarrow> ('k, 'v) gomap" where
  "gput \<equiv> AList.update"

abbreviation gdel :: "'k \<Rightarrow> ('k, 'v) gomap \<Rightarrow> ('k, 'v) gomap" where
  "gdel \<equiv> AList.delete"

abbreviation gwf :: "('k, 'v) gomap \<Rightarrow> bool" where
  "gwf m \<equiv> distinct (map fst m)"

definition gget :: "'v \<Rightarrow> ('k, 'v) gomap \<Rightarrow> 'k \<Rightarrow> 'v" where
  "gget zero m k = (case map_of m k of None \<Rightarrow> zero | Some v \<Rightarrow> v)"

text \<open>A set in Go, \<^verbatim>\<open>map[K]struct{}\<close>: insertion keeps the list distinct.\<close>

abbreviation sput :: "'k \<Rightarrow> 'k list \<Rightarrow> 'k list" where
  "sput \<equiv> List.insert"

section \<open>Go errors\<close>

text \<open>
  A formatted message is kept unevaluated: the format string of the source with its
  arguments. Only logs read the text of a message. An error is a package's own error value,
  an \<^verbatim>\<open>fmt.Errorf\<close> message, or a message that wraps another error (\<^verbatim>\<open>%w\<close>).
\<close>

datatype fmt_arg = FStr string | FInt int | FNum real | FMsg fmt_msg
  and fmt_msg = Sprintf string "fmt_arg list"

abbreviation msg :: "string \<Rightarrow> fmt_msg" where
  "msg s \<equiv> Sprintf s []"

datatype 'e goerr = ErrValue 'e | Errorf fmt_msg | Wrapf fmt_msg "'e goerr"

type_synonym verr = "unit goerr"

text \<open>\<^verbatim>\<open>errors.As\<close>: the first error value of the package's own type along the chain.\<close>

fun errors_As :: "'e goerr \<Rightarrow> 'e option" where
  "errors_As (ErrValue e) = Some e"
| "errors_As (Errorf m) = None"
| "errors_As (Wrapf m e) = errors_As e"

text \<open>Sequencing of fallible steps: an early return of an error ends the function.\<close>

fun ebind :: "'e + 'a \<Rightarrow> ('a \<Rightarrow> 'e + 'b) \<Rightarrow> 'e + 'b" where
  "ebind (Inl e) f = Inl e"
| "ebind (Inr x) f = f x"

lemma ebind_Inr: "ebind m f = Inr y \<longleftrightarrow> (\<exists>x. m = Inr x \<and> f x = Inr y)"
  by (cases m) auto

lemma ebind_Inl: "ebind m f = Inl e \<longleftrightarrow> m = Inl e \<or> (\<exists>x. m = Inr x \<and> f x = Inl e)"
  by (cases m) auto

lemma ebind_split:
  "P (ebind m f) \<longleftrightarrow> (\<forall>e. m = Inl e \<longrightarrow> P (Inl e)) \<and> (\<forall>x. m = Inr x \<longrightarrow> P (f x))"
  by (cases m) auto

text \<open>A loop whose body may return an error and appends its result to the output.\<close>

fun emap :: "('a \<Rightarrow> 'e + 'b) \<Rightarrow> 'a list \<Rightarrow> 'e + 'b list" where
  "emap f [] = Inr []"
| "emap f (x # xs) = ebind (f x) (\<lambda>y. ebind (emap f xs) (\<lambda>ys. Inr (y # ys)))"

lemma emap_Inr: "emap f xs = Inr ys \<longleftrightarrow> list_all2 (\<lambda>x y. f x = Inr y) xs ys"
  by (induction xs arbitrary: ys) (auto simp: ebind_Inr list_all2_Cons1)

text \<open>The error of a step with the context the caller adds (\<^verbatim>\<open>%w\<close>).\<close>

fun ectx :: "fmt_msg \<Rightarrow> 'e goerr + 'a \<Rightarrow> 'e goerr + 'a" where
  "ectx m (Inl e) = Inl (Wrapf m e)"
| "ectx m (Inr x) = Inr x"

lemma ectx_Inr [simp]: "ectx m r = Inr x \<longleftrightarrow> r = Inr x"
  by (cases r) auto

section \<open>Collections\<close>

named_theorems inv_intros "introduction rules for the invariants of the components"
named_theorems op_defs "definitions of the operations of the components"
named_theorems sem_simps "equations of the packet semantics"

section \<open>Lists and maps\<close>

lemma gget_simps [simp]:
  "gget z (gput k v m) k' = (if k' = k then v else gget z m k')"
  "gget z (gdel k m) k' = (if k' = k then z else gget z m k')"
  "gget z [] k' = z"
  "gget z ((k, v) # m) k' = (if k' = k then v else gget z m k')"
  by (simp_all add: gget_def update_conv' delete_conv')

lemma map_of_gput [simp]: "map_of (gput k v m) = (map_of m)(k \<mapsto> v)"
  by (rule update_conv')

lemma map_of_gdel [simp]: "map_of (gdel k m) = (map_of m)(k := None)"
  by (rule delete_conv')

lemma gwf_gput [simp, intro]: "gwf m \<Longrightarrow> gwf (gput k v m)"
  by (rule distinct_update)

lemma gwf_gdel [simp, intro]: "gwf m \<Longrightarrow> gwf (gdel k m)"
  by (rule distinct_delete)

lemma gput_new: "k \<notin> fst ` set m \<Longrightarrow> gput k v m = m @ [(k, v)]"
  by (induction m) auto

lemma map_of_eq_Nil_iff: "m = [] \<longleftrightarrow> (\<forall>k. map_of m k = None)"
  by (metis list.exhaust map_of_eq_empty_iff not_None_eq)

text \<open>Splitting a string at the first separator is unambiguous.\<close>

lemma sep_inject:
  assumes "c \<notin> set x" and "c \<notin> set x'"
  shows "x @ c # y = x' @ c # y' \<longleftrightarrow> x = x' \<and> y = y'"
  using assms
proof (induction x arbitrary: x')
  case Nil
  then show ?case by (cases x') auto
next
  case (Cons a x)
  then show ?case by (cases x') auto
qed

text \<open>Fields of a string between occurrences of a separator (\<^verbatim>\<open>strings.Split\<close>).\<close>

fun split_on :: "'a \<Rightarrow> 'a list \<Rightarrow> 'a list list" where
  "split_on c [] = [[]]"
| "split_on c (x # xs) =
     (if x = c then [] # split_on c xs
      else (case split_on c xs of [] \<Rightarrow> [[x]] | f # fs \<Rightarrow> (x # f) # fs))"

fun join_with :: "'a \<Rightarrow> 'a list list \<Rightarrow> 'a list" where
  "join_with c [] = []"
| "join_with c [f] = f"
| "join_with c (f # fs) = f @ c # join_with c fs"

lemma split_on_no_sep: "c \<notin> set f \<Longrightarrow> split_on c f = [f]"
  by (induction f) auto

lemma split_on_append: "c \<notin> set f \<Longrightarrow> split_on c (f @ c # s) = f # split_on c s"
  by (induction f) auto

lemma split_on_join:
  "fs \<noteq> [] \<Longrightarrow> \<forall>f\<in>set fs. c \<notin> set f \<Longrightarrow> split_on c (join_with c fs) = fs"
  by (induction c fs rule: join_with.induct) (auto simp: split_on_no_sep split_on_append)

lemma split_on_join_append:
  "fs \<noteq> [] \<Longrightarrow> \<forall>f\<in>set fs. c \<notin> set f \<Longrightarrow>
   split_on c (join_with c fs @ c # s) = fs @ split_on c s"
  by (induction c fs rule: join_with.induct) (auto simp: split_on_append)

lemma set_join_with: "set (join_with c fs) \<subseteq> insert c (\<Union>f\<in>set fs. set f)"
  by (induction c fs rule: join_with.induct) auto

section \<open>Numbers in a radix\<close>

definition hexdigit :: "nat \<Rightarrow> char" where
  "hexdigit n = ''0123456789abcdef'' ! n"

fun radix :: "nat \<Rightarrow> nat \<Rightarrow> string" where
  "radix b n = (if b < 2 \<or> n < b then [hexdigit n] else radix b (n div b) @ [hexdigit (n mod b)])"

declare radix.simps [simp del]

text \<open>\<^verbatim>\<open>strconv.Itoa\<close> on a number that is not negative, and the lower-case hexadecimal digits.\<close>

definition dec :: "nat \<Rightarrow> string" where
  "dec n = radix 10 n"

definition hex :: "nat \<Rightarrow> string" where
  "hex n = radix 16 n"

definition itoa :: "int \<Rightarrow> string" where
  "itoa i = (if i < 0 then CHR ''-'' # dec (nat (- i)) else dec (nat i))"

text \<open>\<^verbatim>\<open>%02x\<close>: at least two hexadecimal digits.\<close>

definition hex02 :: "u8 \<Rightarrow> string" where
  "hex02 v = [hexdigit (unat v div 16), hexdigit (unat v mod 16)]"

definition hexchars :: "char set" where
  "hexchars = set ''0123456789abcdef''"

definition hexval :: "char \<Rightarrow> nat" where
  "hexval c = (if c \<le> CHR ''9'' then of_char c - 48 else of_char c - 87)"

definition unradix :: "nat \<Rightarrow> string \<Rightarrow> nat" where
  "unradix b s = foldl (\<lambda>a c. a * b + hexval c) 0 s"

lemma less_16_cases:
  "(n::nat) < 16 \<Longrightarrow> n \<in> {0, 1, 2, 3, 4, 5, 6, 7, 8, 9, 10, 11, 12, 13, 14, 15}"
  by (simp, presburger)

lemma hexval_hexdigit: "n < 16 \<Longrightarrow> hexval (hexdigit n) = n"
  by (drule less_16_cases) (auto simp: hexval_def hexdigit_def less_eq_char_def)

lemma hexdigit_in: "n < 16 \<Longrightarrow> hexdigit n \<in> hexchars"
  unfolding hexdigit_def hexchars_def by (rule nth_mem) simp

lemma hexdigit_inj: "m < 16 \<Longrightarrow> n < 16 \<Longrightarrow> hexdigit m = hexdigit n \<longleftrightarrow> m = n"
  by (metis hexval_hexdigit)

lemma unradix_radix:
  assumes "2 \<le> b" and "b \<le> 16"
  shows "unradix b (radix b n) = n"
  using assms
proof (induction b n rule: radix.induct)
  case (1 b n)
  show ?case
  proof (cases "n < b")
    case True
    with "1.prems" show ?thesis
      by (simp add: radix.simps [of b n] unradix_def hexval_hexdigit)
  next
    case False
    with 1 have IH: "foldl (\<lambda>a c. a * b + hexval c) 0 (radix b (n div b)) = n div b"
      by (simp add: unradix_def)
    from "1.prems" have "n mod b < 16"
      by (auto intro: less_le_trans [OF mod_less_divisor])
    with False "1.prems" show ?thesis
      by (simp add: radix.simps [of b n] unradix_def IH hexval_hexdigit)
  qed
qed

lemma radix_inject [simp]: "2 \<le> b \<Longrightarrow> b \<le> 16 \<Longrightarrow> radix b m = radix b n \<longleftrightarrow> m = n"
  by (metis unradix_radix)

lemma radix_not_Nil [simp]: "radix b n \<noteq> []"
  by (subst radix.simps) simp

lemma set_radix: "2 \<le> b \<Longrightarrow> b \<le> 16 \<Longrightarrow> set (radix b n) \<subseteq> hexchars"
proof (induction b n rule: radix.induct)
  case (1 b n)
  show ?case
  proof (cases "n < b")
    case True
    with "1.prems" show ?thesis
      using hexdigit_in [of n] by (simp add: radix.simps [of b n])
  next
    case False
    from "1.prems" have "n mod b < 16"
      by (auto intro: less_le_trans [OF mod_less_divisor])
    with False 1 show ?thesis
      using hexdigit_in [of "n mod b"] by (auto simp: radix.simps [of b n])
  qed
qed

lemma not_hexchars [simp]:
  "CHR '':'' \<notin> hexchars" "CHR ''/'' \<notin> hexchars" "CHR ''.'' \<notin> hexchars"
  "CHR ''|'' \<notin> hexchars" "CHR ''-'' \<notin> hexchars"
  by (simp_all add: hexchars_def)

lemma dec_inject [simp]: "dec m = dec n \<longleftrightarrow> m = n"
  by (simp add: dec_def)

lemma hex_inject [simp]: "hex m = hex n \<longleftrightarrow> m = n"
  by (simp add: hex_def)

lemma unradix_hex [simp]: "unradix 16 (hex n) = n"
  by (simp add: hex_def unradix_radix)

lemma hex_not_Nil [simp]: "hex n \<noteq> []" and dec_not_Nil [simp]: "dec n \<noteq> []"
  by (simp_all add: hex_def dec_def)

lemma dec_chars: "c \<in> set (dec n) \<Longrightarrow> c \<in> hexchars"
  using set_radix [of 10 n] by (auto simp: dec_def)

lemma hex_chars: "c \<in> set (hex n) \<Longrightarrow> c \<in> hexchars"
  using set_radix [of 16 n] by (auto simp: hex_def)

lemma unat_u8_less [simp]: "unat (v :: u8) < 256"
  using unsigned_less [of v] by simp

lemma unat_u8_div [simp]: "unat (v :: u8) div 16 < 16"
  using unat_u8_less [of v] by linarith

lemma hex02_inject [simp]: "hex02 v = hex02 w \<longleftrightarrow> v = w"
proof
  assume "hex02 v = hex02 w"
  then have "unat v div 16 = unat w div 16" "unat v mod 16 = unat w mod 16"
    by (simp_all add: hex02_def hexdigit_inj)
  then have "unat v = unat w" by (metis div_mult_mod_eq)
  then show "v = w" by (simp add: word_unat_eq_iff)
qed simp

lemma hex02_chars: "c \<in> set (hex02 v) \<Longrightarrow> c \<in> hexchars"
  using hexdigit_in [of "unat v div 16"] hexdigit_in [of "unat v mod 16"]
  by (auto simp: hex02_def)

section \<open>Conversions between word types\<close>

lemma unat_ucast_up:
  "LENGTH('a) \<le> LENGTH('b) \<Longrightarrow> unat (ucast (w :: 'a :: len word) :: 'b :: len word) = unat w"
  unfolding unsigned_ucast_eq
  by (rule take_bit_nat_eq_self) (rule less_le_trans [OF unsigned_less], simp)

lemma ucast_up_down:
  "LENGTH('a) \<le> LENGTH('b) \<Longrightarrow> ucast (ucast (w :: 'a :: len word) :: 'b :: len word) = w"
  by (rule bit_word_eqI) (auto simp: bit_simps dest: bit_imp_le_length)

lemma unat_ucast_down:
  "unat w < 2 ^ LENGTH('b) \<Longrightarrow> unat (ucast (w :: 'a :: len word) :: 'b :: len word) = unat w"
  unfolding unsigned_ucast_eq by (rule take_bit_nat_eq_self)

lemma ucast_down_up:
  assumes "unat w < 2 ^ LENGTH('b)" and "LENGTH('b) \<le> LENGTH('a)"
  shows "ucast (ucast (w :: 'a :: len word) :: 'b :: len word) = w"
  using assms by (simp add: word_unat_eq_iff unat_ucast_up unat_ucast_down)

lemma unat_word_of_nat: "n < 2 ^ LENGTH('a) \<Longrightarrow> unat (word_of_nat n :: 'a :: len word) = n"
  by (simp add: unsigned_of_nat take_bit_nat_eq_self)

lemma unat_u16_less [simp]: "unat (v :: u16) < 65536"
  using unsigned_less [of v] by simp

end
