(* ===== verification/Netip.thy ===== *)
theory Netip
  imports Prelude
begin

unbundle bit_operations_syntax

text \<open>
  The part of Go's \<^verbatim>\<open>net/netip\<close> that the agent uses: addresses (without zones, which no code
  path of the agent produces), prefixes, masking, containment, and the canonical text of an
  address and of a prefix. The text matters because \<^verbatim>\<open>ACLRule.Key\<close>, the identity under which
  the manager counts references, is built from it; the main result here is that the text of
  a valid prefix determines the prefix.
\<close>

section \<open>Addresses and prefixes\<close>

datatype addr = Addr_zero | Addr4 u32 | Addr6 "128 word"

fun Is4 :: "addr \<Rightarrow> bool" where
  "Is4 (Addr4 _) = True" | "Is4 _ = False"

fun Is6 :: "addr \<Rightarrow> bool" where
  "Is6 (Addr6 _) = True" | "Is6 _ = False"

definition addr_IsValid :: "addr \<Rightarrow> bool" where
  "addr_IsValid a \<longleftrightarrow> a \<noteq> Addr_zero"

fun BitLen :: "addr \<Rightarrow> int" where
  "BitLen Addr_zero = 0" | "BitLen (Addr4 _) = 32" | "BitLen (Addr6 _) = 128"

text \<open>A prefix keeps its address and its length; the length of an invalid prefix is \<open>-1\<close>.\<close>

record prefix =
  pfx_Addr :: addr
  pfx_Bits :: int

definition Prefix_zero :: prefix where
  "Prefix_zero = \<lparr>pfx_Addr = Addr_zero, pfx_Bits = -1\<rparr>"

definition PrefixFrom :: "addr \<Rightarrow> int \<Rightarrow> prefix" where
  "PrefixFrom ip bits =
     (if addr_IsValid ip \<and> 0 \<le> bits \<and> bits \<le> BitLen ip
      then \<lparr>pfx_Addr = ip, pfx_Bits = bits\<rparr> else \<lparr>pfx_Addr = ip, pfx_Bits = -1\<rparr>)"

definition pfx_IsValid :: "prefix \<Rightarrow> bool" where
  "pfx_IsValid p \<longleftrightarrow> 0 \<le> pfx_Bits p"

text \<open>Every prefix Go can build has a length between \<open>-1\<close> and the length of its address.\<close>

definition prefix_wf :: "prefix \<Rightarrow> bool" where
  "prefix_wf p \<longleftrightarrow>
     pfx_Bits p = -1 \<or> (pfx_Addr p \<noteq> Addr_zero \<and> 0 \<le> pfx_Bits p \<and> pfx_Bits p \<le> BitLen (pfx_Addr p))"

definition IPv4Unspecified :: addr where
  "IPv4Unspecified = Addr4 0"

definition IPv6Unspecified :: addr where
  "IPv6Unspecified = Addr6 0"

text \<open>\<^verbatim>\<open>Addr.Prefix(b)\<close>: \<open>None\<close> is the error for a negative or too long prefix length.\<close>

fun addr_Prefix :: "addr \<Rightarrow> int \<Rightarrow> prefix option" where
  "addr_Prefix ip b =
     (if b < 0 then None
      else case ip of
        Addr_zero \<Rightarrow> Some Prefix_zero
      | Addr4 x \<Rightarrow> if b > 32 then None
                   else Some (PrefixFrom (Addr4 (x AND NOT (mask (32 - nat b)))) b)
      | Addr6 x \<Rightarrow> if b > 128 then None
                   else Some (PrefixFrom (Addr6 (x AND NOT (mask (128 - nat b)))) b))"

definition Masked :: "prefix \<Rightarrow> prefix" where
  "Masked p = (case addr_Prefix (pfx_Addr p) (pfx_Bits p) of Some q \<Rightarrow> q | None \<Rightarrow> Prefix_zero)"

definition Contains :: "prefix \<Rightarrow> addr \<Rightarrow> bool" where
  "Contains p ip =
     (if \<not> pfx_IsValid p then False
      else case (pfx_Addr p, ip) of
        (Addr4 x, Addr4 y) \<Rightarrow> drop_bit (32 - nat (pfx_Bits p)) (y XOR x) = 0
      | (Addr6 x, Addr6 y) \<Rightarrow> (y XOR x) AND NOT (mask (128 - nat (pfx_Bits p))) = 0
      | _ \<Rightarrow> False)"

section \<open>Text\<close>

definition bytes4 :: "u32 \<Rightarrow> nat list" where
  "bytes4 x = map (\<lambda>i. unat (ucast (drop_bit (24 - 8 * i) x) :: u8)) [0..<4]"

definition groups6 :: "128 word \<Rightarrow> nat list" where
  "groups6 x = map (\<lambda>i. unat (ucast (drop_bit (112 - 16 * i) x) :: u16)) [0..<8]"

definition string4 :: "u32 \<Rightarrow> string" where
  "string4 x = join_with (CHR ''.'') (map dec (bytes4 x))"

text \<open>
  \<^verbatim>\<open>appendTo6\<close>: the first longest run of at least two zero groups is abbreviated. Both ends
  are 255 while no run has been found.
\<close>

definition zero_run_step :: "nat list \<Rightarrow> nat \<times> nat \<Rightarrow> nat \<Rightarrow> nat \<times> nat" where
  "zero_run_step gs r i =
     (let l = length (takeWhile (\<lambda>g. g = 0) (drop i gs))
      in if 2 \<le> l \<and> snd r - fst r < l then (i, i + l) else r)"

definition zero_run :: "nat list \<Rightarrow> nat \<times> nat" where
  "zero_run gs = foldl (zero_run_step gs) (255, 255) [0..<8]"

definition groups_text :: "nat list \<Rightarrow> string" where
  "groups_text gs = join_with (CHR '':'') (map hex gs)"

definition string6 :: "128 word \<Rightarrow> string" where
  "string6 x =
     (let gs = groups6 x; r = zero_run gs
      in if fst r = 255 then groups_text gs
         else groups_text (take (fst r) gs) @ ''::'' @ groups_text (drop (snd r) gs))"

definition Is4In6 :: "128 word \<Rightarrow> bool" where
  "Is4In6 x \<longleftrightarrow> drop_bit 32 x = 0xffff"

fun addr_String :: "addr \<Rightarrow> string" where
  "addr_String Addr_zero = ''invalid IP''"
| "addr_String (Addr4 x) = string4 x"
| "addr_String (Addr6 x) = (if Is4In6 x then ''::ffff:'' @ string4 (ucast x) else string6 x)"

definition pfx_String :: "prefix \<Rightarrow> string" where
  "pfx_String p =
     (if pfx_IsValid p then addr_String (pfx_Addr p) @ ''/'' @ itoa (pfx_Bits p)
      else ''invalid Prefix'')"

section \<open>The text of a valid prefix determines the prefix\<close>

lemma word_slices_inject:
  fixes x y :: "'a::len word"
  assumes len: "LENGTH('a) = LENGTH('b::len) * k"
    and eq: "\<And>i. i < k \<Longrightarrow>
      (ucast (drop_bit (LENGTH('b) * i) x) :: 'b word) = ucast (drop_bit (LENGTH('b) * i) y)"
  shows "x = y"
proof (rule bit_word_eqI)
  fix n assume n: "n < LENGTH('a)"
  let ?i = "n div LENGTH('b)" and ?j = "n mod LENGTH('b)"
  have "?i < k" using n len by (simp add: less_mult_imp_div_less mult.commute)
  from arg_cong [OF eq [OF this], of "\<lambda>w. bit w ?j"]
  have "bit x (LENGTH('b) * ?i + ?j) = bit y (LENGTH('b) * ?i + ?j)"
    by (simp add: bit_ucast_iff bit_drop_bit_eq)
  then show "bit x n = bit y n" by simp
qed

lemma bytes4_inject: "bytes4 x = bytes4 y \<longleftrightarrow> x = y"
proof
  assume "bytes4 x = bytes4 y"
  then have eq: "(ucast (drop_bit (24 - 8 * j) x) :: u8) = ucast (drop_bit (24 - 8 * j) y)"
    if "j < 4" for j
    using that by (intro word_unat_eq_iff [THEN iffD2]) (unfold bytes4_def map_eq_conv set_upt, erule bspec, rule atLeastLessThan_iff [THEN iffD2], simp)
  have "(ucast (drop_bit (LENGTH(8) * i) x) :: u8) = ucast (drop_bit (LENGTH(8) * i) y)"
    if "i < 4" for i
  proof -
    from that have "24 - 8 * (3 - i) = LENGTH(8) * i" and "3 - i < 4" by auto
    with eq [of "3 - i"] show ?thesis by metis
  qed
  from word_slices_inject [OF _ this] show "x = y" by simp
qed simp

lemma groups6_inject: "groups6 x = groups6 y \<longleftrightarrow> x = y"
proof
  assume "groups6 x = groups6 y"
  then have eq: "(ucast (drop_bit (112 - 16 * j) x) :: u16) = ucast (drop_bit (112 - 16 * j) y)"
    if "j < 8" for j
    using that by (intro word_unat_eq_iff [THEN iffD2]) (unfold groups6_def map_eq_conv set_upt, erule bspec, rule atLeastLessThan_iff [THEN iffD2], simp)
  have "(ucast (drop_bit (LENGTH(16) * i) x) :: u16) = ucast (drop_bit (LENGTH(16) * i) y)"
    if "i < 8" for i
  proof -
    from that have "112 - 16 * (7 - i) = LENGTH(16) * i" and "7 - i < 8" by auto
    with eq [of "7 - i"] show ?thesis by metis
  qed
  from word_slices_inject [OF _ this] show "x = y" by simp
qed simp

lemma length_groups6 [simp]: "length (groups6 x) = 8"
  by (simp add: groups6_def)

lemma length_bytes4 [simp]: "length (bytes4 x) = 4"
  by (simp add: bytes4_def)

lemma no_sep_dec: "\<forall>f\<in>set (map dec ns). CHR ''.'' \<notin> set f"
  using dec_chars by fastforce

lemma no_sep_hex: "\<forall>f\<in>set (map hex ns). CHR '':'' \<notin> set f"
  using hex_chars by fastforce

lemma inj_map_dec: "map dec ms = map dec ns \<longleftrightarrow> ms = ns"
  by (simp add: inj_def inj_map_eq_map)

lemma string4_inject [simp]: "string4 x = string4 y \<longleftrightarrow> x = y"
proof
  assume eq: "string4 x = string4 y"
  have "split_on (CHR ''.'') (string4 z) = map dec (bytes4 z)" for z
    unfolding string4_def by (rule split_on_join [OF _ no_sep_dec]) (auto simp: bytes4_def)
  with eq have "map dec (bytes4 x) = map dec (bytes4 y)" by metis
  then show "x = y" by (simp add: inj_map_dec bytes4_inject)
qed simp

text \<open>The run that \<^const>\<open>zero_run\<close> finds lies inside the groups and holds zeros only.\<close>

definition zero_run_ok :: "nat list \<Rightarrow> nat \<times> nat \<Rightarrow> bool" where
  "zero_run_ok gs r \<longleftrightarrow>
     fst r = 255 \<or> (fst r \<le> snd r \<and> snd r \<le> length gs \<and>
       gs = take (fst r) gs @ replicate (snd r - fst r) 0 @ drop (snd r) gs)"

lemma takeWhile_zero: "takeWhile (\<lambda>g. g = (0::nat)) xs = replicate (length (takeWhile (\<lambda>g. g = 0) xs)) 0"
  by (induction xs) auto

lemma zero_run_step_ok: "zero_run_ok gs r \<Longrightarrow> zero_run_ok gs (zero_run_step gs r i)"
proof -
  assume ok: "zero_run_ok gs r"
  let ?t = "takeWhile (\<lambda>g. g = 0) (drop i gs)"
  have le: "i + length ?t \<le> length gs" if "2 \<le> length ?t"
  proof -
    have "length ?t \<le> length gs - i" using length_takeWhile_le [of "\<lambda>g. g = 0" "drop i gs"] by simp
    with that show ?thesis by linarith
  qed
  have "gs = take i gs @ ?t @ dropWhile (\<lambda>g. g = 0) (drop i gs)"
    by (metis append_take_drop_id takeWhile_dropWhile_id)
  moreover have "dropWhile (\<lambda>g. g = 0) (drop i gs) = drop (i + length ?t) gs"
    by (metis add.commute drop_drop dropWhile_eq_drop)
  ultimately have "gs = take i gs @ replicate (length ?t) 0 @ drop (i + length ?t) gs"
    using takeWhile_zero [of "drop i gs"] by metis
  with ok le show ?thesis by (auto simp: zero_run_step_def Let_def zero_run_ok_def)
qed

lemma zero_run_ok: "zero_run_ok gs (zero_run gs)"
proof -
  have "zero_run_ok gs r \<Longrightarrow> zero_run_ok gs (foldl (zero_run_step gs) r is)" for r "is"
    by (induction "is" arbitrary: r) (simp_all add: zero_run_step_ok)
  then show ?thesis unfolding zero_run_def by (simp add: zero_run_ok_def)
qed

text \<open>The inverse of the text: the fields around the empty ones are the groups that remain.\<close>

definition parse6 :: "string \<Rightarrow> nat list" where
  "parse6 s =
     (let fs = split_on (CHR '':'') s;
          as = takeWhile (\<lambda>f. f \<noteq> []) fs; bs = filter (\<lambda>f. f \<noteq> []) (dropWhile (\<lambda>f. f \<noteq> []) fs)
      in map (unradix 16) as @ replicate (8 - length as - length bs) 0 @ map (unradix 16) bs)"

lemma filter_hex [simp]: "filter (\<lambda>f. f \<noteq> []) (map hex ns) = map hex ns"
  by (induction ns) auto

lemma unhex_map [simp]: "map (unradix 16 \<circ> hex) ns = ns"
  by (induction ns) auto

lemma takeWhile_map_hex [simp]: "takeWhile (\<lambda>f. f \<noteq> []) (map hex ns) = map hex ns"
  by (induction ns) auto

lemma dropWhile_map_hex [simp]: "dropWhile (\<lambda>f. f \<noteq> []) (map hex ns) = []"
  by (induction ns) auto

lemma split_on_groups:
  "split_on (CHR '':'') (groups_text ns) = (if ns = [] then [[]] else map hex ns)"
  unfolding groups_text_def using split_on_join [OF _ no_sep_hex] by auto

lemma split_on_groups_append:
  "split_on (CHR '':'') (groups_text ns @ CHR '':'' # s) =
     (if ns = [] then [[]] else map hex ns) @ split_on (CHR '':'') s"
  unfolding groups_text_def using split_on_join_append [OF _ no_sep_hex] by auto

lemma takeWhile_hex: "takeWhile (\<lambda>f. f \<noteq> []) (map hex ns @ [] # fs) = map hex ns"
  by (induction ns) auto

lemma dropWhile_hex: "dropWhile (\<lambda>f. f \<noteq> []) (map hex ns @ [] # fs) = [] # fs"
  by (induction ns) auto

lemma parse6_full: "length ns = 8 \<Longrightarrow> parse6 (groups_text ns) = ns"
  by (auto simp: parse6_def split_on_groups Let_def)

lemma parse6_run:
  "parse6 (groups_text as @ ''::'' @ groups_text bs) =
     as @ replicate (8 - length as - length bs) 0 @ bs"
proof -
  have "split_on (CHR '':'') (groups_text as @ ''::'' @ groups_text bs) =
      (if as = [] then [[]] else map hex as) @ [] # (if bs = [] then [[]] else map hex bs)"
    by (simp add: split_on_groups_append split_on_groups)
  then show ?thesis
    by (cases "as = []") (simp_all add: parse6_def Let_def takeWhile_hex dropWhile_hex)
qed

lemma parse6_string6: "parse6 (string6 x) = groups6 x"
proof (cases "fst (zero_run (groups6 x)) = 255")
  case True
  then show ?thesis by (simp add: string6_def Let_def parse6_full)
next
  case False
  let ?gs = "groups6 x" and ?r = "zero_run (groups6 x)"
  from zero_run_ok [of ?gs] False have r: "fst ?r \<le> snd ?r" "snd ?r \<le> 8"
    "?gs = take (fst ?r) ?gs @ replicate (snd ?r - fst ?r) 0 @ drop (snd ?r) ?gs"
    by (simp_all add: zero_run_ok_def)
  moreover from r have "8 - length (take (fst ?r) ?gs) - length (drop (snd ?r) ?gs) = snd ?r - fst ?r"
    by simp
  ultimately have "parse6 (groups_text (take (fst ?r) ?gs) @ ''::'' @ groups_text (drop (snd ?r) ?gs)) = ?gs"
    by (metis parse6_run)
  with False show ?thesis by (simp add: string6_def Let_def)
qed

lemma string6_inject [simp]: "string6 x = string6 y \<longleftrightarrow> x = y"
  by (metis parse6_string6 groups6_inject)

lemma groups_text_chars: "c \<in> set (groups_text ns) \<Longrightarrow> c = CHR '':'' \<or> c \<in> hexchars"
  unfolding groups_text_def using set_join_with [of "CHR '':''" "map hex ns"] hex_chars by fastforce

lemma set_string6: "set (string6 x) \<subseteq> insert (CHR '':'') hexchars"
  by (auto simp: string6_def Let_def dest!: groups_text_chars split: if_splits)

lemma set_string4: "set (string4 x) \<subseteq> insert (CHR ''.'') hexchars"
  unfolding string4_def using set_join_with [of "CHR ''.''" "map dec (bytes4 x)"] dec_chars by fastforce

lemma dot_in_string4: "CHR ''.'' \<in> set (string4 x)"
  unfolding string4_def by (cases "bytes4 x"; cases "tl (bytes4 x)") (auto dest: arg_cong [of _ _ length])

lemma Is4In6_inject: "Is4In6 x \<Longrightarrow> Is4In6 y \<Longrightarrow> (ucast x :: u32) = ucast y \<longleftrightarrow> x = y"
proof
  assume hi: "Is4In6 x" "Is4In6 y" and lo: "(ucast x :: u32) = ucast y"
  show "x = y"
  proof (rule bit_word_eqI)
    fix n assume "n < LENGTH(128)"
    show "bit x n = bit y n"
    proof (cases "n < 32")
      case True
      from arg_cong [OF lo, of "\<lambda>w. bit w n"] True show ?thesis by (simp add: bit_ucast_iff)
    next
      case False
      from hi have "drop_bit 32 x = drop_bit 32 y" by (simp add: Is4In6_def)
      from arg_cong [OF this, of "\<lambda>w. bit w (n - 32)"] False show ?thesis
        by (simp add: bit_drop_bit_eq)
    qed
  qed
qed simp

lemma colon_notin_string4: "CHR '':'' \<notin> set (string4 x)"
  using set_string4 by fastforce

lemma dot_notin_string6: "CHR ''.'' \<notin> set (string6 x)"
  using set_string6 by fastforce

lemma colon_in_groups_text: "2 \<le> length ns \<Longrightarrow> CHR '':'' \<in> set (groups_text ns)"
  unfolding groups_text_def by (cases ns; cases "tl ns") auto

lemma colon_in_string6: "CHR '':'' \<in> set (string6 x)"
  by (simp add: string6_def Let_def colon_in_groups_text)

text \<open>The text of an address determines the address.\<close>

lemma addr_String_Addr6_neq:
  "addr_String (Addr6 y) \<noteq> string4 x" "addr_String (Addr6 y) \<noteq> ''invalid IP''"
proof -
  have "CHR '':'' \<in> set (addr_String (Addr6 y))" by (simp add: colon_in_string6)
  then show "addr_String (Addr6 y) \<noteq> string4 x" "addr_String (Addr6 y) \<noteq> ''invalid IP''"
    using colon_notin_string4 [of x] by auto
qed

lemma string4_neq_invalid: "string4 x \<noteq> ''invalid IP''"
  using set_string4 [of x] by (auto simp: hexchars_def)

lemma mapped_neq_string6: "''::ffff:'' @ string4 x \<noteq> string6 y"
  using dot_in_string4 [of x] dot_notin_string6 [of y] by (metis Un_iff set_append)

lemma addr_String_Addr6_inject: "addr_String (Addr6 x) = addr_String (Addr6 y) \<longleftrightarrow> x = y"
  using mapped_neq_string6 [of "ucast x" y] mapped_neq_string6 [of "ucast y" x]
  by (cases "Is4In6 x"; cases "Is4In6 y") (auto simp: Is4In6_inject)

lemma addr_String_inject: "addr_String a = addr_String b \<longleftrightarrow> a = b"
  using addr_String_Addr6_neq addr_String_Addr6_neq [symmetric]
    string4_neq_invalid string4_neq_invalid [symmetric]
  by (cases a; cases b) (simp_all add: addr_String_Addr6_inject del: addr_String.simps(3))

lemma slash_notin_addr_String: "addr_IsValid a \<Longrightarrow> CHR ''/'' \<notin> set (addr_String a)"
proof (cases a)
  case (Addr4 x)
  then show ?thesis using set_string4 [of x] by auto
next
  case (Addr6 x)
  then show ?thesis using set_string4 [of "ucast x"] set_string6 [of x] by (auto simp: hexchars_def)
qed (simp add: addr_IsValid_def)

lemma itoa_inject: "0 \<le> i \<Longrightarrow> 0 \<le> j \<Longrightarrow> itoa i = itoa j \<longleftrightarrow> i = j"
  by (simp add: itoa_def eq_nat_nat_iff)

theorem pfx_String_inject:
  assumes "prefix_wf p" "prefix_wf q" "pfx_IsValid p" "pfx_IsValid q"
  shows "pfx_String p = pfx_String q \<longleftrightarrow> p = q"
proof -
  have "addr_IsValid (pfx_Addr p)" "addr_IsValid (pfx_Addr q)"
    using assms by (auto simp: prefix_wf_def pfx_IsValid_def addr_IsValid_def)
  then have "pfx_String p = pfx_String q \<longleftrightarrow>
      addr_String (pfx_Addr p) = addr_String (pfx_Addr q) \<and> itoa (pfx_Bits p) = itoa (pfx_Bits q)"
    using assms by (simp add: pfx_String_def sep_inject slash_notin_addr_String)
  also have "\<dots> \<longleftrightarrow> p = q"
    using assms by (simp add: addr_String_inject itoa_inject pfx_IsValid_def prefix.equality)
      (metis prefix.equality prefix.surjective old.unit.exhaust)
  finally show ?thesis .
qed

end
