(* ===== verification/NetipParse.thy ===== *)
theory NetipParse
  imports Netip
begin

text \<open>
  Parsing of addresses and prefixes (\<^verbatim>\<open>netip.ParseAddr\<close>, \<^verbatim>\<open>netip.ParsePrefix\<close>), with the
  loop of Go's \<^verbatim>\<open>parseIPv6\<close> as a recursive function over the rest of the text. Zones are
  refused: a prefix with a zone is an error in Go, and no other caller passes one.
\<close>

definition is_digit :: "char \<Rightarrow> bool" where
  "is_digit c \<longleftrightarrow> CHR ''0'' \<le> c \<and> c \<le> CHR ''9''"

definition is_hexdigit :: "char \<Rightarrow> bool" where
  "is_hexdigit c \<longleftrightarrow> is_digit c \<or> (CHR ''a'' \<le> c \<and> c \<le> CHR ''f'') \<or> (CHR ''A'' \<le> c \<and> c \<le> CHR ''F'')"

definition hexval_any :: "char \<Rightarrow> nat" where
  "hexval_any c = (if CHR ''A'' \<le> c \<and> c \<le> CHR ''F'' then of_char c - 55 else hexval c)"

definition unhex_any :: "string \<Rightarrow> nat" where
  "unhex_any s = foldl (\<lambda>a c. a * 16 + hexval_any c) 0 s"

definition parse_octet :: "string \<Rightarrow> nat option" where
  "parse_octet s =
     (if s \<noteq> [] \<and> list_all is_digit s \<and> (length s = 1 \<or> hd s \<noteq> CHR ''0'') \<and> unradix 10 s \<le> 255
      then Some (unradix 10 s) else None)"

definition parseIPv4Fields :: "string \<Rightarrow> nat list option" where
  "parseIPv4Fields s =
     (let fs = map parse_octet (split_on (CHR ''.'') s)
      in if length fs = 4 \<and> None \<notin> set fs then Some (map the fs) else None)"

definition of_bytes4 :: "nat list \<Rightarrow> u32" where
  "of_bytes4 bs = foldl (\<lambda>a b. a * 256 + of_nat b) 0 bs"

definition of_groups6 :: "nat list \<Rightarrow> 128 word" where
  "of_groups6 gs = foldl (\<lambda>a g. a * 65536 + of_nat g) 0 gs"

text \<open>
  The loop of \<^verbatim>\<open>parseIPv6\<close>: the groups read so far, the position of the ellipsis, the rest of
  the text.
\<close>

function v6_loop :: "nat list \<Rightarrow> nat option \<Rightarrow> string \<Rightarrow> (nat list \<times> nat option) option" where
  "v6_loop acc ell s =
     (if 8 \<le> length acc then (if s = [] then Some (acc, ell) else None)
      else
        let h = takeWhile is_hexdigit s; rest = dropWhile is_hexdigit s; acc' = acc @ [unhex_any h]
        in if h = [] \<or> 4 < length h then None
           else case rest of
             [] \<Rightarrow> Some (acc', ell)
           | c # s1 \<Rightarrow>
               if c = CHR ''.'' then
                 if (ell = None \<and> length acc \<noteq> 6) \<or> 8 < length acc + 2 then None
                 else (case parseIPv4Fields s of
                         Some [a, b, d, e] \<Rightarrow> Some (acc @ [a * 256 + b, d * 256 + e], ell)
                       | _ \<Rightarrow> None)
               else if c \<noteq> CHR '':'' \<or> s1 = [] then None
               else if hd s1 = CHR '':'' then
                 if ell \<noteq> None then None
                 else if tl s1 = [] then Some (acc', Some (length acc'))
                 else v6_loop acc' (Some (length acc')) (tl s1)
               else v6_loop acc' ell s1)"
  by pat_completeness auto
termination
proof (relation "measure (\<lambda>(acc, ell, s). length s)", goal_cases)
  case (2 acc ell s h rest acc' c s1)
  then have "length (dropWhile is_hexdigit s) = Suc (length s1)" by (metis length_Cons)
  moreover have "length (dropWhile is_hexdigit s) \<le> length s" by (rule length_dropWhile_le)
  ultimately show ?case by simp
next
  case (3 acc ell s h rest acc' c s1)
  then have "length (dropWhile is_hexdigit s) = Suc (length s1)" by (metis length_Cons)
  moreover have "length (dropWhile is_hexdigit s) \<le> length s" by (rule length_dropWhile_le)
  ultimately show ?case by simp
qed simp

declare v6_loop.simps [simp del]

definition expand6 :: "nat list \<times> nat option \<Rightarrow> nat list option" where
  "expand6 r =
     (let gs = fst r; i = length gs
      in case snd r of
           None \<Rightarrow> if i = 8 then Some gs else None
         | Some e \<Rightarrow> if i < 8 then Some (take e gs @ replicate (8 - i) 0 @ drop e gs) else None)"

definition parseIPv6 :: "string \<Rightarrow> addr option" where
  "parseIPv6 s =
     (if s = ''::'' then Some (Addr6 0)
      else
        case (if take 2 s = ''::'' then v6_loop [] (Some 0) (drop 2 s) else v6_loop [] None s) of
          None \<Rightarrow> None
        | Some r \<Rightarrow> map_option (Addr6 \<circ> of_groups6) (expand6 r))"

definition ParseAddr :: "string \<Rightarrow> addr option" where
  "ParseAddr s =
     (case dropWhile (\<lambda>c. c \<noteq> CHR ''.'' \<and> c \<noteq> CHR '':'' \<and> c \<noteq> CHR ''%'') s of
        [] \<Rightarrow> None
      | c # _ \<Rightarrow>
          if c = CHR ''.'' then map_option (Addr4 \<circ> of_bytes4) (parseIPv4Fields s)
          else if c = CHR '':'' then parseIPv6 s else None)"

text \<open>The prefix length: digits only, without a sign and without a leading zero.\<close>

definition parse_bits :: "string \<Rightarrow> int option" where
  "parse_bits s =
     (if s \<noteq> [] \<and> list_all is_digit s \<and> (length s = 1 \<or> hd s \<noteq> CHR ''0'')
      then Some (int (unradix 10 s)) else None)"

definition ParsePrefix :: "string \<Rightarrow> prefix option" where
  "ParsePrefix s =
     (let r = rev s; bits = rev (takeWhile (\<lambda>c. c \<noteq> CHR ''/'') r);
          front = dropWhile (\<lambda>c. c \<noteq> CHR ''/'') r
      in case front of
           [] \<Rightarrow> None
         | _ # a \<Rightarrow>
             (case (ParseAddr (rev a), parse_bits bits) of
                (Some ip, Some n) \<Rightarrow>
                  if n \<le> (if Is6 ip then 128 else 32) then Some (PrefixFrom ip n) else None
              | _ \<Rightarrow> None))"

end
