(* ===== verification/FlowSpec.thy ===== *)
theory FlowSpec
  imports NetipParse
begin

text \<open>
  Package \<^verbatim>\<open>internal/flowspec\<close>: the internal FlowSpec rule and the parser that builds it from
  a route GoBGP has decoded. The decoded route is input data of the model: its dynamic types
  are constructors, and what the code asks of it (\<^verbatim>\<open>String()\<close>, \<^verbatim>\<open>Type()\<close>, fields) are their
  arguments.
\<close>

unbundle bit_operations_syntax

section \<open>The internal rule (rule.go)\<close>

datatype fs_family = FamilyIPv4 | FamilyIPv6

fun family_String :: "fs_family \<Rightarrow> string" where
  "family_String FamilyIPv4 = ''ipv4''"
| "family_String FamilyIPv6 = ''ipv6''"

record NumericOp =
  nop_And :: bool
  nop_LT :: bool
  nop_GT :: bool
  nop_EQ :: bool
  nop_Value :: u64

record BitmaskOp =
  bop_And :: bool
  bop_Not :: bool
  bop_Match :: bool
  bop_Value :: u64

record fs_match =
  HasDst :: bool
  Dst :: prefix
  DstOffset :: u8
  HasSrc :: bool
  Src :: prefix
  SrcOffset :: u8
  m_Proto :: "NumericOp list"
  DstPort :: "NumericOp list"
  SrcPort :: "NumericOp list"
  ICMPType :: "NumericOp list"
  ICMPCode :: "NumericOp list"
  TCPFlags :: "BitmaskOp list"
  Fragment :: "BitmaskOp list"
  HasGenericPort :: bool
  HasPacketLen :: bool
  HasDSCP :: bool
  HasFlowLabel :: bool
  HasLabel :: bool
  HasUnknownComponent :: bool

text \<open>The zero value of \<^verbatim>\<open>Match\<close>.\<close>

definition Match_zero :: fs_match where
  "Match_zero = \<lparr>HasDst = False, Dst = Prefix_zero, DstOffset = 0,
     HasSrc = False, Src = Prefix_zero, SrcOffset = 0,
     m_Proto = [], DstPort = [], SrcPort = [], ICMPType = [], ICMPCode = [], TCPFlags = [],
     Fragment = [], HasGenericPort = False, HasPacketLen = False, HasDSCP = False,
     HasFlowLabel = False, HasLabel = False, HasUnknownComponent = False\<rparr>"

datatype ActionKind = ActionUnknown | ActionDrop | ActionUnsupported

record fs_action =
  a_Kind :: ActionKind
  a_Desc :: fmt_msg

record fs_rule =
  r_Family :: fs_family
  r_Match :: fs_match
  r_Action :: fs_action
  r_Raw :: string

section \<open>Defaults (normalize.go)\<close>

definition defaultV4 :: prefix where
  "defaultV4 = PrefixFrom IPv4Unspecified 0"

definition defaultV6 :: prefix where
  "defaultV6 = PrefixFrom IPv6Unspecified 0"

definition DefaultPrefix :: "fs_family \<Rightarrow> prefix" where
  "DefaultPrefix f = (if f = FamilyIPv6 then defaultV6 else defaultV4)"

definition DstOrDefault :: "fs_match \<Rightarrow> fs_family \<Rightarrow> prefix" where
  "DstOrDefault m f = (if HasDst m then Dst m else DefaultPrefix f)"

definition SrcOrDefault :: "fs_match \<Rightarrow> fs_family \<Rightarrow> prefix" where
  "SrcOrDefault m f = (if HasSrc m then Src m else DefaultPrefix f)"

section \<open>Decoded routes (input data)\<close>

datatype flowspec_type =
    FLOW_SPEC_TYPE_IP_PROTO | FLOW_SPEC_TYPE_PORT | FLOW_SPEC_TYPE_DST_PORT
  | FLOW_SPEC_TYPE_SRC_PORT | FLOW_SPEC_TYPE_ICMP_TYPE | FLOW_SPEC_TYPE_ICMP_CODE
  | FLOW_SPEC_TYPE_TCP_FLAG | FLOW_SPEC_TYPE_PKT_LEN | FLOW_SPEC_TYPE_DSCP
  | FLOW_SPEC_TYPE_FRAGMENT | FLOW_SPEC_TYPE_LABEL | FLOW_SPEC_TYPE_OTHER nat

record fs_item =
  it_Op :: u8
  it_Value :: u64

text \<open>Prefix components carry the text of their prefix, the IPv6 ones their offset too.\<close>

datatype fs_component =
    FlowSpecDestinationPrefix string
  | FlowSpecSourcePrefix string
  | FlowSpecDestinationPrefix6 string u8
  | FlowSpecSourcePrefix6 string u8
  | FlowSpecComponent flowspec_type "fs_item list"
  | OtherComponent

text \<open>A route with the text of its NLRI.\<close>

datatype nlri =
    FlowSpecIPv4Unicast "fs_component list" string
  | FlowSpecIPv6Unicast "fs_component list" string
  | OtherNLRI string

datatype ext_community =
    TrafficRateExtended real
  | TrafficActionExtended
  | TrafficRemarkExtended
  | RedirectTwoOctetAsSpecificExtended
  | RedirectIPv4AddressSpecificExtended
  | RedirectIPv6AddressSpecificExtended
  | RedirectFourOctetAsSpecificExtended
  | OtherExtCommunity

datatype path_attribute =
    PathAttributeExtendedCommunities "ext_community list"
  | OtherPathAttribute

section \<open>The parser (parse.go)\<close>

definition numOpEQ :: u8 where "numOpEQ = 0x01"
definition numOpGT :: u8 where "numOpGT = 0x02"
definition numOpLT :: u8 where "numOpLT = 0x04"
definition numOpAND :: u8 where "numOpAND = 0x40"

definition bitOpMatch :: u8 where "bitOpMatch = 0x01"
definition bitOpNot :: u8 where "bitOpNot = 0x02"
definition bitOpAnd :: u8 where "bitOpAnd = 0x40"

definition numericOps :: "fs_item list \<Rightarrow> NumericOp list" where
  "numericOps items =
     map (\<lambda>it. \<lparr>nop_And = it_Op it AND numOpAND \<noteq> 0,
                nop_LT = it_Op it AND numOpLT \<noteq> 0,
                nop_GT = it_Op it AND numOpGT \<noteq> 0,
                nop_EQ = it_Op it AND numOpEQ \<noteq> 0,
                nop_Value = it_Value it\<rparr>) items"

definition bitmaskOps :: "fs_item list \<Rightarrow> BitmaskOp list" where
  "bitmaskOps items =
     map (\<lambda>it. \<lparr>bop_And = it_Op it AND bitOpAnd \<noteq> 0,
                bop_Not = it_Op it AND bitOpNot \<noteq> 0,
                bop_Match = it_Op it AND bitOpMatch \<noteq> 0,
                bop_Value = it_Value it\<rparr>) items"

definition parsePrefix :: "string \<Rightarrow> unit goerr + prefix" where
  "parsePrefix s =
     (case ParsePrefix s of
        Some p \<Rightarrow> Inr p
      | None \<Rightarrow> Inl (Wrapf (Sprintf ''parse prefix %q: %w'' [FStr s]) (ErrValue ())))"

fun parseGenericComponent :: "fs_match \<Rightarrow> flowspec_type \<Rightarrow> fs_item list \<Rightarrow> fs_match" where
  "parseGenericComponent m FLOW_SPEC_TYPE_IP_PROTO items = m\<lparr>m_Proto := numericOps items\<rparr>"
| "parseGenericComponent m FLOW_SPEC_TYPE_DST_PORT items = m\<lparr>DstPort := numericOps items\<rparr>"
| "parseGenericComponent m FLOW_SPEC_TYPE_SRC_PORT items = m\<lparr>SrcPort := numericOps items\<rparr>"
| "parseGenericComponent m FLOW_SPEC_TYPE_ICMP_TYPE items = m\<lparr>ICMPType := numericOps items\<rparr>"
| "parseGenericComponent m FLOW_SPEC_TYPE_ICMP_CODE items = m\<lparr>ICMPCode := numericOps items\<rparr>"
| "parseGenericComponent m FLOW_SPEC_TYPE_TCP_FLAG items = m\<lparr>TCPFlags := bitmaskOps items\<rparr>"
| "parseGenericComponent m FLOW_SPEC_TYPE_FRAGMENT items = m\<lparr>Fragment := bitmaskOps items\<rparr>"
| "parseGenericComponent m FLOW_SPEC_TYPE_PORT items = m\<lparr>HasGenericPort := True\<rparr>"
| "parseGenericComponent m FLOW_SPEC_TYPE_PKT_LEN items = m\<lparr>HasPacketLen := True\<rparr>"
| "parseGenericComponent m FLOW_SPEC_TYPE_DSCP items = m\<lparr>HasDSCP := True\<rparr>"
| "parseGenericComponent m FLOW_SPEC_TYPE_LABEL items = m\<lparr>HasFlowLabel := True\<rparr>"
| "parseGenericComponent m (FLOW_SPEC_TYPE_OTHER n) items = m\<lparr>HasUnknownComponent := True\<rparr>"

text \<open>One iteration of the loop of \<^verbatim>\<open>parseComponents\<close>, then the loop.\<close>

fun parseComponent :: "fs_match \<Rightarrow> fs_component \<Rightarrow> unit goerr + fs_match" where
  "parseComponent m (FlowSpecDestinationPrefix s) =
     (case parsePrefix s of Inl e \<Rightarrow> Inl e | Inr p \<Rightarrow> Inr (m\<lparr>HasDst := True, Dst := p\<rparr>))"
| "parseComponent m (FlowSpecSourcePrefix s) =
     (case parsePrefix s of Inl e \<Rightarrow> Inl e | Inr p \<Rightarrow> Inr (m\<lparr>HasSrc := True, Src := p\<rparr>))"
| "parseComponent m (FlowSpecDestinationPrefix6 s off) =
     (case parsePrefix s of Inl e \<Rightarrow> Inl e
      | Inr p \<Rightarrow> Inr (m\<lparr>HasDst := True, Dst := p, DstOffset := off\<rparr>))"
| "parseComponent m (FlowSpecSourcePrefix6 s off) =
     (case parsePrefix s of Inl e \<Rightarrow> Inl e
      | Inr p \<Rightarrow> Inr (m\<lparr>HasSrc := True, Src := p, SrcOffset := off\<rparr>))"
| "parseComponent m (FlowSpecComponent t items) = Inr (parseGenericComponent m t items)"
| "parseComponent m OtherComponent = Inr (m\<lparr>HasUnknownComponent := True\<rparr>)"

fun parseComponents :: "fs_match \<Rightarrow> fs_component list \<Rightarrow> unit goerr + fs_match" where
  "parseComponents m [] = Inr m"
| "parseComponents m (c # cs) =
     (case parseComponent m c of Inl e \<Rightarrow> Inl e | Inr m' \<Rightarrow> parseComponents m' cs)"

text \<open>
  \<^verbatim>\<open>parseAction\<close>: the loop keeps whether a drop was found and the last description of an
  action that is not supported (empty when none was found).
\<close>

fun action_step :: "bool \<times> fmt_msg \<Rightarrow> ext_community \<Rightarrow> bool \<times> fmt_msg" where
  "action_step (d, u) (TrafficRateExtended rate) =
     (if rate = 0 then (True, u) else (d, Sprintf ''traffic-rate=%v'' [FNum rate]))"
| "action_step (d, u) TrafficActionExtended = (d, msg ''traffic-action(sample/terminal)'')"
| "action_step (d, u) TrafficRemarkExtended = (d, msg ''traffic-marking(dscp)'')"
| "action_step (d, u) RedirectTwoOctetAsSpecificExtended = (d, msg ''redirect'')"
| "action_step (d, u) RedirectIPv4AddressSpecificExtended = (d, msg ''redirect'')"
| "action_step (d, u) RedirectIPv6AddressSpecificExtended = (d, msg ''redirect'')"
| "action_step (d, u) RedirectFourOctetAsSpecificExtended = (d, msg ''redirect'')"
| "action_step (d, u) OtherExtCommunity = (d, u)"

fun attr_step :: "bool \<times> fmt_msg \<Rightarrow> path_attribute \<Rightarrow> bool \<times> fmt_msg" where
  "attr_step s (PathAttributeExtendedCommunities ecs) = foldl action_step s ecs"
| "attr_step s OtherPathAttribute = s"

definition parseAction :: "path_attribute list \<Rightarrow> fs_action" where
  "parseAction attrs =
     (let (foundDrop, unsupportedDesc) = foldl attr_step (False, msg '''') attrs
      in if unsupportedDesc \<noteq> msg '''' then \<lparr>a_Kind = ActionUnsupported, a_Desc = unsupportedDesc\<rparr>
         else if foundDrop then \<lparr>a_Kind = ActionDrop, a_Desc = msg ''traffic-rate=0''\<rparr>
         else \<lparr>a_Kind = ActionUnknown, a_Desc = msg ''no action''\<rparr>)"

fun ParseNLRI :: "nlri \<Rightarrow> path_attribute list \<Rightarrow> unit goerr + fs_rule" where
  "ParseNLRI (FlowSpecIPv4Unicast comps s) attrs =
     (case parseComponents Match_zero comps of Inl e \<Rightarrow> Inl e
      | Inr m \<Rightarrow> Inr \<lparr>r_Family = FamilyIPv4, r_Match = m, r_Action = parseAction attrs, r_Raw = s\<rparr>)"
| "ParseNLRI (FlowSpecIPv6Unicast comps s) attrs =
     (case parseComponents Match_zero comps of Inl e \<Rightarrow> Inl e
      | Inr m \<Rightarrow> Inr \<lparr>r_Family = FamilyIPv6, r_Match = m, r_Action = parseAction attrs, r_Raw = s\<rparr>)"
| "ParseNLRI (OtherNLRI s) attrs = Inl (Errorf (Sprintf ''not a flowspec NLRI: %T'' [FStr s]))"

end
