(* ===== verification/VppTypes.thy ===== *)
theory VppTypes
  imports Netip
begin

text \<open>
  Package \<^verbatim>\<open>internal/vpp\<close>, the data types: one VPP ACL entry, the canonical key under which
  the manager counts references to it, and the family of a managed ACL. The result of the
  theory is that the key identifies the entry.
\<close>

section \<open>Types (types.go, backend.go)\<close>

record ACLRule =
  IsIPv6 :: bool
  Permit :: bool
  acl_Src :: prefix
  acl_Dst :: prefix
  acl_Proto :: u8
  SrcPortOrICMPTypeFirst :: u16
  SrcPortOrICMPTypeLast :: u16
  DstPortOrICMPCodeFirst :: u16
  DstPortOrICMPCodeLast :: u16
  TCPFlagsMask :: u8
  TCPFlagsValue :: u8

datatype vpp_family = IPv4 | IPv6

definition vpp_family_String :: "vpp_family \<Rightarrow> string" where
  "vpp_family_String f = (if f = IPv6 then ''ipv6'' else ''ipv4'')"

datatype direction = Ingress | Egress

definition Key :: "ACLRule \<Rightarrow> string" where
  "Key r =
     (let fam = (if IsIPv6 r then ''ip6'' else ''ip4'');
          act = (if Permit r then ''permit'' else ''deny'')
      in fam @ ''|'' @ act @ ''|src='' @ pfx_String (acl_Src r) @ ''|dst='' @ pfx_String (acl_Dst r)
         @ ''|proto='' @ dec (unat (acl_Proto r))
         @ ''|sp='' @ dec (unat (SrcPortOrICMPTypeFirst r)) @ ''-'' @ dec (unat (SrcPortOrICMPTypeLast r))
         @ ''|dp='' @ dec (unat (DstPortOrICMPCodeFirst r)) @ ''-'' @ dec (unat (DstPortOrICMPCodeLast r))
         @ ''|tcp='' @ hex02 (TCPFlagsValue r) @ ''/'' @ hex02 (TCPFlagsMask r))"

definition acl_Family :: "ACLRule \<Rightarrow> string" where
  "acl_Family r = (if IsIPv6 r then ''ipv6'' else ''ipv4'')"

text \<open>An entry whose prefixes are valid prefixes, as the translation produces it.\<close>

definition acl_wf :: "ACLRule \<Rightarrow> bool" where
  "acl_wf r \<longleftrightarrow> prefix_wf (acl_Src r) \<and> pfx_IsValid (acl_Src r) \<and>
     prefix_wf (acl_Dst r) \<and> pfx_IsValid (acl_Dst r)"

section \<open>The key identifies the entry\<close>

lemma bar_notin_addr_String: "CHR ''|'' \<notin> set (addr_String a)"
proof (cases a)
  case (Addr4 x)
  then show ?thesis using set_string4 [of x] by auto
next
  case (Addr6 x)
  then show ?thesis using set_string4 [of "ucast x"] set_string6 [of x] by (auto simp: hexchars_def)
qed simp

lemma bar_notin_pfx_String: "CHR ''|'' \<notin> set (pfx_String p)"
  using bar_notin_addr_String [of "pfx_Addr p"] dec_chars [of "CHR ''|''"]
  by (auto simp: pfx_String_def itoa_def)

lemma sep_notin_num [simp]:
  "CHR ''|'' \<notin> set (dec n)" "CHR ''-'' \<notin> set (dec n)" "CHR ''/'' \<notin> set (hex02 v)"
  using dec_chars [of _ n] hex02_chars [of _ v] not_hexchars by blast+

text \<open>Reading the fields of a key back, one separator after the other.\<close>

lemma Key_fields:
  "Key r = Key s \<longleftrightarrow>
     IsIPv6 r = IsIPv6 s \<and> Permit r = Permit s \<and>
     pfx_String (acl_Src r) = pfx_String (acl_Src s) \<and> pfx_String (acl_Dst r) = pfx_String (acl_Dst s) \<and>
     acl_Proto r = acl_Proto s \<and>
     SrcPortOrICMPTypeFirst r = SrcPortOrICMPTypeFirst s \<and>
     SrcPortOrICMPTypeLast r = SrcPortOrICMPTypeLast s \<and>
     DstPortOrICMPCodeFirst r = DstPortOrICMPCodeFirst s \<and>
     DstPortOrICMPCodeLast r = DstPortOrICMPCodeLast s \<and>
     TCPFlagsValue r = TCPFlagsValue s \<and> TCPFlagsMask r = TCPFlagsMask s"
  by (simp add: Key_def Let_def sep_inject bar_notin_pfx_String word_unat_eq_iff)

lemma Key_inject_wf: "acl_wf r \<Longrightarrow> acl_wf s \<Longrightarrow> Key r = Key s \<longleftrightarrow> r = s"
  by (auto simp: Key_fields acl_wf_def pfx_String_inject)

end
