(* ===== verification/Translate.thy ===== *)
theory Translate
  imports FlowSpec VppTypes "HOL-Library.Product_Lexorder"
begin

text \<open>
  Package \<^verbatim>\<open>internal/translate\<close>: the pure translation of a FlowSpec rule into one VPP ACL
  entry, or into a typed reason why the rule is ignored. Operator lists are reduced through
  sets of intervals over \<^verbatim>\<open>uint64\<close>; the arithmetic is that of machine words.
\<close>

unbundle bit_operations_syntax

section \<open>Errors (unsupported.go)\<close>

datatype Reason =
    ReasonUnsupportedComponent | ReasonUnsupportedExpression
  | ReasonUnsupportedAction | ReasonUnmappablePrefix

fun reason_String :: "Reason \<Rightarrow> string" where
  "reason_String ReasonUnsupportedComponent = ''unsupported_component''"
| "reason_String ReasonUnsupportedExpression = ''unsupported_expression''"
| "reason_String ReasonUnsupportedAction = ''unsupported_action''"
| "reason_String ReasonUnmappablePrefix = ''unmappable_prefix''"

record Unsupported =
  u_Reason :: Reason
  u_Detail :: fmt_msg

type_synonym terr = "Unsupported goerr"

definition unsupported :: "Reason \<Rightarrow> fmt_msg \<Rightarrow> terr" where
  "unsupported r detail = ErrValue \<lparr>u_Reason = r, u_Detail = detail\<rparr>"

definition AsUnsupported :: "terr \<Rightarrow> Unsupported option" where
  "AsUnsupported e = errors_As e"

section \<open>Interval sets (port.go)\<close>

text \<open>An interval is its inclusive bounds; the order on pairs is that of the sort in the code.\<close>

type_synonym interval = "u64 \<times> u64"

definition opToSet :: "NumericOp \<Rightarrow> u64 \<Rightarrow> terr + interval list" where
  "opToSet opr mx =
     (let v = nop_Value opr; lt = nop_LT opr; gt = nop_GT opr; eq = nop_EQ opr
      in if \<not> lt \<and> \<not> gt \<and> \<not> eq then Inr [(0, mx)]
         else if lt \<and> gt \<and> eq then Inr []
         else if v > mx then
           Inl (unsupported ReasonUnsupportedExpression
             (Sprintf ''numeric operand %d out of range 0-%d'' [FInt (uint v), FInt (uint mx)]))
         else if eq \<and> \<not> lt \<and> \<not> gt then Inr [(v, v)]
         else if gt \<and> \<not> eq \<and> \<not> lt then (if v \<ge> mx then Inr [] else Inr [(v + 1, mx)])
         else if lt \<and> \<not> eq \<and> \<not> gt then (if v = 0 then Inr [] else Inr [(0, v - 1)])
         else if gt \<and> eq \<and> \<not> lt then Inr [(v, mx)]
         else if lt \<and> eq \<and> \<not> gt then Inr [(0, v)]
         else if lt \<and> gt \<and> \<not> eq then
           Inr ((if v > 0 then [(0, v - 1)] else []) @ (if v < mx then [(v + 1, mx)] else []))
         else Inl (unsupported ReasonUnsupportedExpression (msg ''unknown numeric op'')))"

text \<open>The loop of \<^verbatim>\<open>normalize\<close> over the sorted intervals, with the last interval of the output.\<close>

fun merge_intervals :: "interval \<Rightarrow> interval list \<Rightarrow> interval list" where
  "merge_intervals (l, h) [] = [(l, h)]"
| "merge_intervals (l, h) ((lo, hi) # ivs) =
     (if lo \<le> h \<or> lo = h + 1 then merge_intervals (l, if hi > h then hi else h) ivs
      else (l, h) # merge_intervals (lo, hi) ivs)"

definition normalize :: "interval list \<Rightarrow> interval list" where
  "normalize s = (case sort s of [] \<Rightarrow> [] | c # cs \<Rightarrow> merge_intervals c cs)"

definition intersectSets :: "interval list \<Rightarrow> interval list \<Rightarrow> interval list" where
  "intersectSets a b =
     normalize (concat (map (\<lambda>x. concat (map (\<lambda>y.
       let lo = (if fst y > fst x then fst y else fst x);
           hi = (if snd y < snd x then snd y else snd x)
       in if lo \<le> hi then [(lo, hi)] else []) b)) a))"

definition unionSets :: "interval list \<Rightarrow> interval list \<Rightarrow> interval list" where
  "unionSets a b = normalize (a @ b)"

text \<open>State of the loop of \<^verbatim>\<open>reduceRange\<close>: the closed terms, the open term, whether it is open.\<close>

record range_state =
  rs_result :: "interval list"
  rs_cur :: "interval list"
  rs_started :: bool

definition closeTerm :: "range_state \<Rightarrow> range_state" where
  "closeTerm s = \<lparr>rs_result = (if rs_started s then unionSets (rs_result s) (rs_cur s) else rs_result s),
                  rs_cur = [], rs_started = False\<rparr>"

fun range_loop :: "u64 \<Rightarrow> string \<Rightarrow> nat \<Rightarrow> range_state \<Rightarrow> NumericOp list \<Rightarrow> terr + range_state" where
  "range_loop mx what i s [] = Inr s"
| "range_loop mx what i s (opr # ops) =
     (case opToSet opr mx of
        Inl e \<Rightarrow> Inl (Wrapf (Sprintf ''%s: %w'' [FStr what]) e)
      | Inr iset \<Rightarrow>
          let s1 = (if i > 0 \<and> \<not> nop_And opr then closeTerm s else s);
              s2 = (if \<not> rs_started s1 then s1\<lparr>rs_cur := iset, rs_started := True\<rparr>
                    else s1\<lparr>rs_cur := intersectSets (rs_cur s1) iset\<rparr>)
          in range_loop mx what (i + 1) s2 ops)"

definition reduceRange :: "NumericOp list \<Rightarrow> u64 \<Rightarrow> string \<Rightarrow> terr + (u64 \<times> u64)" where
  "reduceRange ops mx what =
     (if ops = [] then Inr (0, mx)
      else ebind (range_loop mx what 0 \<lparr>rs_result = [], rs_cur = [], rs_started = False\<rparr> ops) (\<lambda>s.
        case normalize (rs_result (closeTerm s)) of
          [] \<Rightarrow> Inl (unsupported ReasonUnsupportedExpression
                  (Sprintf ''%s: expression matches no value'' [FStr what]))
        | [iv] \<Rightarrow> Inr iv
        | _ \<Rightarrow> Inl (unsupported ReasonUnsupportedExpression
                  (Sprintf ''%s: expression is not a single contiguous range'' [FStr what]))))"

section \<open>Protocol and ICMP (proto.go, icmp.go)\<close>

definition protoICMP :: u8 where "protoICMP = 1"
definition protoTCP :: u8 where "protoTCP = 6"
definition protoUDP :: u8 where "protoUDP = 17"
definition protoICMPv6 :: u8 where "protoICMPv6 = 58"

lemmas proto_defs = protoICMP_def protoTCP_def protoUDP_def protoICMPv6_def

text \<open>The results of both reductions are the value and whether the component is present.\<close>

definition reduceProto :: "NumericOp list \<Rightarrow> terr + (u8 \<times> bool)" where
  "reduceProto ops =
     (case ops of
        [] \<Rightarrow> Inr (0, False)
      | [opr] \<Rightarrow>
          if \<not> nop_EQ opr \<or> nop_LT opr \<or> nop_GT opr then
            Inl (unsupported ReasonUnsupportedExpression
              (msg ''protocol: only equality (proto = N) is supported''))
          else if nop_Value opr > 255 then
            Inl (unsupported ReasonUnsupportedExpression
              (Sprintf ''protocol: value %d out of range'' [FInt (uint (nop_Value opr))]))
          else Inr (ucast (nop_Value opr), True)
      | _ \<Rightarrow> Inl (unsupported ReasonUnsupportedExpression
              (msg ''protocol: only a single exact match is supported'')))"

definition reduceExact :: "NumericOp list \<Rightarrow> string \<Rightarrow> terr + (u8 \<times> bool)" where
  "reduceExact ops what =
     (case ops of
        [] \<Rightarrow> Inr (0, False)
      | [opr] \<Rightarrow>
          if \<not> nop_EQ opr \<or> nop_LT opr \<or> nop_GT opr then
            Inl (unsupported ReasonUnsupportedExpression (msg (what @ '': only equality is supported'')))
          else if nop_Value opr > 255 then
            Inl (unsupported ReasonUnsupportedExpression
              (Sprintf ''%s: value %d out of range'' [FStr what, FInt (uint (nop_Value opr))]))
          else Inr (ucast (nop_Value opr), True)
      | _ \<Rightarrow> Inl (unsupported ReasonUnsupportedExpression
              (msg (what @ '': only a single exact match is supported''))))"

section \<open>TCP flags (tcpflags.go)\<close>

fun tcp_loop :: "nat \<Rightarrow> u8 \<Rightarrow> u8 \<Rightarrow> BitmaskOp list \<Rightarrow> terr + (u8 \<times> u8)" where
  "tcp_loop i setBits clearBits [] = Inr (setBits, clearBits)"
| "tcp_loop i setBits clearBits (opr # ops) =
     (if i > 0 \<and> \<not> bop_And opr then
        Inl (unsupported ReasonUnsupportedExpression (msg ''tcp-flags: OR alternation is not supported''))
      else if bop_Value opr > 0xff then
        Inl (unsupported ReasonUnsupportedExpression
          (msg ''tcp-flags: flag bits outside the TCP header flags byte''))
      else
        let bits = (ucast (bop_Value opr) :: u8); oneBit = (bits AND (bits - 1) = 0)
        in if bits = 0 then
             Inl (unsupported ReasonUnsupportedExpression (msg ''tcp-flags: empty flag set''))
           else if bop_Match opr \<and> bop_Not opr \<and> \<not> oneBit then
             Inl (unsupported ReasonUnsupportedExpression
               (msg ''tcp-flags: multi-bit not-all-set is not supported''))
           else if \<not> bop_Match opr \<and> \<not> bop_Not opr \<and> \<not> oneBit then
             Inl (unsupported ReasonUnsupportedExpression
               (msg ''tcp-flags: multi-bit match-any is not supported''))
           else
             let setBits' = (if bop_Not opr then setBits else setBits OR bits);
                 clearBits' = (if bop_Not opr then clearBits OR bits else clearBits)
             in if setBits' AND clearBits' \<noteq> 0 then
                  Inl (unsupported ReasonUnsupportedExpression
                    (msg ''tcp-flags: expression matches no value''))
                else tcp_loop (i + 1) setBits' clearBits' ops)"

text \<open>The result is the value, the mask and whether the component is present.\<close>

definition reduceTCPFlags :: "BitmaskOp list \<Rightarrow> terr + (u8 \<times> u8 \<times> bool)" where
  "reduceTCPFlags ops =
     (if ops = [] then Inr (0, 0, False)
      else ebind (tcp_loop 0 0 0 ops)
        (\<lambda>(setBits, clearBits). Inr (setBits, setBits OR clearBits, True)))"

section \<open>The translation (translate.go)\<close>

definition portMax :: u64 where "portMax = 65535"

definition icmpRange :: "u8 \<Rightarrow> bool \<Rightarrow> u16 \<times> u16" where
  "icmpRange v present = (if present then (ucast v, ucast v) else (0, 255))"

definition checkFamily :: "fs_family \<Rightarrow> bool \<Rightarrow> prefix \<Rightarrow> terr + unit" where
  "checkFamily f present p =
     (if \<not> present then Inr ()
      else if f = FamilyIPv6 \<and> \<not> Is6 (pfx_Addr p) then
        Inl (unsupported ReasonUnmappablePrefix (msg ''ipv4 prefix in ipv6 rule''))
      else if f = FamilyIPv4 \<and> \<not> Is4 (pfx_Addr p) then
        Inl (unsupported ReasonUnmappablePrefix (msg ''ipv6 prefix in ipv4 rule''))
      else Inr ())"

text \<open>Step 2 of \<^verbatim>\<open>Translate\<close>: components that are rejected by their mere presence.\<close>

definition checkComponents :: "fs_match \<Rightarrow> terr + unit" where
  "checkComponents m =
     (let rej = (\<lambda>s. Inl (unsupported ReasonUnsupportedComponent (msg s)))
      in if HasGenericPort m then rej ''generic port''
         else if HasPacketLen m then rej ''packet length''
         else if HasDSCP m then rej ''dscp''
         else if HasFlowLabel m then rej ''flow label''
         else if HasLabel m then rej ''label''
         else if HasUnknownComponent m then rej ''unknown match component''
         else if Fragment m \<noteq> [] then rej ''fragment''
         else Inr ())"

text \<open>Step 3: prefixes. The result is the source and the destination prefix.\<close>

definition checkPrefixes :: "fs_family \<Rightarrow> fs_match \<Rightarrow> terr + (prefix \<times> prefix)" where
  "checkPrefixes f m =
     (if HasDst m \<and> DstOffset m \<noteq> 0 then
        Inl (unsupported ReasonUnmappablePrefix
          (Sprintf ''dst prefix offset %d != 0'' [FInt (uint (DstOffset m))]))
      else if HasSrc m \<and> SrcOffset m \<noteq> 0 then
        Inl (unsupported ReasonUnmappablePrefix
          (Sprintf ''src prefix offset %d != 0'' [FInt (uint (SrcOffset m))]))
      else
        let dst = DstOrDefault m f; src = SrcOrDefault m f
        in ebind (checkFamily f (HasDst m) dst) (\<lambda>_.
           ebind (checkFamily f (HasSrc m) src) (\<lambda>_. Inr (src, dst))))"

text \<open>
  A component that needs a protocol (TCP flags, ICMP type and code): the protocol is inferred
  when none is given, and a different protocol is rejected. The state is the protocol and
  whether it is present.
\<close>

definition requireProto :: "bool \<Rightarrow> u8 \<Rightarrow> fmt_msg \<Rightarrow> u8 \<times> bool \<Rightarrow> terr + (u8 \<times> bool)" where
  "requireProto needed want m pr =
     (if \<not> needed then Inr pr
      else if \<not> snd pr then Inr (want, True)
      else if fst pr \<noteq> want then Inl (unsupported ReasonUnsupportedExpression m)
      else Inr pr)"

definition icmpProtoOf :: "fs_family \<Rightarrow> u8" where
  "icmpProtoOf f = (if f = FamilyIPv6 then protoICMPv6 else protoICMP)"

definition checkPorts :: "fs_match \<Rightarrow> u8 \<times> bool \<Rightarrow> terr + unit" where
  "checkPorts m pr =
     (if SrcPort m \<noteq> [] \<or> DstPort m \<noteq> [] then
        if \<not> snd pr then
          Inl (unsupported ReasonUnsupportedExpression
            (msg ''source/destination port present without tcp/udp protocol''))
        else if fst pr \<noteq> protoTCP \<and> fst pr \<noteq> protoUDP then
          Inl (unsupported ReasonUnsupportedExpression
            (Sprintf ''source/destination port present but protocol is %d, not tcp/udp''
              [FInt (uint (fst pr))]))
        else Inr ()
      else Inr ())"

text \<open>The four range fields: ICMP type and code, or source and destination port.\<close>

definition l4Ranges ::
  "fs_match \<Rightarrow> bool \<Rightarrow> u8 \<times> bool \<Rightarrow> u8 \<times> bool \<Rightarrow> terr + ((u16 \<times> u16) \<times> (u16 \<times> u16))" where
  "l4Ranges m icmpPresent ty co =
     (if icmpPresent then Inr (icmpRange (fst ty) (snd ty), icmpRange (fst co) (snd co))
      else ebind (reduceRange (SrcPort m) portMax ''source port'') (\<lambda>(sLo, sHi).
           ebind (reduceRange (DstPort m) portMax ''destination port'') (\<lambda>(dLo, dHi).
           Inr ((ucast sLo, ucast sHi), (ucast dLo, ucast dHi)))))"

definition Translate :: "fs_rule \<Rightarrow> terr + ACLRule" where
  "Translate r =
     (let m = r_Match r; f = r_Family r
      in if a_Kind (r_Action r) \<noteq> ActionDrop then
           Inl (unsupported ReasonUnsupportedAction
             (Sprintf ''action %q is not a pure drop'' [FMsg (a_Desc (r_Action r))]))
         else
           ebind (checkComponents m) (\<lambda>_.
           ebind (checkPrefixes f m) (\<lambda>(src, dst).
           ebind (reduceProto (m_Proto m)) (\<lambda>pr0.
           ebind (reduceTCPFlags (TCPFlags m)) (\<lambda>(tcpVal, tcpMask, tcpPresent).
           ebind (requireProto tcpPresent protoTCP
             (Sprintf ''tcp-flags present but protocol is %d, not tcp'' [FInt (uint (fst pr0))]) pr0) (\<lambda>pr1.
           ebind (reduceExact (ICMPType m) ''icmp type'') (\<lambda>ty.
           ebind (reduceExact (ICMPCode m) ''icmp code'') (\<lambda>co.
           let icmpPresent = (snd ty \<or> snd co)
           in ebind (requireProto icmpPresent (icmpProtoOf f)
                (Sprintf ''icmp type/code present but protocol is %d, not %d''
                  [FInt (uint (fst pr1)), FInt (uint (icmpProtoOf f))]) pr1) (\<lambda>pr2.
              ebind (checkPorts m pr2) (\<lambda>_.
              ebind (l4Ranges m icmpPresent ty co) (\<lambda>((sFirst, sLast), (dFirst, dLast)).
              Inr \<lparr>IsIPv6 = (f = FamilyIPv6), Permit = False, acl_Src = src, acl_Dst = dst,
                   acl_Proto = (if snd pr2 then fst pr2 else 0),
                   SrcPortOrICMPTypeFirst = sFirst, SrcPortOrICMPTypeLast = sLast,
                   DstPortOrICMPCodeFirst = dFirst, DstPortOrICMPCodeLast = dLast,
                   TCPFlagsMask = (if tcpPresent then tcpMask else 0),
                   TCPFlagsValue = (if tcpPresent then tcpVal else 0)\<rparr>)))))))))))"

end
