(* ===== verification/TranslateRange.thy ===== *)
theory TranslateRange
  imports Translate
begin

text \<open>
  Correctness of \<^verbatim>\<open>port.go\<close>: the interval lists denote sets of values, the operations on them
  are intersection and union, and \<^verbatim>\<open>reduceRange\<close> accepts an operator list exactly when the
  values it matches form one non-empty range, and then returns that range.
\<close>

section \<open>Semantics of a numeric operator list (RFC 8955, section 4.2.1.1)\<close>

definition numeric_op_holds :: "NumericOp \<Rightarrow> u64 \<Rightarrow> bool" where
  "numeric_op_holds opr x \<longleftrightarrow>
     (if \<not> nop_LT opr \<and> \<not> nop_GT opr \<and> \<not> nop_EQ opr then True
      else if nop_LT opr \<and> nop_GT opr \<and> nop_EQ opr then False
      else (nop_LT opr \<and> x < nop_Value opr) \<or> (nop_GT opr \<and> nop_Value opr < x) \<or>
           (nop_EQ opr \<and> x = nop_Value opr))"

text \<open>
  Items form an OR of ANDs: an item without the AND bit starts a new term, and the AND bit of
  the first item is ignored. The argument \<open>cur\<close> is the value of the term that is open.
\<close>

fun numeric_terms_hold :: "bool \<Rightarrow> NumericOp list \<Rightarrow> u64 \<Rightarrow> bool" where
  "numeric_terms_hold cur [] x = cur"
| "numeric_terms_hold cur (opr # ops) x =
     (if nop_And opr then numeric_terms_hold (cur \<and> numeric_op_holds opr x) ops x
      else cur \<or> numeric_terms_hold (numeric_op_holds opr x) ops x)"

fun numeric_ops_hold :: "NumericOp list \<Rightarrow> u64 \<Rightarrow> bool" where
  "numeric_ops_hold [] x = True"
| "numeric_ops_hold (opr # ops) x = numeric_terms_hold (numeric_op_holds opr x) ops x"

text \<open>The operands the code accepts for a field whose largest value is \<open>mx\<close>.\<close>

definition operand_ok :: "u64 \<Rightarrow> NumericOp \<Rightarrow> bool" where
  "operand_ok mx opr \<longleftrightarrow>
     nop_Value opr \<le> mx \<or> (\<not> nop_LT opr \<and> \<not> nop_GT opr \<and> \<not> nop_EQ opr) \<or>
     (nop_LT opr \<and> nop_GT opr \<and> nop_EQ opr)"

section \<open>Denotation of interval lists\<close>

definition ivs_sem :: "interval list \<Rightarrow> u64 set" where
  "ivs_sem ivs = (\<Union>iv\<in>set ivs. {fst iv..snd iv})"

definition ivs_ok :: "interval list \<Rightarrow> bool" where
  "ivs_ok ivs \<longleftrightarrow> (\<forall>iv\<in>set ivs. fst iv \<le> snd iv)"

lemma ivs_sem_simps [simp]:
  "ivs_sem [] = {}" "ivs_sem (iv # ivs) = {fst iv..snd iv} \<union> ivs_sem ivs"
  "ivs_sem (a @ b) = ivs_sem a \<union> ivs_sem b"
  by (auto simp: ivs_sem_def)

lemma ivs_ok_simps [simp]:
  "ivs_ok []" "ivs_ok (iv # ivs) \<longleftrightarrow> fst iv \<le> snd iv \<and> ivs_ok ivs"
  "ivs_ok (a @ b) \<longleftrightarrow> ivs_ok a \<and> ivs_ok b"
  by (auto simp: ivs_ok_def)

lemma ivs_sem_sort [simp]: "ivs_sem (sort ivs) = ivs_sem ivs"
  by (simp add: ivs_sem_def)

lemma ivs_ok_sort [simp]: "ivs_ok (sort ivs) = ivs_ok ivs"
  by (simp add: ivs_ok_def)

text \<open>Successor and predecessor on words, where they do not wrap.\<close>

lemma word_succ_le: "(v :: u64) < m \<Longrightarrow> v + 1 \<le> x \<longleftrightarrow> v < x"
  by uint_arith

lemma word_le_pred: "(v :: u64) \<noteq> 0 \<Longrightarrow> x \<le> v - 1 \<longleftrightarrow> x < v"
  by uint_arith

lemma word_pos: "0 < (v :: u64) \<longleftrightarrow> v \<noteq> 0"
  by (rule word_neq_0_conv [symmetric])

lemma opToSet_sem:
  assumes "opToSet opr mx = Inr s"
  shows "ivs_ok s \<and> ivs_sem s = {x. x \<le> mx \<and> numeric_op_holds opr x}"
  using assms
  by (cases "nop_LT opr"; cases "nop_GT opr"; cases "nop_EQ opr";
    auto simp: opToSet_def Let_def numeric_op_holds_def word_succ_le word_le_pred word_pos
      split: if_splits; uint_arith)

lemma opToSet_error: "(\<exists>e. opToSet opr mx = Inl e) \<longleftrightarrow> \<not> operand_ok mx opr"
  by (auto simp: opToSet_def Let_def operand_ok_def not_le split: if_splits)

section \<open>Merging\<close>

fun gapped :: "interval list \<Rightarrow> bool" where
  "gapped (a # b # ivs) \<longleftrightarrow> snd a < fst b \<and> fst b \<noteq> snd a + 1 \<and> gapped (b # ivs)"
| "gapped _ \<longleftrightarrow> True"

lemma merge_union:
  "(l :: u64) \<le> lo \<Longrightarrow> l \<le> h \<Longrightarrow> lo \<le> hi \<Longrightarrow> lo \<le> h \<or> lo = h + 1 \<Longrightarrow>
   {l..if h < hi then hi else h} = {l..h} \<union> {lo..hi}"
  by (auto simp: not_le not_less) (metis inc_le leD le_less_linear order.strict_trans1)+

lemma merge_intervals_not_Nil: "merge_intervals iv ivs \<noteq> []"
  by (induction iv ivs rule: merge_intervals.induct) auto

lemma merge_intervals_sem:
  "l \<le> h \<Longrightarrow> ivs_ok ivs \<Longrightarrow> \<forall>iv\<in>set ivs. l \<le> fst iv \<Longrightarrow> sorted ivs \<Longrightarrow>
   ivs_sem (merge_intervals (l, h) ivs) = {l..h} \<union> ivs_sem ivs \<and>
   ivs_ok (merge_intervals (l, h) ivs) \<and> gapped (merge_intervals (l, h) ivs) \<and>
   fst (hd (merge_intervals (l, h) ivs)) = l"
proof (induction ivs arbitrary: l h)
  case Nil
  then show ?case by simp
next
  case (Cons iv ivs)
  obtain lo hi where iv: "iv = (lo, hi)" by (cases iv)
  show ?case
  proof (cases "lo \<le> h \<or> lo = h + 1")
    case True
    let ?h = "if h < hi then hi else h"
    from Cons.prems have "l \<le> ?h" by auto
    with Cons.IH [of l ?h] Cons.prems
    have "ivs_sem (merge_intervals (l, ?h) ivs) = {l..?h} \<union> ivs_sem ivs \<and>
       ivs_ok (merge_intervals (l, ?h) ivs) \<and> gapped (merge_intervals (l, ?h) ivs) \<and>
       fst (hd (merge_intervals (l, ?h) ivs)) = l"
      by simp
    moreover have "{l..?h} = {l..h} \<union> {lo..hi}"
      using Cons.prems True iv by (intro merge_union) auto
    ultimately show ?thesis using True iv by (simp add: Un_assoc)
  next
    case False
    have "\<forall>iv\<in>set ivs. lo \<le> fst iv"
      using Cons.prems iv by (fastforce simp: less_eq_prod_def)
    with Cons.IH [of lo hi] Cons.prems iv
    have IH: "ivs_sem (merge_intervals (lo, hi) ivs) = {lo..hi} \<union> ivs_sem ivs \<and>
       ivs_ok (merge_intervals (lo, hi) ivs) \<and> gapped (merge_intervals (lo, hi) ivs) \<and>
       fst (hd (merge_intervals (lo, hi) ivs)) = lo"
      by simp
    moreover have "merge_intervals (lo, hi) ivs \<noteq> []" by (rule merge_intervals_not_Nil)
    ultimately show ?thesis using False iv Cons.prems
      by (cases "merge_intervals (lo, hi) ivs") auto
  qed
qed

lemma normalize_sem:
  assumes "ivs_ok s"
  shows "ivs_sem (normalize s) = ivs_sem s" and "ivs_ok (normalize s)" and "gapped (normalize s)"
proof -
  have "ivs_sem (normalize s) = ivs_sem s \<and> ivs_ok (normalize s) \<and> gapped (normalize s)"
  proof (cases "sort s")
    case Nil
    then have "s = []" by (metis set_empty set_sort)
    with Nil show ?thesis by (simp add: normalize_def)
  next
    case (Cons c cs)
    have "ivs_ok (c # cs)" "sorted (c # cs)" "ivs_sem (c # cs) = ivs_sem s"
      using assms by (simp_all flip: Cons)
    then have "ivs_sem (merge_intervals (fst c, snd c) cs) = {fst c..snd c} \<union> ivs_sem cs \<and>
       ivs_ok (merge_intervals (fst c, snd c) cs) \<and> gapped (merge_intervals (fst c, snd c) cs) \<and>
       fst (hd (merge_intervals (fst c, snd c) cs)) = fst c"
      by (intro merge_intervals_sem) (auto simp: less_eq_prod_def)
    then show ?thesis using Cons \<open>ivs_sem (c # cs) = ivs_sem s\<close> by (simp add: normalize_def)
  qed
  then show "ivs_sem (normalize s) = ivs_sem s" "ivs_ok (normalize s)" "gapped (normalize s)"
    by auto
qed

lemma gapped_lower:
  "gapped (b # ivs) \<Longrightarrow> ivs_ok (b # ivs) \<Longrightarrow> iv \<in> set (b # ivs) \<Longrightarrow> fst b \<le> fst iv"
proof (induction ivs arbitrary: b)
  case Nil
  then show ?case by simp
next
  case (Cons c ivs)
  show ?case
  proof (cases "iv = b")
    case False
    with Cons have "fst c \<le> fst iv" by simp
    moreover from Cons.prems have "fst b \<le> snd b" "snd b < fst c" by simp_all
    ultimately show ?thesis by (meson order.trans less_imp_le)
  qed simp
qed

lemma gapped_not_range:
  assumes "gapped (a # b # ivs)" and "ivs_ok (a # b # ivs)"
  shows "ivs_sem (a # b # ivs) \<noteq> {lo..hi}"
proof
  assume eq: "ivs_sem (a # b # ivs) = {lo..hi}"
  let ?y = "snd a + 1"
  from assms have lt: "snd a < fst b" "?y \<noteq> fst b" by auto
  then have y: "snd a < ?y" "?y < fst b"
    using word_succ_le [of "snd a" "fst b"] by (auto simp: order.strict_iff_order)
  have "snd a \<in> ivs_sem (a # b # ivs)" "fst b \<in> ivs_sem (a # b # ivs)" using assms by auto
  with eq have "lo \<le> snd a" "fst b \<le> hi" by auto
  with y have "?y \<in> ivs_sem (a # b # ivs)" unfolding eq by auto
  then obtain iv where iv: "iv \<in> set (a # b # ivs)" "fst iv \<le> ?y" "?y \<le> snd iv"
    unfolding ivs_sem_def by (elim UN_E) simp
  with y have "iv \<in> set (b # ivs)" by auto
  with gapped_lower [of b ivs iv] assms have "fst b \<le> fst iv" by simp
  with iv y show False by auto
qed

text \<open>The normal form is one interval exactly when the set is one non-empty range.\<close>

lemma normalize_single:
  assumes "ivs_ok s"
  shows "normalize s = [(lo, hi)] \<longleftrightarrow> lo \<le> hi \<and> ivs_sem s = {lo..hi}"
proof
  assume "normalize s = [(lo, hi)]"
  with normalize_sem [OF assms] show "lo \<le> hi \<and> ivs_sem s = {lo..hi}" by simp
next
  assume r: "lo \<le> hi \<and> ivs_sem s = {lo..hi}"
  with normalize_sem [OF assms] have n: "ivs_sem (normalize s) = {lo..hi}" by simp
  show "normalize s = [(lo, hi)]"
  proof (cases "normalize s")
    case Nil
    with n r show ?thesis by simp
  next
    case (Cons a rest)
    have "rest = []"
    proof (cases rest)
      case (Cons b ivs)
      with \<open>normalize s = a # rest\<close> normalize_sem [OF assms] gapped_not_range [of a b ivs] n
      show ?thesis by metis
    qed
    with Cons n r normalize_sem(2) [OF assms] show ?thesis by (cases a) (auto simp: Icc_eq_Icc)
  qed
qed

lemma normalize_empty: "ivs_ok s \<Longrightarrow> normalize s = [] \<longleftrightarrow> ivs_sem s = {}"
  using normalize_sem(1,2) [of s] by (cases "normalize s") auto

section \<open>Interface of value sets\<close>

text \<open>
  Evaluation of an OR of ANDs over any representation of sets of values: each item comes with
  its AND bit, a term is intersected while items carry the bit, and closed terms are united.
\<close>

fun fold_terms :: "('s \<Rightarrow> 's \<Rightarrow> 's) \<Rightarrow> ('s \<Rightarrow> 's \<Rightarrow> 's) \<Rightarrow> 's \<Rightarrow> 's \<Rightarrow> (bool \<times> 's) list \<Rightarrow> 's" where
  "fold_terms andS orS res cur [] = orS res cur"
| "fold_terms andS orS res cur ((b, s) # items) =
     (if b then fold_terms andS orS res (andS cur s) items
      else fold_terms andS orS (orS res cur) s items)"

fun terms_sem :: "u64 set \<Rightarrow> (bool \<times> u64 set) list \<Rightarrow> u64 set" where
  "terms_sem C [] = C"
| "terms_sem C ((b, S) # items) = (if b then terms_sem (C \<inter> S) items else C \<union> terms_sem S items)"

locale value_sets =
  fixes sem :: "'s \<Rightarrow> u64 set"
    and ok :: "'s \<Rightarrow> bool"
    and andS :: "'s \<Rightarrow> 's \<Rightarrow> 's"
    and orS :: "'s \<Rightarrow> 's \<Rightarrow> 's"
  assumes inter_sem: "ok a \<Longrightarrow> ok b \<Longrightarrow> sem (andS a b) = sem a \<inter> sem b"
    and inter_ok: "ok a \<Longrightarrow> ok b \<Longrightarrow> ok (andS a b)"
    and union_sem: "ok a \<Longrightarrow> ok b \<Longrightarrow> sem (orS a b) = sem a \<union> sem b"
    and union_ok: "ok a \<Longrightarrow> ok b \<Longrightarrow> ok (orS a b)"
begin

lemma fold_terms_sem:
  "ok res \<Longrightarrow> ok cur \<Longrightarrow> \<forall>it\<in>set items. ok (snd it) \<Longrightarrow>
   ok (fold_terms andS orS res cur items) \<and>
   sem (fold_terms andS orS res cur items) =
     sem res \<union> terms_sem (sem cur) (map (map_prod id sem) items)"
proof (induction items arbitrary: res cur)
  case Nil
  then show ?case by (simp add: union_sem union_ok)
next
  case (Cons it items)
  then show ?case
    by (cases it) (auto simp: inter_sem inter_ok union_sem union_ok)
qed

end

lemma unionSets_sem: "ivs_ok a \<Longrightarrow> ivs_ok b \<Longrightarrow>
   ivs_ok (unionSets a b) \<and> ivs_sem (unionSets a b) = ivs_sem a \<union> ivs_sem b"
  by (simp add: unionSets_def normalize_sem)

lemma mem_ivs_sem: "v \<in> ivs_sem ivs \<longleftrightarrow> (\<exists>iv\<in>set ivs. fst iv \<le> v \<and> v \<le> snd iv)"
  by (auto simp: ivs_sem_def)

lemma clip_mem:
  "(\<exists>iv\<in>set (let lo = (if fst y > fst x then fst y else fst x);
                 hi = (if snd y < snd x then snd y else snd x)
             in if lo \<le> hi then [(lo, hi)] else []). fst iv \<le> v \<and> v \<le> snd iv) \<longleftrightarrow>
   (fst x \<le> v \<and> v \<le> snd x) \<and> fst y \<le> v \<and> v \<le> snd (y :: 'a :: linorder \<times> 'a)"
  unfolding Let_def
  apply (cases "fst x < fst y"; cases "snd y < snd x"; simp only: if_True if_False if_splits)
  subgoal by (cases "fst y \<le> snd y") auto
  subgoal by (cases "fst y \<le> snd x") auto
  subgoal by (cases "fst x \<le> snd y") auto
  subgoal by (cases "fst x \<le> snd x") auto
  done

lemma intersectSets_sem:
  assumes "ivs_ok a" "ivs_ok b"
  shows "ivs_ok (intersectSets a b) \<and> ivs_sem (intersectSets a b) = ivs_sem a \<inter> ivs_sem b"
proof -
  let ?c = "concat (map (\<lambda>x. concat (map (\<lambda>y.
       let lo = (if fst y > fst x then fst y else fst x);
           hi = (if snd y < snd x then snd y else snd x)
       in if lo \<le> hi then [(lo, hi)] else []) b)) a)"
  have "ivs_ok ?c" by (auto simp: ivs_ok_def Let_def split: if_splits)
  moreover have "ivs_sem ?c = ivs_sem a \<inter> ivs_sem b"
  proof (rule set_eqI)
    fix v
    have "v \<in> ivs_sem ?c \<longleftrightarrow> (\<exists>x\<in>set a. \<exists>y\<in>set b. (fst x \<le> v \<and> v \<le> snd x) \<and> fst y \<le> v \<and> v \<le> snd y)"
      unfolding mem_ivs_sem set_concat set_map bex_UN clip_mem bex_simps by simp
    also have "\<dots> \<longleftrightarrow> v \<in> ivs_sem a \<inter> ivs_sem b" by (auto simp: ivs_sem_def)
    finally show "v \<in> ivs_sem ?c \<longleftrightarrow> v \<in> ivs_sem a \<inter> ivs_sem b" .
  qed
  ultimately show ?thesis by (simp add: intersectSets_def normalize_sem)
qed

interpretation ivs: value_sets ivs_sem ivs_ok intersectSets unionSets
  by unfold_locales (simp_all add: unionSets_sem intersectSets_sem)

section \<open>The reduction\<close>

lemma range_loop_fold:
  "0 < i \<Longrightarrow> rs_started s \<Longrightarrow> range_loop mx what i s ops = Inr s' \<Longrightarrow>
   \<exists>sets. list_all2 (\<lambda>opr iset. opToSet opr mx = Inr iset) ops sets \<and>
     rs_result (closeTerm s') =
       fold_terms intersectSets unionSets (rs_result s) (rs_cur s) (zip (map nop_And ops) sets)"
proof (induction ops arbitrary: i s)
  case Nil
  then show ?case by (simp add: closeTerm_def)
next
  case (Cons opr ops)
  from Cons.prems obtain iset where iset: "opToSet opr mx = Inr iset"
    by (auto split: sum.splits)
  define s2 where "s2 = (if nop_And opr then s\<lparr>rs_cur := intersectSets (rs_cur s) iset\<rparr>
      else (closeTerm s)\<lparr>rs_cur := iset, rs_started := True\<rparr>)"
  from Cons.prems iset have "range_loop mx what (i + 1) s2 ops = Inr s'"
    by (auto simp: s2_def Let_def closeTerm_def split: if_splits)
  moreover have "rs_started s2" using Cons.prems by (simp add: s2_def)
  ultimately obtain sets where "list_all2 (\<lambda>opr iset. opToSet opr mx = Inr iset) ops sets"
    "rs_result (closeTerm s') =
       fold_terms intersectSets unionSets (rs_result s2) (rs_cur s2) (zip (map nop_And ops) sets)"
    using Cons.IH [of "i + 1" s2] by auto
  then show ?case using iset Cons.prems
    by (intro exI [of _ "iset # sets"]) (auto simp: s2_def closeTerm_def)
qed

lemma range_loop_error:
  "(\<exists>e. range_loop mx what i s ops = Inl e) \<longleftrightarrow> (\<exists>opr\<in>set ops. \<not> operand_ok mx opr)"
proof (induction ops arbitrary: i s)
  case (Cons opr ops)
  then show ?case
    using opToSet_error [of opr mx] by (cases "opToSet opr mx") (auto simp: Let_def)
qed simp

lemma terms_sem_holds:
  "list_all2 (\<lambda>opr iset. opToSet opr mx = Inr iset) ops sets \<Longrightarrow> x \<le> mx \<Longrightarrow>
   x \<in> terms_sem C (map (map_prod id ivs_sem) (zip (map nop_And ops) sets)) \<longleftrightarrow>
   numeric_terms_hold (x \<in> C) ops x"
proof (induction ops sets arbitrary: C rule: list_all2_induct)
  case (Cons opr ops iset sets)
  from opToSet_sem [OF Cons.hyps(1)] Cons.prems have "x \<in> ivs_sem iset \<longleftrightarrow> numeric_op_holds opr x"
    by simp
  with Cons.IH Cons.prems show ?case by simp
qed simp

lemma terms_sem_bounded:
  "list_all2 (\<lambda>opr iset. opToSet opr mx = Inr iset) ops sets \<Longrightarrow> C \<subseteq> {..mx} \<Longrightarrow>
   terms_sem C (map (map_prod id ivs_sem) (zip (map nop_And ops) sets)) \<subseteq> {..mx}"
proof (induction ops sets arbitrary: C rule: list_all2_induct)
  case (Cons opr ops iset sets)
  from opToSet_sem [OF Cons.hyps(1)] have "ivs_sem iset \<subseteq> {..mx}" by auto
  with Cons.IH [of "C \<inter> ivs_sem iset"] Cons.IH [of "ivs_sem iset"] Cons.prems show ?case by auto
qed simp

lemma list_all2_opToSet_ok:
  "list_all2 (\<lambda>opr iset. opToSet opr mx = Inr iset) ops sets \<Longrightarrow>
   \<forall>it\<in>set (zip (map nop_And ops) sets). ivs_ok (snd it)"
  by (induction ops sets rule: list_all2_induct) (auto dest: opToSet_sem)

text \<open>The set the loop computes is the set of values the operator list matches.\<close>

lemma range_loop_sem:
  assumes "range_loop mx what 0 \<lparr>rs_result = [], rs_cur = [], rs_started = False\<rparr> (opr # ops) = Inr s"
  shows "ivs_ok (rs_result (closeTerm s))"
    and "ivs_sem (rs_result (closeTerm s)) = {x. x \<le> mx \<and> numeric_ops_hold (opr # ops) x}"
proof -
  from assms obtain iset where iset: "opToSet opr mx = Inr iset"
    and loop: "range_loop mx what 1 \<lparr>rs_result = [], rs_cur = iset, rs_started = True\<rparr> ops = Inr s"
    by (auto split: sum.splits)
  from range_loop_fold [OF _ _ loop] obtain sets where
    sets: "list_all2 (\<lambda>opr iset. opToSet opr mx = Inr iset) ops sets"
    and res: "rs_result (closeTerm s) =
      fold_terms intersectSets unionSets [] iset (zip (map nop_And ops) sets)"
    by auto
  have "ivs_ok (rs_result (closeTerm s)) \<and> ivs_sem (rs_result (closeTerm s)) =
      terms_sem (ivs_sem iset) (map (map_prod id ivs_sem) (zip (map nop_And ops) sets))"
    unfolding res using ivs.fold_terms_sem [of "[]" iset "zip (map nop_And ops) sets"]
      opToSet_sem [OF iset] list_all2_opToSet_ok [OF sets] by simp
  moreover have "terms_sem (ivs_sem iset) (map (map_prod id ivs_sem) (zip (map nop_And ops) sets)) =
      {x. x \<le> mx \<and> numeric_ops_hold (opr # ops) x}"
  proof -
    have "ivs_sem iset \<subseteq> {..mx}" using opToSet_sem [OF iset] by auto
    from terms_sem_bounded [OF sets this] terms_sem_holds [OF sets] show ?thesis
      using opToSet_sem [OF iset] by auto
  qed
  ultimately show "ivs_ok (rs_result (closeTerm s))"
    and "ivs_sem (rs_result (closeTerm s)) = {x. x \<le> mx \<and> numeric_ops_hold (opr # ops) x}"
    by simp_all
qed

lemma reduceRange_iff:
  "reduceRange ops mx what = Inr (lo, hi) \<longleftrightarrow>
     (\<forall>opr\<in>set ops. operand_ok mx opr) \<and> lo \<le> hi \<and> {x. x \<le> mx \<and> numeric_ops_hold ops x} = {lo..hi}"
proof (cases ops)
  case Nil
  have "{x. x \<le> mx} = {0..mx}" by auto
  moreover have "{0..mx} = {lo..hi} \<and> lo \<le> hi \<longleftrightarrow> lo = 0 \<and> hi = mx"
    by (auto simp only: Icc_eq_Icc word_zero_le)
  ultimately show ?thesis using Nil by (auto simp only: reduceRange_def numeric_ops_hold.simps simp_thms
    if_True sum.inject prod.inject list.set ball_simps)
next
  case (Cons opr rest)
  let ?s0 = "\<lparr>rs_result = [], rs_cur = [], rs_started = False\<rparr>"
  show ?thesis
  proof (cases "range_loop mx what 0 ?s0 ops")
    case (Inl e)
    then have "\<exists>opr\<in>set ops. \<not> operand_ok mx opr" using range_loop_error by blast
    with Inl Cons show ?thesis by (auto simp: reduceRange_def)
  next
    case (Inr s)
    have ok: "\<forall>opr\<in>set ops. operand_ok mx opr" using range_loop_error [of mx what 0 ?s0 ops] Inr by auto
    have "reduceRange ops mx what = Inr (lo, hi) \<longleftrightarrow> normalize (rs_result (closeTerm s)) = [(lo, hi)]"
      using Inr Cons by (auto simp: reduceRange_def split: list.splits)
    also have "\<dots> \<longleftrightarrow> lo \<le> hi \<and> {x. x \<le> mx \<and> numeric_ops_hold ops x} = {lo..hi}"
      using range_loop_sem [of mx what opr rest s] Inr Cons by (simp add: normalize_single)
    finally show ?thesis using ok by simp
  qed
qed

end
