(* ===== verification/TranslateFlags.thy ===== *)
theory TranslateFlags
  imports TranslateRange
begin

text \<open>
  Correctness of \<^verbatim>\<open>tcpflags.go\<close>: the mask and value that \<^verbatim>\<open>reduceTCPFlags\<close> returns accept exactly
  the flag bytes that the bitmask operator list accepts.
\<close>

unbundle bit_operations_syntax

section \<open>Semantics of a bitmask operator list (RFC 8955, section 4.2.1.2)\<close>

text \<open>With the match bit all bits of the operand are set; without it, some are. The not bit inverts.\<close>

definition bitmask_op_holds :: "BitmaskOp \<Rightarrow> u8 \<Rightarrow> bool" where
  "bitmask_op_holds opr flags \<longleftrightarrow>
     (bop_Not opr \<noteq> (if bop_Match opr then bop_Value opr AND ucast flags = bop_Value opr
                    else bop_Value opr AND ucast flags \<noteq> 0))"

fun bitmask_terms_hold :: "bool \<Rightarrow> BitmaskOp list \<Rightarrow> u8 \<Rightarrow> bool" where
  "bitmask_terms_hold cur [] flags = cur"
| "bitmask_terms_hold cur (opr # ops) flags =
     (if bop_And opr then bitmask_terms_hold (cur \<and> bitmask_op_holds opr flags) ops flags
      else cur \<or> bitmask_terms_hold (bitmask_op_holds opr flags) ops flags)"

fun bitmask_ops_hold :: "BitmaskOp list \<Rightarrow> u8 \<Rightarrow> bool" where
  "bitmask_ops_hold [] flags = True"
| "bitmask_ops_hold (opr # ops) flags = bitmask_terms_hold (bitmask_op_holds opr flags) ops flags"

section \<open>Masks\<close>

text \<open>A value and mask pair accepts the bytes with all of \<open>S\<close> set and all of \<open>C\<close> clear.\<close>

lemma mask_accepts:
  "(S :: u8) AND C = 0 \<Longrightarrow> f AND (S OR C) = S \<longleftrightarrow> S AND f = S \<and> C AND f = 0"
  unfolding bit_eq_iff bit_and_iff bit_or_iff by auto

lemma and_or_left: "(S OR b) AND f = S OR b \<longleftrightarrow> S AND f = S \<and> (b :: u8) AND f = b"
  unfolding bit_eq_iff bit_and_iff bit_or_iff by auto

lemma and_or_zero: "(C OR b) AND f = 0 \<longleftrightarrow> C AND f = 0 \<and> (b :: u8) AND f = 0"
  unfolding bit_eq_iff bit_and_iff bit_or_iff by auto

lemma and_or_disjoint: "S AND (C OR b) = 0 \<longleftrightarrow> S AND C = 0 \<and> S AND (b :: u8) = 0"
  unfolding bit_eq_iff bit_and_iff bit_or_iff by auto

text \<open>A non-zero byte with \<open>b AND (b - 1) = 0\<close> has exactly one bit.\<close>

lemma nat_and_pred_power: "0 < n \<Longrightarrow> n AND (n - 1) = 0 \<Longrightarrow> \<exists>k. n = (2 :: nat) ^ k"
proof (induction n rule: less_induct)
  case (less n)
  show ?case
  proof (cases "even n")
    case True
    with less.prems obtain m where m: "n = 2 * m" "0 < m" by auto
    have "(n - 1) div 2 = m - 1" using m by simp
    with m have "n AND (n - 1) = 2 * (m AND (m - 1))"
      by (subst and_rec [of n "n - 1"]) simp
    with less.prems(2) have "m AND (m - 1) = 0" by simp
    with less.IH [of m] m obtain k where "m = 2 ^ k" by auto
    with m have "n = 2 ^ Suc k" by simp
    then show ?thesis ..
  next
    case False
    then obtain m where m: "n = Suc (2 * m)" by (auto elim: oddE)
    then have "n AND (n - 1) = 2 * m" by (subst and_rec [of n "n - 1"]) simp
    with less.prems(2) have "m = 0" by simp
    with m have "n = 2 ^ 0" by simp
    then show ?thesis ..
  qed
qed

lemma oneBit_power:
  assumes "(b :: u8) AND (b - 1) = 0" and "b \<noteq> 0"
  shows "\<exists>n. b = 2 ^ n"
proof -
  have "unat b AND (unat b - 1) = 0"
    using assms by (metis unsigned_and_eq unat_0 unat_minus_one)
  moreover have "0 < unat b" using assms(2) by (simp add: unat_gt_0)
  ultimately obtain k where "unat b = 2 ^ k" using nat_and_pred_power by blast
  then have "word_of_nat (unat b) = (word_of_nat (2 ^ k) :: u8)" by (rule arg_cong)
  then have "b = 2 ^ k" by simp
  then show ?thesis ..
qed

lemma oneBit_all_iff_any:
  assumes "(b :: u8) AND (b - 1) = 0" and "b \<noteq> 0"
  shows "b AND f = b \<longleftrightarrow> b AND f \<noteq> 0"
proof -
  from oneBit_power [OF assms] obtain n where "b = 2 ^ n" ..
  then have b: "bit b k \<longleftrightarrow> k = n \<and> bit b n" for k
    by (auto simp: bit_exp_iff)
  show ?thesis
  proof (cases "bit f n")
    case True
    then have "b AND f = b" by (intro bit_word_eqI) (metis b bit_and_iff)
    with assms(2) show ?thesis by simp
  next
    case False
    then have "b AND f = 0" by (intro bit_word_eqI) (metis b bit_and_iff bit_0_eq bot_apply bot_bool_def)
    with assms(2) show ?thesis by simp
  qed
qed

text \<open>An operand that fits in a byte acts on the byte.\<close>

lemma ucast_u8_u64: "(v :: u64) \<le> 0xff \<Longrightarrow> ucast (ucast v :: u8) = v"
  by (rule ucast_down_up) (simp_all add: word_le_nat_alt)

lemma ucast_and_eq:
  assumes "(v :: u64) \<le> 0xff"
  shows "v AND ucast (f :: u8) = v \<longleftrightarrow> ucast v AND f = (ucast v :: u8)"
    and "v AND ucast f = 0 \<longleftrightarrow> ucast v AND f = (0 :: u8)"
proof -
  have "v AND ucast f = ucast (ucast v AND f)"
    using ucast_u8_u64 [OF assms] by (simp add: unsigned_and_eq)
  moreover have "inj (ucast :: u8 \<Rightarrow> u64)" 
    by (rule inj_on_inverseI [of _ ucast]) (simp add: ucast_up_down)
  ultimately show "v AND ucast f = v \<longleftrightarrow> ucast v AND f = (ucast v :: u8)"
    "v AND ucast f = 0 \<longleftrightarrow> ucast v AND f = (0 :: u8)"
    using ucast_u8_u64 [OF assms] by (metis unsigned_0 injD)+
qed

section \<open>The reduction\<close>

text \<open>The bits an accepted item asks to be set and to be clear say what the item says.\<close>

lemma tcp_item_holds:
  assumes "bop_Value opr \<le> 0xff" and "bits = (ucast (bop_Value opr) :: u8)" and "bits \<noteq> 0"
    and "bop_Match opr = bop_Not opr \<longrightarrow> bits AND (bits - 1) = 0"
  shows "bitmask_op_holds opr f \<longleftrightarrow> (if bop_Not opr then bits AND f = 0 else bits AND f = bits)"
  using assms oneBit_all_iff_any [of bits f] ucast_and_eq [OF assms(1), of f]
  by (cases "bop_Match opr"; cases "bop_Not opr") (auto simp: bitmask_op_holds_def)

lemma tcp_loop_sem:
  "tcp_loop i S C ops = Inr (S', C') \<Longrightarrow> S AND C = 0 \<Longrightarrow> 0 < i \<Longrightarrow>
   S' AND C' = 0 \<and> (bitmask_terms_hold (S AND f = S \<and> C AND f = 0) ops f \<longleftrightarrow> S' AND f = S' \<and> C' AND f = 0)"
proof (induction ops arbitrary: i S C)
  case (Cons opr ops)
  let ?b = "ucast (bop_Value opr) :: u8"
  let ?S = "if bop_Not opr then S else S OR ?b"
  let ?C = "if bop_Not opr then C OR ?b else C"
  from Cons.prems have le: "bop_Value opr \<le> 0xff" and nz: "?b \<noteq> 0" and a: "bop_And opr"
    and one: "bop_Match opr = bop_Not opr \<longrightarrow> ?b AND (?b - 1) = 0"
    and disj: "?S AND ?C = 0" and loop: "tcp_loop (i + 1) ?S ?C ops = Inr (S', C')"
    by (auto simp: Let_def not_less split: if_splits)
  have "(S AND f = S \<and> C AND f = 0) \<and> bitmask_op_holds opr f \<longleftrightarrow> ?S AND f = ?S \<and> ?C AND f = 0"
    using tcp_item_holds [OF le refl nz one] by (auto simp: and_or_left and_or_zero)
  with Cons.IH [OF loop disj] a show ?case by simp
qed auto

lemma reduceTCPFlags_sem:
  assumes "reduceTCPFlags ops = Inr (v, m, present)"
  shows "present = (ops \<noteq> [])"
    and "flags AND m = v \<longleftrightarrow> bitmask_ops_hold ops flags"
proof -
  show "present = (ops \<noteq> [])" using assms by (auto simp: reduceTCPFlags_def ebind_Inr)
  show "flags AND m = v \<longleftrightarrow> bitmask_ops_hold ops flags"
  proof (cases ops)
    case Nil
    with assms show ?thesis by (simp add: reduceTCPFlags_def)
  next
    case (Cons opr rest)
    let ?b = "ucast (bop_Value opr) :: u8"
    let ?S = "if bop_Not opr then 0 else ?b" and ?C = "if bop_Not opr then ?b else 0"
    from assms Cons obtain C where loop: "tcp_loop 0 0 0 (opr # rest) = Inr (v, C)" and m: "m = v OR C"
      by (auto simp: reduceTCPFlags_def ebind_Inr)
    then have le: "bop_Value opr \<le> 0xff" and nz: "?b \<noteq> 0"
      and one: "bop_Match opr = bop_Not opr \<longrightarrow> ?b AND (?b - 1) = 0"
      and loop1: "tcp_loop 1 ?S ?C rest = Inr (v, C)"
      by (auto simp: Let_def not_less split: if_splits)
    have "bitmask_op_holds opr flags \<longleftrightarrow> ?S AND flags = ?S \<and> ?C AND flags = 0"
      using tcp_item_holds [OF le refl nz one] by auto
    with tcp_loop_sem [OF loop1, of flags] Cons m show ?thesis by (simp add: mask_accepts split: if_splits)
  qed
qed

end
