(* ===== verification/Matching.thy ===== *)
theory Matching
  imports TranslateFlags
begin

text \<open>
  What a FlowSpec rule and a VPP ACL entry say about a packet, and the theorem that the
  translation preserves it. The meaning of a rule is that of RFC 8955 and RFC 8956. The meaning
  of an entry is the one \<^verbatim>\<open>internal/vpp/types.go\<close> documents for the fields of \<^verbatim>\<open>ACLRule\<close>:
  protocol 0 is any protocol, the port ranges hold ICMP type and code for ICMP, and a TCP
  packet matches the flags when the masked flags equal the value.
\<close>

section \<open>Packets\<close>

record packet =
  pk_IPv6 :: bool
  pk_Src :: addr
  pk_Dst :: addr
  pk_Proto :: u8
  pk_SrcPort :: u16
  pk_DstPort :: u16
  pk_ICMPType :: u8
  pk_ICMPCode :: u8
  pk_TCPFlags :: u8

definition packet_wf :: "packet \<Rightarrow> bool" where
  "packet_wf p \<longleftrightarrow> (if pk_IPv6 p then Is6 (pk_Src p) \<and> Is6 (pk_Dst p) else Is4 (pk_Src p) \<and> Is4 (pk_Dst p))"

section \<open>FlowSpec semantics\<close>

text \<open>
  A prefix component with an offset compares the bits from the offset to the prefix length
  (RFC 8956, section 3.1); with offset zero it is containment.
\<close>

definition prefix_holds :: "prefix \<Rightarrow> nat \<Rightarrow> addr \<Rightarrow> bool" where
  "prefix_holds p off a \<longleftrightarrow> pfx_IsValid p \<and>
     (case (pfx_Addr p, a) of
        (Addr4 x, Addr4 y) \<Rightarrow> list_all (\<lambda>i. bit x i = bit y i) [32 - nat (pfx_Bits p)..<32 - off]
      | (Addr6 x, Addr6 y) \<Rightarrow> list_all (\<lambda>i. bit x i = bit y i) [128 - nat (pfx_Bits p)..<128 - off]
      | _ \<Rightarrow> False)"

text \<open>
  The components a rule carries with their operators. Components of which the agent records
  only the presence (generic port, packet length, DSCP, flow label, label, unknown) and
  fragments are outside this predicate: the translation rejects every rule that has one.
\<close>

definition fs_l4_matches :: "fs_family \<Rightarrow> fs_match \<Rightarrow> packet \<Rightarrow> bool" where
  "fs_l4_matches f m p \<longleftrightarrow>
     (let tcpudp = (pk_Proto p = protoTCP \<or> pk_Proto p = protoUDP); icmp = (pk_Proto p = icmpProtoOf f)
      in numeric_ops_hold (m_Proto m) (ucast (pk_Proto p)) \<and>
         (DstPort m \<noteq> [] \<longrightarrow> tcpudp \<and> numeric_ops_hold (DstPort m) (ucast (pk_DstPort p))) \<and>
         (SrcPort m \<noteq> [] \<longrightarrow> tcpudp \<and> numeric_ops_hold (SrcPort m) (ucast (pk_SrcPort p))) \<and>
         (ICMPType m \<noteq> [] \<longrightarrow> icmp \<and> numeric_ops_hold (ICMPType m) (ucast (pk_ICMPType p))) \<and>
         (ICMPCode m \<noteq> [] \<longrightarrow> icmp \<and> numeric_ops_hold (ICMPCode m) (ucast (pk_ICMPCode p))) \<and>
         (TCPFlags m \<noteq> [] \<longrightarrow> pk_Proto p = protoTCP \<and> bitmask_ops_hold (TCPFlags m) (pk_TCPFlags p)))"

definition fs_matches :: "fs_rule \<Rightarrow> packet \<Rightarrow> bool" where
  "fs_matches r p \<longleftrightarrow>
     (let m = r_Match r
      in pk_IPv6 p = (r_Family r = FamilyIPv6) \<and>
         (HasDst m \<longrightarrow> prefix_holds (Dst m) (unat (DstOffset m)) (pk_Dst p)) \<and>
         (HasSrc m \<longrightarrow> prefix_holds (Src m) (unat (SrcOffset m)) (pk_Src p)) \<and>
         fs_l4_matches (r_Family r) m p)"

section \<open>ACL semantics\<close>

text \<open>The value of a packet that the two range fields of an entry are compared with.\<close>

definition l4_first :: "packet \<Rightarrow> u16" where
  "l4_first p = (if pk_Proto p = protoTCP \<or> pk_Proto p = protoUDP then pk_SrcPort p
                 else if pk_Proto p = protoICMP \<or> pk_Proto p = protoICMPv6 then ucast (pk_ICMPType p)
                 else 0)"

definition l4_second :: "packet \<Rightarrow> u16" where
  "l4_second p = (if pk_Proto p = protoTCP \<or> pk_Proto p = protoUDP then pk_DstPort p
                  else if pk_Proto p = protoICMP \<or> pk_Proto p = protoICMPv6 then ucast (pk_ICMPCode p)
                  else 0)"

definition acl_l4_matches :: "ACLRule \<Rightarrow> packet \<Rightarrow> bool" where
  "acl_l4_matches a p \<longleftrightarrow>
     acl_Proto a = 0 \<or>
     pk_Proto p = acl_Proto a \<and>
     (SrcPortOrICMPTypeFirst a \<le> l4_first p \<and> l4_first p \<le> SrcPortOrICMPTypeLast a) \<and>
     (DstPortOrICMPCodeFirst a \<le> l4_second p \<and> l4_second p \<le> DstPortOrICMPCodeLast a) \<and>
     (pk_Proto p = protoTCP \<longrightarrow> pk_TCPFlags p AND TCPFlagsMask a = TCPFlagsValue a)"

definition acl_matches :: "ACLRule \<Rightarrow> packet \<Rightarrow> bool" where
  "acl_matches a p \<longleftrightarrow>
     pk_IPv6 p = IsIPv6 a \<and> Contains (acl_Src a) (pk_Src p) \<and> Contains (acl_Dst a) (pk_Dst p) \<and>
     acl_l4_matches a p"

section \<open>Prefixes\<close>

lemma drop_bit_zero_iff: "drop_bit k w = 0 \<longleftrightarrow> (\<forall>i. k \<le> i \<longrightarrow> \<not> bit (w :: 'a :: len word) i)"
proof
  assume z: "drop_bit k w = 0"
  have "bit w i = bit (drop_bit k w) (i - k)" if "k \<le> i" for i
    using that by (simp add: bit_drop_bit_eq)
  with z show "\<forall>i. k \<le> i \<longrightarrow> \<not> bit w i" by simp
qed (auto intro: bit_word_eqI simp: bit_drop_bit_eq)

lemma drop_bit_xor_zero:
  fixes x y :: "'a :: len word"
  shows "drop_bit k y XOR drop_bit k x = 0 \<longleftrightarrow> (\<forall>i. k \<le> i \<longrightarrow> i < LENGTH('a) \<longrightarrow> bit x i = bit y i)"
  by (auto simp: drop_bit_zero_iff bit_xor_iff dest: bit_imp_le_length simp flip: drop_bit_xor)

lemma and_not_mask_xor_zero:
  fixes x y :: "'a :: len word"
  shows "(y XOR x) AND NOT (mask k) = 0 \<longleftrightarrow> (\<forall>i. k \<le> i \<longrightarrow> i < LENGTH('a) \<longrightarrow> bit x i = bit y i)"
  by (auto simp: bit_eq_iff bit_simps not_less dest: bit_imp_le_length)

lemma prefix_holds_Contains: "prefix_holds p 0 a = Contains p a"
  by (cases "pfx_Addr p"; cases a)
    (simp_all add: prefix_holds_def Contains_def drop_bit_xor_zero and_not_mask_xor_zero list_all_iff Ball_def imp_conjL)

lemma Contains_defaults:
  "Contains defaultV4 a \<longleftrightarrow> Is4 a" "Contains defaultV6 a \<longleftrightarrow> Is6 a"
  by (cases a; simp add: prefix_holds_def defaultV4_def defaultV6_def PrefixFrom_def IPv4Unspecified_def
      IPv6Unspecified_def addr_IsValid_def pfx_IsValid_def flip: prefix_holds_Contains)+

lemma Contains_family: "Contains p a \<Longrightarrow> Is4 (pfx_Addr p) = Is4 a \<and> Is6 (pfx_Addr p) = Is6 a"
  by (cases "pfx_Addr p"; cases a) (simp_all add: Contains_def split: if_splits)

section \<open>The parts of the translation\<close>

lemma ucast_u16_le:
  assumes "(v :: u64) \<le> 65535"
  shows "ucast (x :: u16) \<le> v \<longleftrightarrow> x \<le> ucast v" and "v \<le> ucast x \<longleftrightarrow> ucast v \<le> x"
  using assms by (simp_all add: word_le_nat_alt unat_ucast_up unat_ucast_down)

lemma ucast_u16_bound: "ucast (x :: u16) \<le> (65535 :: u64)"
  using unat_u16_less [of x] by (simp add: word_le_nat_alt unat_ucast_up del: unat_u16_less)

lemma ucast_u8_eq:
  assumes "\<not> 255 < (v :: u64)"
  shows "ucast (x :: u8) = v \<longleftrightarrow> x = ucast v"
  using ucast_u8_u64 [of v] ucast_up_down [of x, where 'b = 64] assms by (auto simp: not_less)

lemma reduceRange_port:
  assumes "reduceRange ops portMax what = Inr (lo, hi)"
  shows "numeric_ops_hold ops (ucast (x :: u16)) \<longleftrightarrow> ucast lo \<le> x \<and> x \<le> ucast hi"
proof -
  from assms have le: "lo \<le> hi" and eq: "{x. x \<le> 65535 \<and> numeric_ops_hold ops x} = {lo..hi}"
    unfolding reduceRange_iff portMax_def by auto
  from le have "hi \<in> {lo..hi}" "lo \<in> {lo..hi}" by auto
  then have "hi \<le> 65535" "lo \<le> 65535" unfolding eq [symmetric] by auto
  moreover have "numeric_ops_hold ops (ucast x) \<longleftrightarrow> ucast x \<in> {lo..hi}"
    unfolding eq [symmetric] using ucast_u16_bound by simp
  ultimately show ?thesis by (simp add: ucast_u16_le)
qed

lemma numeric_eq_op:
  "nop_EQ opr \<Longrightarrow> \<not> nop_LT opr \<Longrightarrow> \<not> nop_GT opr \<Longrightarrow> numeric_ops_hold [opr] x \<longleftrightarrow> x = nop_Value opr"
  by (simp add: numeric_op_holds_def)

lemma reduceProto_sem:
  assumes "reduceProto ops = Inr pr"
  shows "snd pr \<longleftrightarrow> ops \<noteq> []" and "numeric_ops_hold ops (ucast x) \<longleftrightarrow> (snd pr \<longrightarrow> x = fst pr)"
  using assms by (auto simp: reduceProto_def numeric_eq_op ucast_u8_eq split: list.splits if_splits
    simp del: numeric_ops_hold.simps(2))

lemma reduceExact_sem:
  assumes "reduceExact ops what = Inr pr"
  shows "snd pr \<longleftrightarrow> ops \<noteq> []" and "numeric_ops_hold ops (ucast x) \<longleftrightarrow> (snd pr \<longrightarrow> x = fst pr)"
  using assms by (auto simp: reduceExact_def numeric_eq_op ucast_u8_eq split: list.splits if_splits
    simp del: numeric_ops_hold.simps(2))

text \<open>Inversion of a successful translation: the results of its steps.\<close>

lemma Translate_Inr:
  assumes "Translate r = Inr a"
  obtains src dst pr0 tcpVal tcpMask tcpPresent pr1 ty co pr2 sF sL dF dL where
    "a_Kind (r_Action r) = ActionDrop"
    "checkComponents (r_Match r) = Inr ()"
    "checkPrefixes (r_Family r) (r_Match r) = Inr (src, dst)"
    "reduceProto (m_Proto (r_Match r)) = Inr pr0"
    "reduceTCPFlags (TCPFlags (r_Match r)) = Inr (tcpVal, tcpMask, tcpPresent)"
    "\<exists>m. requireProto tcpPresent protoTCP m pr0 = Inr pr1"
    "reduceExact (ICMPType (r_Match r)) ''icmp type'' = Inr ty"
    "reduceExact (ICMPCode (r_Match r)) ''icmp code'' = Inr co"
    "\<exists>m. requireProto (snd ty \<or> snd co) (icmpProtoOf (r_Family r)) m pr1 = Inr pr2"
    "checkPorts (r_Match r) pr2 = Inr ()"
    "l4Ranges (r_Match r) (snd ty \<or> snd co) ty co = Inr ((sF, sL), (dF, dL))"
    "a = \<lparr>IsIPv6 = (r_Family r = FamilyIPv6), Permit = False, acl_Src = src, acl_Dst = dst,
          acl_Proto = (if snd pr2 then fst pr2 else 0),
          SrcPortOrICMPTypeFirst = sF, SrcPortOrICMPTypeLast = sL,
          DstPortOrICMPCodeFirst = dF, DstPortOrICMPCodeLast = dL,
          TCPFlagsMask = (if tcpPresent then tcpMask else 0),
          TCPFlagsValue = (if tcpPresent then tcpVal else 0)\<rparr>"
proof -
  have drop: "a_Kind (r_Action r) = ActionDrop"
    using assms by (auto simp: Translate_def Let_def split: if_splits)
  show thesis
    using assms drop unfolding Translate_def Let_def ebind_Inr
    by (clarsimp simp: ebind_Inr split: prod.splits) (rule that, (assumption | rule exI drop refl | simp)+)
qed

lemma checkPrefixes_sem:
  assumes "checkPrefixes f m = Inr (src, dst)"
    and "packet_wf p" and "pk_IPv6 p = (f = FamilyIPv6)"
  shows "Contains dst (pk_Dst p) \<longleftrightarrow> (HasDst m \<longrightarrow> prefix_holds (Dst m) (unat (DstOffset m)) (pk_Dst p))"
    and "Contains src (pk_Src p) \<longleftrightarrow> (HasSrc m \<longrightarrow> prefix_holds (Src m) (unat (SrcOffset m)) (pk_Src p))"
  using assms
  by (auto simp: checkPrefixes_def Let_def ebind_Inr DstOrDefault_def SrcOrDefault_def DefaultPrefix_def
      prefix_holds_Contains Contains_defaults packet_wf_def split: if_splits)

lemma icmpProtoOf_other [simp]: "icmpProtoOf f \<noteq> protoTCP" "icmpProtoOf f \<noteq> protoUDP" "icmpProtoOf f \<noteq> 0"
  by (simp_all add: icmpProtoOf_def proto_defs)

lemma proto_other [simp]: "protoTCP \<noteq> protoUDP" "protoUDP \<noteq> protoTCP" "protoTCP \<noteq> icmpProtoOf f"
  "protoTCP \<noteq> 0" "protoUDP \<noteq> 0"
  by (simp_all add: icmpProtoOf_def proto_defs)

lemma l4_tcpudp: "pk_Proto p = protoTCP \<or> pk_Proto p = protoUDP \<Longrightarrow> l4_first p = pk_SrcPort p \<and> l4_second p = pk_DstPort p"
  by (simp add: l4_first_def l4_second_def)

lemma l4_icmp: "pk_Proto p = icmpProtoOf f \<Longrightarrow> l4_first p = ucast (pk_ICMPType p) \<and> l4_second p = ucast (pk_ICMPCode p)"
  by (auto simp: l4_first_def l4_second_def icmpProtoOf_def proto_defs)

lemma icmpRange_sem:
  "fst (icmpRange v present) \<le> ucast (x :: u8) \<and> ucast x \<le> snd (icmpRange v present) \<longleftrightarrow> (present \<longrightarrow> x = v)"
proof -
  have "unat (ucast x :: u16) \<le> 255" using unat_u8_less [of x] by (simp add: unat_ucast_up del: unat_u8_less)
  then have "ucast x \<le> (255 :: u16)" by (simp add: word_le_nat_alt)
  moreover have "(ucast v :: u16) \<le> ucast x \<and> (ucast x :: u16) \<le> ucast v \<longleftrightarrow> x = v"
    by (auto simp: word_le_nat_alt unat_ucast_up word_unat_eq_iff)
  ultimately show ?thesis by (simp add: icmpRange_def)
qed

text \<open>What the layer 4 part of a successful translation says, with and without ICMP.\<close>

lemma l4_ports_sem:
  assumes "l4Ranges m False ty co = Inr ((sF, sL), (dF, dL))"
  shows "sF \<le> x \<and> x \<le> sL \<longleftrightarrow> numeric_ops_hold (SrcPort m) (ucast x)"
    and "dF \<le> x \<and> x \<le> dL \<longleftrightarrow> numeric_ops_hold (DstPort m) (ucast x)"
  using assms by (auto simp: l4Ranges_def ebind_Inr reduceRange_port)

lemma l4_icmp_sem:
  assumes "l4Ranges m True ty co = Inr ((sF, sL), (dF, dL))"
  shows "sF \<le> ucast x \<and> ucast x \<le> sL \<longleftrightarrow> (snd ty \<longrightarrow> x = fst ty)"
    and "dF \<le> ucast x \<and> ucast x \<le> dL \<longleftrightarrow> (snd co \<longrightarrow> x = fst co)"
  using assms icmpRange_sem [of "fst ty" "snd ty" x] icmpRange_sem [of "fst co" "snd co" x]
  by (auto simp: l4Ranges_def)

lemma requireProto_sem:
  "requireProto needed want m pr = Inr pr' \<Longrightarrow>
   (needed \<longrightarrow> pr' = (want, True) \<and> (snd pr \<longrightarrow> fst pr = want)) \<and> (\<not> needed \<longrightarrow> pr' = pr)"
  by (cases pr) (auto simp: requireProto_def split: if_splits)

section \<open>The translation is exact\<close>

text \<open>A rule that asks for the protocol number 0, which an entry cannot distinguish from any protocol.\<close>

definition protocol_zero :: "fs_rule \<Rightarrow> bool" where
  "protocol_zero r \<longleftrightarrow> list_ex (\<lambda>opr. nop_Value opr = 0) (m_Proto (r_Match r))"

lemma reduceProto_nonzero:
  "reduceProto ops = Inr pr \<Longrightarrow> \<not> list_ex (\<lambda>opr. nop_Value opr = 0) ops \<Longrightarrow> snd pr \<Longrightarrow> fst pr \<noteq> 0"
  using ucast_u8_u64 by (force simp: reduceProto_def not_less split: list.splits if_splits)

lemma checkPorts_sem:
  "checkPorts m pr = Inr () \<Longrightarrow> SrcPort m \<noteq> [] \<or> DstPort m \<noteq> [] \<Longrightarrow>
   snd pr \<and> (fst pr = protoTCP \<or> fst pr = protoUDP)"
  by (auto simp: checkPorts_def split: if_splits)

lemma l4_exact_icmp:
  assumes "snd ty \<or> snd co"
    and "reduceProto (m_Proto m) = Inr pr0" and "reduceTCPFlags (TCPFlags m) = Inr (tv, tm, tp)"
    and "requireProto tp protoTCP m1 pr0 = Inr pr1"
    and "reduceExact (ICMPType m) w1 = Inr ty" and "reduceExact (ICMPCode m) w2 = Inr co"
    and "requireProto True (icmpProtoOf f) m2 pr1 = Inr pr2" and "checkPorts m pr2 = Inr ()"
    and "l4Ranges m True ty co = Inr ((sF, sL), (dF, dL))"
    and "acl_Proto a = (if snd pr2 then fst pr2 else 0)"
    and "SrcPortOrICMPTypeFirst a = sF" "SrcPortOrICMPTypeLast a = sL"
    and "DstPortOrICMPCodeFirst a = dF" "DstPortOrICMPCodeLast a = dL"
  shows "acl_l4_matches a p \<longleftrightarrow> fs_l4_matches f m p"
proof -
  note r1 = requireProto_sem [OF assms(4)] and r2 = requireProto_sem [OF assms(7)]
  from r1 r2 have q: "pr2 = (icmpProtoOf f, True)" "\<not> tp" "snd pr0 \<Longrightarrow> fst pr0 = icmpProtoOf f" by auto
  with checkPorts_sem [OF assms(8)] have np: "SrcPort m = []" "DstPort m = []" by auto
  from q reduceTCPFlags_sem(1) [OF assms(3)] have nt: "TCPFlags m = []" by simp
  note icmp = reduceExact_sem [OF assms(5)] reduceExact_sem [OF assms(6)]
  have pr: "numeric_ops_hold (m_Proto m) (ucast (pk_Proto p)) \<longleftrightarrow> (snd pr0 \<longrightarrow> pk_Proto p = fst pr0)"
    by (rule reduceProto_sem [OF assms(2)])
  show ?thesis
  proof (cases "pk_Proto p = icmpProtoOf f")
    case True
    then show ?thesis
      using l4_icmp [OF True] l4_icmp_sem [OF assms(9)] icmp pr q
      by (auto simp: acl_l4_matches_def fs_l4_matches_def Let_def np nt assms(10-14))
  next
    case False
    with assms(1) icmp q show ?thesis
      by (auto simp: acl_l4_matches_def fs_l4_matches_def Let_def assms(10-14))
  qed
qed

lemma l4_exact_ports:
  assumes "\<not> (snd ty \<or> snd co)" and "\<not> list_ex (\<lambda>opr. nop_Value opr = 0) (m_Proto m)"
    and "reduceProto (m_Proto m) = Inr pr0" and "reduceTCPFlags (TCPFlags m) = Inr (tv, tm, tp)"
    and "requireProto tp protoTCP m1 pr0 = Inr pr"
    and "reduceExact (ICMPType m) w1 = Inr ty" and "reduceExact (ICMPCode m) w2 = Inr co"
    and "checkPorts m pr = Inr ()"
    and "l4Ranges m False ty co = Inr ((sF, sL), (dF, dL))"
    and "acl_Proto a = (if snd pr then fst pr else 0)"
    and "SrcPortOrICMPTypeFirst a = sF" "SrcPortOrICMPTypeLast a = sL"
    and "DstPortOrICMPCodeFirst a = dF" "DstPortOrICMPCodeLast a = dL"
    and "TCPFlagsMask a = (if tp then tm else 0)" "TCPFlagsValue a = (if tp then tv else 0)"
  shows "acl_l4_matches a p \<longleftrightarrow> fs_l4_matches f m p"
proof -
  note r = requireProto_sem [OF assms(5)] and pc = checkPorts_sem [OF assms(8)]
  note flags = reduceTCPFlags_sem(1) [OF assms(4)] reduceTCPFlags_sem(2) [OF assms(4), of "pk_TCPFlags p"]
  have ni: "ICMPType m = []" "ICMPCode m = []"
    using assms(1) reduceExact_sem(1) [OF assms(6)] reduceExact_sem(1) [OF assms(7)] by auto
  have proto: "numeric_ops_hold (m_Proto m) (ucast (pk_Proto p)) \<longleftrightarrow> (snd pr0 \<longrightarrow> pk_Proto p = fst pr0)"
    by (rule reduceProto_sem [OF assms(3)])
  show ?thesis
  proof (cases "snd pr")
    case True
    have "fst pr \<noteq> 0" using True r reduceProto_nonzero [OF assms(3) assms(2)] by (cases tp) auto
    then have "acl_l4_matches a p \<longleftrightarrow> pk_Proto p = fst pr \<and>
         numeric_ops_hold (SrcPort m) (ucast (l4_first p)) \<and> numeric_ops_hold (DstPort m) (ucast (l4_second p)) \<and>
         (pk_Proto p = protoTCP \<longrightarrow> bitmask_ops_hold (TCPFlags m) (pk_TCPFlags p))"
      using True l4_ports_sem [OF assms(9)] flags
      by (auto simp: acl_l4_matches_def assms(10-16))
    also have "\<dots> \<longleftrightarrow> fs_l4_matches f m p"
      using r True proto flags(1) pc l4_tcpudp [of p]
      by (cases tp) (auto simp: fs_l4_matches_def Let_def ni)
    finally show ?thesis .
  next
    case False
    with pc r proto flags show ?thesis
      by (cases tp) (auto simp: acl_l4_matches_def fs_l4_matches_def Let_def ni assms(10))
  qed
qed

lemma translate_exact_packet:
  assumes tr: "Translate r = Inr a" and nz: "\<not> protocol_zero r" and wf: "packet_wf p"
  shows "acl_matches a p \<longleftrightarrow> fs_matches r p"
  using tr
proof (rule Translate_Inr)
  fix src dst pr0 tv tm tp pr1 ty co pr2 sF sL dF dL
  let ?m = "r_Match r" and ?f = "r_Family r"
  assume pfx: "checkPrefixes ?f ?m = Inr (src, dst)"
    and pr0: "reduceProto (m_Proto ?m) = Inr pr0"
    and tcp: "reduceTCPFlags (TCPFlags ?m) = Inr (tv, tm, tp)"
    and pr1: "\<exists>m. requireProto tp protoTCP m pr0 = Inr pr1"
    and ty: "reduceExact (ICMPType ?m) ''icmp type'' = Inr ty"
    and co: "reduceExact (ICMPCode ?m) ''icmp code'' = Inr co"
    and pr2: "\<exists>m. requireProto (snd ty \<or> snd co) (icmpProtoOf ?f) m pr1 = Inr pr2"
    and ports: "checkPorts ?m pr2 = Inr ()"
    and l4: "l4Ranges ?m (snd ty \<or> snd co) ty co = Inr ((sF, sL), (dF, dL))"
    and a: "a = \<lparr>IsIPv6 = (?f = FamilyIPv6), Permit = False, acl_Src = src, acl_Dst = dst,
          acl_Proto = (if snd pr2 then fst pr2 else 0),
          SrcPortOrICMPTypeFirst = sF, SrcPortOrICMPTypeLast = sL,
          DstPortOrICMPCodeFirst = dF, DstPortOrICMPCodeLast = dL,
          TCPFlagsMask = (if tp then tm else 0), TCPFlagsValue = (if tp then tv else 0)\<rparr>"
  from pr1 pr2 obtain m1 m2 where pr1: "requireProto tp protoTCP m1 pr0 = Inr pr1"
    and pr2: "requireProto (snd ty \<or> snd co) (icmpProtoOf ?f) m2 pr1 = Inr pr2" by blast
  have "acl_l4_matches a p \<longleftrightarrow> fs_l4_matches ?f ?m p"
  proof (cases "snd ty \<or> snd co")
    case True
    with pr0 tcp pr1 ty co pr2 ports l4 show ?thesis
      by (intro l4_exact_icmp) (simp_all add: a)
  next
    case False
    with pr2 have "pr2 = pr1" by (simp add: requireProto_def)
    with False nz pr0 tcp pr1 ty co ports l4 show ?thesis
      by (intro l4_exact_ports [where pr = pr1]) (simp_all add: a protocol_zero_def)
  qed
  with checkPrefixes_sem [OF pfx wf] show ?thesis
    by (auto simp: acl_matches_def fs_matches_def Let_def a)
qed

end
