(* ===== verification/Pipeline.thy ===== *)
theory Pipeline
  imports Matching
begin

text \<open>
  From a received route to an ACL entry: the composition of \<^verbatim>\<open>flowspec.ParseNLRI\<close> and
  \<^verbatim>\<open>translate.Translate\<close>. The components of a route get their meaning one by one; a route the
  agent installs has exactly that meaning, and a route with anything the agent cannot express
  is refused.
\<close>

section \<open>Meaning of a component\<close>

datatype comp_kind = KDst | KSrc | KType flowspec_type | KOther

fun kind_of :: "fs_component \<Rightarrow> comp_kind" where
  "kind_of (FlowSpecDestinationPrefix _) = KDst"
| "kind_of (FlowSpecDestinationPrefix6 _ _) = KDst"
| "kind_of (FlowSpecSourcePrefix _) = KSrc"
| "kind_of (FlowSpecSourcePrefix6 _ _) = KSrc"
| "kind_of (FlowSpecComponent t _) = KType t"
| "kind_of OtherComponent = KOther"

text \<open>The kinds whose operators the agent records; every other kind makes it refuse the route.\<close>

fun supported_kind :: "comp_kind \<Rightarrow> bool" where
  "supported_kind KDst = True"
| "supported_kind KSrc = True"
| "supported_kind (KType t) =
     (t \<in> {FLOW_SPEC_TYPE_IP_PROTO, FLOW_SPEC_TYPE_DST_PORT, FLOW_SPEC_TYPE_SRC_PORT,
            FLOW_SPEC_TYPE_ICMP_TYPE, FLOW_SPEC_TYPE_ICMP_CODE, FLOW_SPEC_TYPE_TCP_FLAG})"
| "supported_kind KOther = False"

definition prefix_text_holds :: "string \<Rightarrow> nat \<Rightarrow> addr \<Rightarrow> bool" where
  "prefix_text_holds s off a = (case ParsePrefix s of None \<Rightarrow> False | Some q \<Rightarrow> prefix_holds q off a)"

definition tcp_or_udp :: "packet \<Rightarrow> bool" where
  "tcp_or_udp p \<longleftrightarrow> pk_Proto p = protoTCP \<or> pk_Proto p = protoUDP"

fun typed_component_holds :: "fs_family \<Rightarrow> flowspec_type \<Rightarrow> fs_item list \<Rightarrow> packet \<Rightarrow> bool" where
  "typed_component_holds f FLOW_SPEC_TYPE_IP_PROTO its p =
     numeric_ops_hold (numericOps its) (ucast (pk_Proto p))"
| "typed_component_holds f FLOW_SPEC_TYPE_DST_PORT its p =
     (its \<noteq> [] \<longrightarrow> tcp_or_udp p \<and> numeric_ops_hold (numericOps its) (ucast (pk_DstPort p)))"
| "typed_component_holds f FLOW_SPEC_TYPE_SRC_PORT its p =
     (its \<noteq> [] \<longrightarrow> tcp_or_udp p \<and> numeric_ops_hold (numericOps its) (ucast (pk_SrcPort p)))"
| "typed_component_holds f FLOW_SPEC_TYPE_ICMP_TYPE its p =
     (its \<noteq> [] \<longrightarrow> pk_Proto p = icmpProtoOf f \<and> numeric_ops_hold (numericOps its) (ucast (pk_ICMPType p)))"
| "typed_component_holds f FLOW_SPEC_TYPE_ICMP_CODE its p =
     (its \<noteq> [] \<longrightarrow> pk_Proto p = icmpProtoOf f \<and> numeric_ops_hold (numericOps its) (ucast (pk_ICMPCode p)))"
| "typed_component_holds f FLOW_SPEC_TYPE_TCP_FLAG its p =
     (its \<noteq> [] \<longrightarrow> pk_Proto p = protoTCP \<and> bitmask_ops_hold (bitmaskOps its) (pk_TCPFlags p))"
| "typed_component_holds f _ its p = True"

fun component_holds :: "fs_family \<Rightarrow> fs_component \<Rightarrow> packet \<Rightarrow> bool" where
  "component_holds f (FlowSpecDestinationPrefix s) p = prefix_text_holds s 0 (pk_Dst p)"
| "component_holds f (FlowSpecSourcePrefix s) p = prefix_text_holds s 0 (pk_Src p)"
| "component_holds f (FlowSpecDestinationPrefix6 s off) p = prefix_text_holds s (unat off) (pk_Dst p)"
| "component_holds f (FlowSpecSourcePrefix6 s off) p = prefix_text_holds s (unat off) (pk_Src p)"
| "component_holds f (FlowSpecComponent t its) p = typed_component_holds f t its p"
| "component_holds f OtherComponent p = True"

text \<open>A route matches a packet of its family on which all its components hold.\<close>

fun route_matches :: "nlri \<Rightarrow> packet \<Rightarrow> bool" where
  "route_matches (FlowSpecIPv4Unicast comps s) p \<longleftrightarrow>
     \<not> pk_IPv6 p \<and> list_all (\<lambda>c. component_holds FamilyIPv4 c p) comps"
| "route_matches (FlowSpecIPv6Unicast comps s) p \<longleftrightarrow>
     pk_IPv6 p \<and> list_all (\<lambda>c. component_holds FamilyIPv6 c p) comps"
| "route_matches (OtherNLRI s) p \<longleftrightarrow> False"

fun components_of :: "nlri \<Rightarrow> fs_component list" where
  "components_of (FlowSpecIPv4Unicast comps s) = comps"
| "components_of (FlowSpecIPv6Unicast comps s) = comps"
| "components_of (OtherNLRI s) = []"

section \<open>Parsing keeps the meaning\<close>

definition match_holds :: "fs_family \<Rightarrow> fs_match \<Rightarrow> packet \<Rightarrow> bool" where
  "match_holds f m p \<longleftrightarrow>
     (HasDst m \<longrightarrow> prefix_holds (Dst m) (unat (DstOffset m)) (pk_Dst p)) \<and>
     (HasSrc m \<longrightarrow> prefix_holds (Src m) (unat (SrcOffset m)) (pk_Src p)) \<and> fs_l4_matches f m p"

lemma fs_matches_match_holds:
  "fs_matches r p \<longleftrightarrow> pk_IPv6 p = (r_Family r = FamilyIPv6) \<and> match_holds (r_Family r) (r_Match r) p"
  by (simp add: fs_matches_def match_holds_def Let_def)

text \<open>No component of a kind has been recorded in a match so far.\<close>

fun unset :: "fs_match \<Rightarrow> comp_kind \<Rightarrow> bool" where
  "unset m KDst \<longleftrightarrow> \<not> HasDst m \<and> DstOffset m = 0"
| "unset m KSrc \<longleftrightarrow> \<not> HasSrc m \<and> SrcOffset m = 0"
| "unset m (KType FLOW_SPEC_TYPE_IP_PROTO) \<longleftrightarrow> m_Proto m = []"
| "unset m (KType FLOW_SPEC_TYPE_DST_PORT) \<longleftrightarrow> DstPort m = []"
| "unset m (KType FLOW_SPEC_TYPE_SRC_PORT) \<longleftrightarrow> SrcPort m = []"
| "unset m (KType FLOW_SPEC_TYPE_ICMP_TYPE) \<longleftrightarrow> ICMPType m = []"
| "unset m (KType FLOW_SPEC_TYPE_ICMP_CODE) \<longleftrightarrow> ICMPCode m = []"
| "unset m (KType FLOW_SPEC_TYPE_TCP_FLAG) \<longleftrightarrow> TCPFlags m = []"
| "unset m _ \<longleftrightarrow> True"

lemma unset_zero: "unset Match_zero k"
  by (cases "(Match_zero, k)" rule: unset.cases) (simp_all add: Match_zero_def)

lemma numericOps_Nil [simp]: "numericOps its = [] \<longleftrightarrow> its = []"
  and bitmaskOps_Nil [simp]: "bitmaskOps its = [] \<longleftrightarrow> its = []"
  by (simp_all add: numericOps_def bitmaskOps_def)

lemma parsePrefix_Inr: "parsePrefix s = Inr q \<longleftrightarrow> ParsePrefix s = Some q"
  by (simp add: parsePrefix_def split: option.splits)

lemmas match_sem = match_holds_def fs_l4_matches_def Let_def tcp_or_udp_def prefix_text_holds_def

lemma parseGeneric_sem:
  "unset m (KType t) \<Longrightarrow>
   match_holds f (parseGenericComponent m t its) p \<longleftrightarrow> match_holds f m p \<and> typed_component_holds f t its p"
  by (cases t) (auto simp: match_sem)

lemma match_holds_dst:
  "\<not> HasDst m \<Longrightarrow> match_holds f (m\<lparr>HasDst := True, Dst := q, DstOffset := off\<rparr>) p \<longleftrightarrow>
     match_holds f m p \<and> prefix_holds q (unat off) (pk_Dst p)"
  by (auto simp: match_holds_def fs_l4_matches_def)

lemma match_holds_src:
  "\<not> HasSrc m \<Longrightarrow> match_holds f (m\<lparr>HasSrc := True, Src := q, SrcOffset := off\<rparr>) p \<longleftrightarrow>
     match_holds f m p \<and> prefix_holds q (unat off) (pk_Src p)"
  by (auto simp: match_holds_def fs_l4_matches_def)

lemma match_holds_no_offset:
  "\<not> HasDst m \<Longrightarrow> DstOffset m = 0 \<Longrightarrow> match_holds f (m\<lparr>HasDst := True, Dst := q\<rparr>) p \<longleftrightarrow>
     match_holds f m p \<and> prefix_holds q 0 (pk_Dst p)"
  "\<not> HasSrc m \<Longrightarrow> SrcOffset m = 0 \<Longrightarrow> match_holds f (m\<lparr>HasSrc := True, Src := q\<rparr>) p \<longleftrightarrow>
     match_holds f m p \<and> prefix_holds q 0 (pk_Src p)"
  by (auto simp: match_holds_def fs_l4_matches_def)

lemma parseComponent_sem:
  assumes "parseComponent m c = Inr m'" and "unset m (kind_of c)"
  shows "match_holds f m' p \<longleftrightarrow> match_holds f m p \<and> component_holds f c p"
proof (cases c)
  case (FlowSpecComponent t its)
  with assms show ?thesis by (auto simp: parseGeneric_sem)
next
  case OtherComponent
  with assms show ?thesis by (auto simp: match_holds_def fs_l4_matches_def)
next
  case (FlowSpecDestinationPrefix s)
  with assms obtain q where "ParsePrefix s = Some q" "m' = m\<lparr>HasDst := True, Dst := q\<rparr>"
    by (auto simp: parsePrefix_Inr split: sum.splits)
  with assms FlowSpecDestinationPrefix show ?thesis
    by (simp add: match_holds_no_offset prefix_text_holds_def)
next
  case (FlowSpecSourcePrefix s)
  with assms obtain q where "ParsePrefix s = Some q" "m' = m\<lparr>HasSrc := True, Src := q\<rparr>"
    by (auto simp: parsePrefix_Inr split: sum.splits)
  with assms FlowSpecSourcePrefix show ?thesis
    by (simp add: match_holds_no_offset prefix_text_holds_def)
next
  case (FlowSpecDestinationPrefix6 s off)
  with assms obtain q where "ParsePrefix s = Some q" "m' = m\<lparr>HasDst := True, Dst := q, DstOffset := off\<rparr>"
    by (auto simp: parsePrefix_Inr split: sum.splits)
  with assms FlowSpecDestinationPrefix6 show ?thesis by (simp add: match_holds_dst prefix_text_holds_def)
next
  case (FlowSpecSourcePrefix6 s off)
  with assms obtain q where "ParsePrefix s = Some q" "m' = m\<lparr>HasSrc := True, Src := q, SrcOffset := off\<rparr>"
    by (auto simp: parsePrefix_Inr split: sum.splits)
  with assms FlowSpecSourcePrefix6 show ?thesis by (simp add: match_holds_src prefix_text_holds_def)
qed

lemma parseGeneric_unset: "unset m k \<Longrightarrow> k \<noteq> KType t \<Longrightarrow> unset (parseGenericComponent m t its) k"
  by (cases t; cases "(m, k)" rule: unset.cases) simp_all

lemma parseComponent_unset:
  assumes "parseComponent m c = Inr m'" and "unset m k" and "k \<noteq> kind_of c"
  shows "unset m' k"
proof (cases c)
  case (FlowSpecComponent t its)
  with assms show ?thesis by (auto simp: parseGeneric_unset)
qed (use assms in \<open>cases "(m, k)" rule: unset.cases; auto split: sum.splits\<close>)+

lemma parseComponents_sem:
  "parseComponents m cs = Inr m' \<Longrightarrow> \<forall>c\<in>set cs. unset m (kind_of c) \<Longrightarrow> distinct (map kind_of cs) \<Longrightarrow>
   match_holds f m' p \<longleftrightarrow> match_holds f m p \<and> list_all (\<lambda>c. component_holds f c p) cs"
proof (induction cs arbitrary: m)
  case (Cons c cs)
  then obtain m1 where m1: "parseComponent m c = Inr m1" "parseComponents m1 cs = Inr m'"
    by (auto split: sum.splits)
  moreover have "\<forall>c'\<in>set cs. unset m1 (kind_of c')"
    using Cons.prems(2,3) by (intro ballI parseComponent_unset [OF m1(1)]) (auto simp: image_iff)
  ultimately have "match_holds f m' p \<longleftrightarrow> match_holds f m1 p \<and> list_all (\<lambda>c. component_holds f c p) cs"
    using Cons.IH Cons.prems(3) by simp
  with parseComponent_sem [OF m1(1), of f p] Cons.prems(2) show ?case by simp
qed simp

lemma match_holds_zero: "match_holds f Match_zero p"
  by (simp add: match_holds_def fs_l4_matches_def Match_zero_def)

text \<open>Every component kind at most once, as RFC 8955 (section 4.2) requires of a route.\<close>

lemma ParseNLRI_sem:
  "ParseNLRI n attrs = Inr r \<Longrightarrow> distinct (map kind_of (components_of n)) \<Longrightarrow>
   fs_matches r p \<longleftrightarrow> route_matches n p"
  using parseComponents_sem [of Match_zero] unset_zero match_holds_zero
  by (cases n) (auto simp: fs_matches_match_holds split: sum.splits)

section \<open>What cannot be expressed is refused\<close>

text \<open>The mark a component of an unsupported kind leaves on the match.\<close>

fun flagged :: "fs_match \<Rightarrow> comp_kind \<Rightarrow> bool" where
  "flagged m (KType FLOW_SPEC_TYPE_PORT) \<longleftrightarrow> HasGenericPort m"
| "flagged m (KType FLOW_SPEC_TYPE_PKT_LEN) \<longleftrightarrow> HasPacketLen m"
| "flagged m (KType FLOW_SPEC_TYPE_DSCP) \<longleftrightarrow> HasDSCP m"
| "flagged m (KType FLOW_SPEC_TYPE_LABEL) \<longleftrightarrow> HasFlowLabel m"
| "flagged m (KType FLOW_SPEC_TYPE_FRAGMENT) \<longleftrightarrow> Fragment m \<noteq> []"
| "flagged m (KType (FLOW_SPEC_TYPE_OTHER n)) \<longleftrightarrow> HasUnknownComponent m"
| "flagged m KOther \<longleftrightarrow> HasUnknownComponent m"
| "flagged m _ \<longleftrightarrow> False"

text \<open>A component the agent cannot express. An item list on the wire is never empty.\<close>

definition unsupported_component :: "fs_component \<Rightarrow> bool" where
  "unsupported_component c \<longleftrightarrow> \<not> supported_kind (kind_of c) \<and> c \<noteq> FlowSpecComponent FLOW_SPEC_TYPE_FRAGMENT []"

lemma parseGeneric_flagged:
  "unsupported_component (FlowSpecComponent t its) \<Longrightarrow> flagged (parseGenericComponent m t its) (KType t)"
  by (cases t) (auto simp: unsupported_component_def)

lemma parseComponent_flagged:
  "parseComponent m c = Inr m' \<Longrightarrow> unsupported_component c \<Longrightarrow> flagged m' (kind_of c)"
  using parseGeneric_flagged
  by (cases c) (auto simp: unsupported_component_def)

lemma parseGeneric_flagged_mono:
  "flagged m k \<Longrightarrow> k \<noteq> KType t \<Longrightarrow> flagged (parseGenericComponent m t its) k"
  by (cases t; cases "(m, k)" rule: flagged.cases) simp_all

lemma parseComponent_flagged_mono:
  assumes "parseComponent m c = Inr m'" and "flagged m k" and "k \<noteq> kind_of c"
  shows "flagged m' k"
proof (cases c)
  case (FlowSpecComponent t its)
  with assms show ?thesis by (auto simp: parseGeneric_flagged_mono)
qed (use assms in \<open>cases "(m, k)" rule: flagged.cases; auto split: sum.splits\<close>)+

lemma parseComponents_flagged_mono:
  "parseComponents m cs = Inr m' \<Longrightarrow> flagged m k \<Longrightarrow> k \<notin> kind_of ` set cs \<Longrightarrow> flagged m' k"
  by (induction cs arbitrary: m) (auto split: sum.splits dest: parseComponent_flagged_mono)

lemma parseComponents_flagged:
  "parseComponents m cs = Inr m' \<Longrightarrow> distinct (map kind_of cs) \<Longrightarrow> c \<in> set cs \<Longrightarrow>
   unsupported_component c \<Longrightarrow> flagged m' (kind_of c)"
proof (induction cs arbitrary: m)
  case (Cons c0 cs)
  then obtain m1 where m1: "parseComponent m c0 = Inr m1" "parseComponents m1 cs = Inr m'"
    by (auto split: sum.splits)
  show ?case
  proof (cases "c = c0")
    case True
    with parseComponent_flagged [OF m1(1)] Cons.prems have "flagged m1 (kind_of c)" by simp
    with parseComponents_flagged_mono [OF m1(2)] Cons.prems True show ?thesis by simp
  next
    case False
    with Cons.IH [OF m1(2)] Cons.prems show ?thesis by simp
  qed
qed simp

lemma flagged_refused: "flagged m k \<Longrightarrow> checkComponents m \<noteq> Inr ()"
  by (cases "(m, k)" rule: flagged.cases) (simp_all add: checkComponents_def Let_def)

lemma translate_no_flag: "Translate r = Inr a \<Longrightarrow> \<not> flagged (r_Match r) k"
  using flagged_refused by (elim Translate_Inr) blast

lemma ParseNLRI_components:
  "ParseNLRI n attrs = Inr r \<Longrightarrow>
   parseComponents Match_zero (components_of n) = Inr (r_Match r) \<and> r_Action r = parseAction attrs"
  by (cases n) (auto split: sum.splits)

section \<open>Actions\<close>

fun communities_of :: "path_attribute \<Rightarrow> ext_community list" where
  "communities_of (PathAttributeExtendedCommunities ecs) = ecs"
| "communities_of OtherPathAttribute = []"

text \<open>An action other than discarding the traffic.\<close>

fun other_action :: "ext_community \<Rightarrow> bool" where
  "other_action (TrafficRateExtended rate) \<longleftrightarrow> rate \<noteq> 0"
| "other_action OtherExtCommunity \<longleftrightarrow> False"
| "other_action _ \<longleftrightarrow> True"

lemma attr_steps: "foldl attr_step s attrs = foldl action_step s (concat (map communities_of attrs))"
proof (induction attrs arbitrary: s)
  case (Cons x xs)
  then show ?case by (cases x) simp_all
qed simp

lemma action_steps:
  "foldl action_step (d, u) ecs = (d', u') \<Longrightarrow>
   (d' \<longleftrightarrow> d \<or> TrafficRateExtended 0 \<in> set ecs) \<and>
   (u' = msg '''' \<longleftrightarrow> u = msg '''' \<and> \<not> list_ex other_action ecs)"
proof (induction ecs arbitrary: d u)
  case (Cons x xs)
  then show ?case by (cases x) (auto split: if_splits)
qed auto

lemma parseAction_Drop:
  "a_Kind (parseAction attrs) = ActionDrop \<longleftrightarrow>
     TrafficRateExtended 0 \<in> set (concat (map communities_of attrs)) \<and>
     \<not> list_ex other_action (concat (map communities_of attrs))"
proof -
  obtain d u where du: "foldl action_step (False, msg '''') (concat (map communities_of attrs)) = (d, u)"
    by (cases "foldl action_step (False, msg '''') (concat (map communities_of attrs))")
  from action_steps [OF this] show ?thesis
    unfolding parseAction_def attr_steps du by simp
qed

section \<open>Well-formed results\<close>

lemma parse_bits_nonneg: "parse_bits t = Some n \<Longrightarrow> 0 \<le> n"
  by (auto simp: parse_bits_def split: if_splits)

lemma ParseAddr_valid: "ParseAddr t = Some ip \<Longrightarrow> Is4 ip \<or> Is6 ip"
  by (auto simp: ParseAddr_def parseIPv6_def split: list.splits if_splits option.splits)

lemma PrefixFrom_wf:
  assumes "Is4 ip \<or> Is6 ip" and "0 \<le> n" and "n \<le> (if Is6 ip then 128 else 32)"
  shows "prefix_wf (PrefixFrom ip n) \<and> pfx_IsValid (PrefixFrom ip n)"
  using assms by (cases ip) (auto simp: PrefixFrom_def prefix_wf_def pfx_IsValid_def addr_IsValid_def)

lemma ParsePrefix_wf: "ParsePrefix s = Some q \<Longrightarrow> prefix_wf q \<and> pfx_IsValid q"
  by (auto simp: ParsePrefix_def Let_def simp del: split_paired_All
      dest: parse_bits_nonneg ParseAddr_valid intro!: PrefixFrom_wf [THEN conjunct1] PrefixFrom_wf [THEN conjunct2]
      split: list.splits option.splits if_split_asm)

definition match_wf :: "fs_match \<Rightarrow> bool" where
  "match_wf m \<longleftrightarrow> (HasDst m \<longrightarrow> prefix_wf (Dst m) \<and> pfx_IsValid (Dst m)) \<and>
     (HasSrc m \<longrightarrow> prefix_wf (Src m) \<and> pfx_IsValid (Src m))"

lemma parseGeneric_wf:
  "HasDst (parseGenericComponent m t its) = HasDst m" "Dst (parseGenericComponent m t its) = Dst m"
  "HasSrc (parseGenericComponent m t its) = HasSrc m" "Src (parseGenericComponent m t its) = Src m"
  by (cases t; simp)+

lemma parseComponents_wf: "parseComponents m cs = Inr m' \<Longrightarrow> match_wf m \<Longrightarrow> match_wf m'"
proof (induction cs arbitrary: m)
  case (Cons c cs)
  then obtain m1 where m1: "parseComponent m c = Inr m1" "parseComponents m1 cs = Inr m'"
    by (auto split: sum.splits)
  from m1(1) Cons.prems(2) have "match_wf m1"
    by (cases c) (auto simp: parseGeneric_wf match_wf_def parsePrefix_Inr split: sum.splits dest: ParsePrefix_wf)
  with Cons.IH [OF m1(2)] show ?case .
qed simp

lemma default_wf: "prefix_wf (DefaultPrefix f)" "pfx_IsValid (DefaultPrefix f)"
  by (simp_all add: DefaultPrefix_def defaultV4_def defaultV6_def PrefixFrom_def IPv4Unspecified_def
      IPv6Unspecified_def addr_IsValid_def pfx_IsValid_def prefix_wf_def)

lemma Translate_wf: "Translate r = Inr a \<Longrightarrow> match_wf (r_Match r) \<Longrightarrow> acl_wf a"
  by (elim Translate_Inr)
    (auto simp: checkPrefixes_def Let_def ebind_Inr acl_wf_def match_wf_def DstOrDefault_def SrcOrDefault_def
      default_wf split: if_splits)

section \<open>Every refusal is typed\<close>

lemma AsUnsupported_unsupported [simp]: "AsUnsupported (unsupported r d) = Some \<lparr>u_Reason = r, u_Detail = d\<rparr>"
  by (simp add: AsUnsupported_def unsupported_def)

lemma opToSet_typed: "opToSet opr mx = Inl e \<Longrightarrow> \<exists>u. AsUnsupported e = Some u"
  by (cases "nop_LT opr"; cases "nop_GT opr"; cases "nop_EQ opr"; cases "nop_Value opr > mx")
    (auto simp: opToSet_def Let_def split: if_split_asm)

lemma range_loop_typed: "range_loop mx what i s ops = Inl e \<Longrightarrow> \<exists>u. AsUnsupported e = Some u"
proof (induction ops arbitrary: i s)
  case (Cons opr ops)
  then show ?case
    using opToSet_typed [of opr mx]
    by (auto simp: Let_def AsUnsupported_def split: sum.splits)
qed simp

lemma reduceRange_typed: "reduceRange ops mx what = Inl e \<Longrightarrow> \<exists>u. AsUnsupported e = Some u"
proof -
  assume e: "reduceRange ops mx what = Inl e"
  let ?loop = "range_loop mx what 0 \<lparr>rs_result = [], rs_cur = [], rs_started = False\<rparr> ops"
  show ?thesis
  proof (cases ?loop)
    case (Inl e')
    with e have "e' = e" by (auto simp: reduceRange_def split: if_splits)
    with Inl range_loop_typed show ?thesis by blast
  next
    case (Inr s)
    with e show ?thesis by (auto simp: reduceRange_def split: if_splits list.splits)
  qed
qed

lemma tcp_loop_typed: "tcp_loop i S C ops = Inl e \<Longrightarrow> \<exists>u. AsUnsupported e = Some u"
  by (induction i S C ops rule: tcp_loop.induct) (auto simp: Let_def split: if_splits)

lemma reductions_typed:
  "reduceProto ops = Inl e \<Longrightarrow> \<exists>u. AsUnsupported e = Some u"
  "reduceExact ops what = Inl e \<Longrightarrow> \<exists>u. AsUnsupported e = Some u"
  "reduceTCPFlags bops = Inl e \<Longrightarrow> \<exists>u. AsUnsupported e = Some u"
  "requireProto b w mm pr = Inl e \<Longrightarrow> \<exists>u. AsUnsupported e = Some u"
  "checkPorts m pr = Inl e \<Longrightarrow> \<exists>u. AsUnsupported e = Some u"
  "checkComponents m = Inl e \<Longrightarrow> \<exists>u. AsUnsupported e = Some u"
  "checkPrefixes f m = Inl e \<Longrightarrow> \<exists>u. AsUnsupported e = Some u"
  "l4Ranges m b ty co = Inl e \<Longrightarrow> \<exists>u. AsUnsupported e = Some u"
  by (auto simp: reduceProto_def reduceExact_def reduceTCPFlags_def requireProto_def checkPorts_def
      checkComponents_def checkPrefixes_def checkFamily_def l4Ranges_def Let_def ebind_Inl
      split: list.splits if_splits dest: tcp_loop_typed reduceRange_typed)

lemma Translate_typed: "Translate r = Inl e \<Longrightarrow> \<exists>u. AsUnsupported e = Some u"
  unfolding Translate_def Let_def ebind_Inl
  by (auto simp: ebind_Inl dest: reductions_typed split: if_split_asm prod.splits)

section \<open>A sample route\<close>

text \<open>UDP to port 53 of 203.0.113.0/24, discarded; and a packet it matches.\<close>

definition sample_nlri :: nlri where
  "sample_nlri = FlowSpecIPv4Unicast
     [FlowSpecDestinationPrefix ''203.0.113.0/24'',
      FlowSpecComponent FLOW_SPEC_TYPE_IP_PROTO [\<lparr>it_Op = 0x81, it_Value = 17\<rparr>],
      FlowSpecComponent FLOW_SPEC_TYPE_DST_PORT [\<lparr>it_Op = 0x81, it_Value = 53\<rparr>]] ''sample''"

definition sample_attrs :: "path_attribute list" where
  "sample_attrs = [OtherPathAttribute, PathAttributeExtendedCommunities [TrafficRateExtended 0]]"

definition sample_rule :: fs_rule where
  "sample_rule = \<lparr>r_Family = FamilyIPv4,
     r_Match = Match_zero\<lparr>HasDst := True, Dst := \<lparr>pfx_Addr = Addr4 0xCB007100, pfx_Bits = 24\<rparr>,
       m_Proto := [\<lparr>nop_And = False, nop_LT = False, nop_GT = False, nop_EQ = True, nop_Value = 17\<rparr>],
       DstPort := [\<lparr>nop_And = False, nop_LT = False, nop_GT = False, nop_EQ = True, nop_Value = 53\<rparr>]\<rparr>,
     r_Action = \<lparr>a_Kind = ActionDrop, a_Desc = msg ''traffic-rate=0''\<rparr>, r_Raw = ''sample''\<rparr>"

definition sample_entry :: ACLRule where
  "sample_entry = \<lparr>IsIPv6 = False, Permit = False,
     acl_Src = \<lparr>pfx_Addr = Addr4 0, pfx_Bits = 0\<rparr>, acl_Dst = \<lparr>pfx_Addr = Addr4 0xCB007100, pfx_Bits = 24\<rparr>,
     acl_Proto = 17, SrcPortOrICMPTypeFirst = 0, SrcPortOrICMPTypeLast = 65535,
     DstPortOrICMPCodeFirst = 53, DstPortOrICMPCodeLast = 53, TCPFlagsMask = 0, TCPFlagsValue = 0\<rparr>"

definition sample_packet :: packet where
  "sample_packet = \<lparr>pk_IPv6 = False, pk_Src = Addr4 0x08080808, pk_Dst = Addr4 0xCB007105, pk_Proto = 17,
     pk_SrcPort = 4000, pk_DstPort = 53, pk_ICMPType = 0, pk_ICMPCode = 0, pk_TCPFlags = 0\<rparr>"

lemma sample_prefix: "ParsePrefix ''203.0.113.0/24'' = Some \<lparr>pfx_Addr = Addr4 0xCB007100, pfx_Bits = 24\<rparr>"
  by code_simp

lemma sample_parses: "ParseNLRI sample_nlri sample_attrs = Inr sample_rule"
  by (simp add: sample_nlri_def sample_attrs_def sample_rule_def parsePrefix_def sample_prefix parseAction_def
      Match_zero_def numericOps_def numOpEQ_def numOpGT_def numOpLT_def numOpAND_def)

lemma sample_translates: "Translate sample_rule = Inr sample_entry"
  by code_simp

lemma sample_side:
  "distinct (map kind_of (components_of sample_nlri))" "\<not> protocol_zero sample_rule" "packet_wf sample_packet"
  by (simp_all add: sample_nlri_def sample_rule_def sample_packet_def protocol_zero_def packet_wf_def)

section \<open>Properties of the translation\<close>



text \<open>
  C3: A route with a component the agent cannot express is never installed, whatever else it
  holds: the translation of the parsed rule is a refusal of the type \<^verbatim>\<open>Unsupported\<close>.
\<close>

theorem unsupported_route_refused:
  assumes "ParseNLRI n attrs = Inr r" and "distinct (map kind_of (components_of n))"
    and "c \<in> set (components_of n)" and "unsupported_component c"
  shows "\<exists>e u. Translate r = Inl e \<and> AsUnsupported e = Some u"
proof -
  have "flagged (r_Match r) (kind_of c)"
    using parseComponents_flagged ParseNLRI_components [OF assms(1)] assms(2-4) by blast
  then obtain e where "Translate r = Inl e" by (cases "Translate r") (auto dest: translate_no_flag)
  with Translate_typed show ?thesis by blast
qed

theorem unsupported_route_refused_witness:
  "\<exists>e u. Translate \<lparr>r_Family = FamilyIPv6, r_Match = Match_zero\<lparr>HasDSCP := True\<rparr>,
      r_Action = parseAction [], r_Raw = ''x''\<rparr> = Inl e \<and> AsUnsupported e = Some u"
  by (rule unsupported_route_refused [of "FlowSpecIPv6Unicast [FlowSpecComponent FLOW_SPEC_TYPE_DSCP []] ''x''"
      "[]" _ "FlowSpecComponent FLOW_SPEC_TYPE_DSCP []"]) (simp_all add: unsupported_component_def)




text \<open>
  C4: \<^verbatim>\<open>reduceRange\<close> accepts a numeric operator list exactly when every operand it reads is in
  range and the values the list matches form one non-empty contiguous range; the result is that
  range. Disjunctions, gaps and contradictions are never approximated.
\<close>

theorem reduceRange_exact:
  "reduceRange ops mx what = Inr (lo, hi) \<longleftrightarrow>
     (\<forall>opr\<in>set ops. operand_ok mx opr) \<and> lo \<le> hi \<and> {x. x \<le> mx \<and> numeric_ops_hold ops x} = {lo..hi}"
  by (rule reduceRange_iff)

theorem reduceRange_exact_witness:
  "{x. x \<le> 65535 \<and> numeric_ops_hold
      [\<lparr>nop_And = False, nop_LT = False, nop_GT = True, nop_EQ = True, nop_Value = 1000\<rparr>,
       \<lparr>nop_And = True, nop_LT = True, nop_GT = False, nop_EQ = False, nop_Value = 2000\<rparr>] x} = {1000..1999}"
proof -
  have "reduceRange
      [\<lparr>nop_And = False, nop_LT = False, nop_GT = True, nop_EQ = True, nop_Value = 1000\<rparr>,
       \<lparr>nop_And = True, nop_LT = True, nop_GT = False, nop_EQ = False, nop_Value = 2000\<rparr>] 65535 ''port'' =
      Inr (1000, 1999)" by code_simp
  then show ?thesis unfolding reduceRange_exact by blast
qed

text \<open>
  C5: The value and mask that \<^verbatim>\<open>reduceTCPFlags\<close> returns accept exactly the flag bytes on which
  the bitmask operator list holds.
\<close>

theorem reduceTCPFlags_exact:
  assumes "reduceTCPFlags ops = Inr (v, m, present)"
  shows "(\<forall>flags. flags AND m = v \<longleftrightarrow> bitmask_ops_hold ops flags) \<and> present = (ops \<noteq> [])"
  using reduceTCPFlags_sem [OF assms] by blast

theorem reduceTCPFlags_exact_witness:
  "\<forall>flags. flags AND 0x12 = 2 \<longleftrightarrow> bitmask_ops_hold
     [\<lparr>bop_And = False, bop_Not = False, bop_Match = True, bop_Value = 2\<rparr>,
      \<lparr>bop_And = True, bop_Not = True, bop_Match = False, bop_Value = 16\<rparr>] flags"
proof -
  have "reduceTCPFlags
     [\<lparr>bop_And = False, bop_Not = False, bop_Match = True, bop_Value = 2\<rparr>,
      \<lparr>bop_And = True, bop_Not = True, bop_Match = False, bop_Value = 16\<rparr>] = Inr (2, 0x12, True)"
    by code_simp
  from reduceTCPFlags_exact [OF this] show ?thesis by blast
qed

text \<open>
  The action of a route is a drop exactly when some extended community is the traffic rate
  0 and none is another action (a rate, a redirect, a marking, a sampling action). A route with
  no action is not dropped.
\<close>

theorem action_drop_iff:
  "a_Kind (parseAction attrs) = ActionDrop \<longleftrightarrow>
     TrafficRateExtended 0 \<in> set (concat (map communities_of attrs)) \<and>
     \<not> list_ex other_action (concat (map communities_of attrs))"
  by (rule parseAction_Drop)

text \<open>
  C6: The entry of a parsed route is a deny entry of the route's family with two valid
  prefixes, and its key identifies it: two such entries with the same key are equal.
\<close>

theorem translated_entry_identified:
  assumes "ParseNLRI n attrs = Inr r" and "Translate r = Inr a"
    and "ParseNLRI n' attrs' = Inr r'" and "Translate r' = Inr a'"
  shows "\<not> Permit a \<and> acl_wf a \<and> (IsIPv6 a \<longleftrightarrow> r_Family r = FamilyIPv6) \<and> (Key a = Key a' \<longleftrightarrow> a = a')"
proof -
  have wf0: "match_wf Match_zero" by (simp add: match_wf_def Match_zero_def)
  have "acl_wf a" "acl_wf a'"
    using assms parseComponents_wf [OF _ wf0] ParseNLRI_components Translate_wf by blast+
  moreover have "\<not> Permit a \<and> (IsIPv6 a \<longleftrightarrow> r_Family r = FamilyIPv6)"
    using assms(2) by (elim Translate_Inr) simp
  ultimately show ?thesis by (simp add: Key_inject_wf)
qed

theorem translated_entry_identified_witness:
  "\<not> Permit sample_entry \<and> acl_wf sample_entry \<and> \<not> IsIPv6 sample_entry"
  using translated_entry_identified
    [OF sample_parses sample_translates sample_parses sample_translates]
  by (simp add: sample_rule_def)

text \<open>
  C7: Whatever rule the translation refuses, the error carries a typed reason, also when it is
  wrapped: \<^verbatim>\<open>AsUnsupported\<close> finds it.
\<close>

theorem translate_refusal_typed:
  "case Translate r of Inl e \<Rightarrow> \<exists>u. AsUnsupported e = Some u | Inr a \<Rightarrow> \<not> Permit a"
proof (cases "Translate r")
  case (Inl e)
  with Translate_typed show ?thesis by simp
next
  case (Inr a)
  then show ?thesis by (elim Translate_Inr) (simp add: Inr)
qed

end
