(* ===== verification/Manager.thy ===== *)
theory Manager
  imports Pipeline
begin

text \<open>
  Package \<^verbatim>\<open>internal/manager\<close> with the events of \<^verbatim>\<open>internal/bgp/event.go\<close>: the single owner of
  the desired state. It counts, for every ACL key, how many routes of every session ask for it,
  and pushes the resulting set to the backend of a family whenever that set changes. The state
  is passed explicitly. The order in which Go enumerates a map is a field of the environment,
  so nothing below depends on it; logging is left out.
\<close>

section \<open>Events (event.go)\<close>

datatype Op = OpAnnounce | OpWithdraw | OpSessionDown | OpResync

fun op_String :: "Op \<Rightarrow> string" where
  "op_String OpAnnounce = ''announce''"
| "op_String OpWithdraw = ''withdraw''"
| "op_String OpSessionDown = ''session_down''"
| "op_String OpResync = ''resync''"

type_synonym SessionID = string

record Update =
  u_Session :: SessionID
  u_Op :: Op
  u_Rule :: "fs_rule option"
  u_Peer :: string

section \<open>State (manager.go)\<close>

text \<open>The calls on the \<^verbatim>\<open>Metrics\<close> interface, in order.\<close>

datatype metric_event =
    RuleApplied string string
  | RuleIgnored string string string
  | SetACLEntries string nat

record entry =
  e_acl :: ACLRule
  e_family :: vpp_family
  e_owners :: "(SessionID, nat) gomap"

record 'b manager =
  m_backend :: 'b
  m_metrics :: "metric_event list"
  entries :: "(string, entry) gomap"
  sessionRules :: "(SessionID, string list) gomap"
  sessionRoutes :: "(SessionID, (string, string) gomap) gomap"

text \<open>
  What the manager calls: the backend, which may fail; the text \<^verbatim>\<open>%#v\<close> of a match; and the
  order in which a set of families and a set of keys is enumerated.
\<close>

record 'b mgr_env =
  ReplaceACL :: "'b \<Rightarrow> vpp_family \<Rightarrow> ACLRule list \<Rightarrow> bool \<times> 'b"
  fmt_match :: "fs_match \<Rightarrow> string"
  range_families :: "vpp_family list \<Rightarrow> vpp_family list"
  range_keys :: "string list \<Rightarrow> string list"

definition New :: "'b \<Rightarrow> 'b manager" where
  "New backend = \<lparr>m_backend = backend, m_metrics = [], entries = [], sessionRules = [], sessionRoutes = []\<rparr>"

definition familyOf :: "ACLRule \<Rightarrow> vpp_family" where
  "familyOf acl = (if IsIPv6 acl then IPv6 else IPv4)"

section \<open>Reference counts (refcount.go)\<close>

text \<open>The result is the new state and whether the entry just came to have an owner.\<close>

definition addOwner :: "string \<Rightarrow> ACLRule \<Rightarrow> vpp_family \<Rightarrow> SessionID \<Rightarrow> 'b manager \<Rightarrow> 'b manager \<times> bool" where
  "addOwner key acl fam session m =
     (let (e, created) = (case map_of (entries m) key of
            Some e \<Rightarrow> (e, False)
          | None \<Rightarrow> (\<lparr>e_acl = acl, e_family = fam, e_owners = []\<rparr>, True));
          wasEmpty = (e_owners e = []);
          e' = e\<lparr>e_owners := gput session (gget 0 (e_owners e) session + 1) (e_owners e)\<rparr>;
          sr = gget [] (sessionRules m) session
      in (m\<lparr>entries := gput key e' (entries m),
            sessionRules := gput session (sput key sr) (sessionRules m)\<rparr>,
          created \<or> wasEmpty))"

definition removeOwner :: "string \<Rightarrow> SessionID \<Rightarrow> 'b manager \<Rightarrow> 'b manager \<times> bool" where
  "removeOwner key session m =
     (case map_of (entries m) key of
        None \<Rightarrow> (m, False)
      | Some e \<Rightarrow>
          let n = gget 0 (e_owners e) session
          in if n = 0 then (m, False)
             else
               let owners' = (if n = 1 then gdel session (e_owners e) else gput session (n - 1) (e_owners e));
                   rules' = (case map_of (sessionRules m) session of
                       None \<Rightarrow> sessionRules m
                     | Some sr \<Rightarrow>
                         if gget 0 owners' session = 0 then
                           let sr' = removeAll key sr
                           in if sr' = [] then gdel session (sessionRules m)
                              else gput session sr' (sessionRules m)
                         else sessionRules m)
               in if owners' = [] then
                    (m\<lparr>entries := gdel key (entries m), sessionRules := rules'\<rparr>, True)
                  else
                    (m\<lparr>entries := gput key (e\<lparr>e_owners := owners'\<rparr>) (entries m), sessionRules := rules'\<rparr>, False))"

definition removeSessionOwner :: "string \<Rightarrow> SessionID \<Rightarrow> 'b manager \<Rightarrow> 'b manager \<times> bool" where
  "removeSessionOwner key session m =
     (case map_of (entries m) key of
        None \<Rightarrow> (m, False)
      | Some e \<Rightarrow>
          if gget 0 (e_owners e) session = 0 then (m, False)
          else
            let owners' = gdel session (e_owners e)
            in if owners' = [] then (m\<lparr>entries := gdel key (entries m)\<rparr>, True)
               else (m\<lparr>entries := gput key (e\<lparr>e_owners := owners'\<rparr>) (entries m)\<rparr>, False))"

definition routeKey :: "string \<Rightarrow> SessionID \<Rightarrow> 'b manager \<Rightarrow> string option" where
  "routeKey routeID session m =
     (case map_of (sessionRoutes m) session of None \<Rightarrow> None | Some routes \<Rightarrow> map_of routes routeID)"

definition rememberRoute :: "string \<Rightarrow> string \<Rightarrow> SessionID \<Rightarrow> 'b manager \<Rightarrow> 'b manager" where
  "rememberRoute routeID key session m =
     m\<lparr>sessionRoutes := gput session (gput routeID key (gget [] (sessionRoutes m) session)) (sessionRoutes m)\<rparr>"

definition forgetRoute :: "string \<Rightarrow> SessionID \<Rightarrow> string \<Rightarrow> 'b manager \<Rightarrow> 'b manager" where
  "forgetRoute routeID session key m =
     (case map_of (sessionRoutes m) session of
        None \<Rightarrow> m
      | Some routes \<Rightarrow>
          if gget '''' routes routeID \<noteq> key then m
          else
            let routes' = gdel routeID routes
            in if routes' = [] then m\<lparr>sessionRoutes := gdel session (sessionRoutes m)\<rparr>
               else m\<lparr>sessionRoutes := gput session routes' (sessionRoutes m)\<rparr>)"

definition removeRoute :: "string \<Rightarrow> SessionID \<Rightarrow> 'b manager \<Rightarrow> 'b manager \<times> vpp_family \<times> bool" where
  "removeRoute routeID session m =
     (case routeKey routeID session m of
        None \<Rightarrow> (m, IPv4, False)
      | Some key \<Rightarrow>
          let m1 = forgetRoute routeID session key m
          in case map_of (entries m1) key of
               None \<Rightarrow> (m1, IPv4, False)
             | Some e \<Rightarrow> (let (m2, d) = removeOwner key session m1 in (m2, e_family e, d)))"

definition replaceRoute ::
  "string \<Rightarrow> string \<Rightarrow> SessionID \<Rightarrow> 'b manager \<Rightarrow> 'b manager \<times> vpp_family \<times> bool" where
  "replaceRoute routeID newKey session m =
     (case routeKey routeID session m of
        None \<Rightarrow> (m, IPv4, False)
      | Some oldKey \<Rightarrow>
          if oldKey = newKey then (m, IPv4, False) else removeRoute routeID session m)"

definition routeIdentity :: "'b mgr_env \<Rightarrow> fs_rule \<Rightarrow> string" where
  "routeIdentity env r =
     (if r_Raw r \<noteq> '''' then r_Raw r
      else family_String (r_Family r) @ '':'' @ fmt_match env (r_Match r))"

section \<open>Reconciliation (reconcile.go)\<close>

definition desired :: "vpp_family \<Rightarrow> 'b manager \<Rightarrow> ACLRule list" where
  "desired fam m =
     map (\<lambda>k. e_acl (the (map_of (entries m) k)))
       (sort (map fst (filter (\<lambda>(k, e). e_family e = fam \<and> e_owners e \<noteq> []) (entries m))))"

definition reconcile :: "'b mgr_env \<Rightarrow> vpp_family \<Rightarrow> 'b manager \<Rightarrow> 'b manager" where
  "reconcile env fam m =
     (let rules = desired fam m;
          (ok, b') = ReplaceACL env (m_backend m) fam rules
      in if \<not> ok then m\<lparr>m_backend := b'\<rparr>
         else m\<lparr>m_backend := b',
                m_metrics := m_metrics m @ [SetACLEntries (vpp_family_String fam) (length rules)]\<rparr>)"

section \<open>Handlers (manager.go)\<close>

definition reconcile_all :: "'b mgr_env \<Rightarrow> vpp_family list \<Rightarrow> 'b manager \<Rightarrow> 'b manager" where
  "reconcile_all env fams m = fold (reconcile env) (range_families env fams) m"

definition resync :: "'b mgr_env \<Rightarrow> 'b manager \<Rightarrow> 'b manager" where
  "resync env m = reconcile env IPv6 (reconcile env IPv4 m)"

definition reportIgnored :: "fs_rule \<Rightarrow> string \<Rightarrow> terr \<Rightarrow> 'b manager \<Rightarrow> 'b manager" where
  "reportIgnored r peer err m =
     (let reason = (case AsUnsupported err of
            Some u \<Rightarrow> reason_String (u_Reason u)
          | None \<Rightarrow> reason_String ReasonUnsupportedComponent)
      in m\<lparr>m_metrics := m_metrics m @ [RuleIgnored reason (family_String (r_Family r)) peer]\<rparr>)"

definition announce :: "'b mgr_env \<Rightarrow> Update \<Rightarrow> 'b manager \<Rightarrow> 'b manager" where
  "announce env u m =
     (case u_Rule u of
        None \<Rightarrow> m
      | Some r \<Rightarrow>
          let routeID = routeIdentity env r
          in case Translate r of
               Inl err \<Rightarrow>
                 (let (m1, fam, dirty) = removeRoute routeID (u_Session u) m;
                      dirtyFams = (if dirty then [fam] else []);
                      m2 = reportIgnored r (u_Peer u) err m1
                  in reconcile_all env dirtyFams m2)
             | Inr acl \<Rightarrow>
                 let key = Key acl; fam = familyOf acl; oldKey = routeKey routeID (u_Session u) m
                 in if oldKey = Some key then m
                    else
                      let (m1, oldFam, dirty1) = replaceRoute routeID key (u_Session u) m;
                          dirtyFams1 = (if dirty1 then [oldFam] else []);
                          (m2, dirty) = addOwner key acl fam (u_Session u) m1;
                          m3 = rememberRoute routeID key (u_Session u) m2;
                          m4 = (if dirty then m3\<lparr>m_metrics := m_metrics m3 @
                                  [RuleApplied (family_String (r_Family r)) (u_Peer u)]\<rparr> else m3);
                          dirtyFams2 = (if dirty then sput fam dirtyFams1 else dirtyFams1)
                      in reconcile_all env dirtyFams2 m4)"

definition withdraw :: "'b mgr_env \<Rightarrow> Update \<Rightarrow> 'b manager \<Rightarrow> 'b manager" where
  "withdraw env u m =
     (case u_Rule u of
        None \<Rightarrow> m
      | Some r \<Rightarrow>
          let (m1, fam, dirty) = removeRoute (routeIdentity env r) (u_Session u) m
          in if dirty then reconcile env fam m1 else m1)"

text \<open>One iteration of the loop over the keys of a session, with the set of dirty families.\<close>

definition down_step :: "SessionID \<Rightarrow> string \<Rightarrow> 'b manager \<times> vpp_family list \<Rightarrow> 'b manager \<times> vpp_family list" where
  "down_step session key s =
     (case map_of (entries (fst s)) key of
        None \<Rightarrow> s
      | Some e \<Rightarrow>
          let (m', d) = removeSessionOwner key session (fst s)
          in (m', if d then sput (e_family e) (snd s) else snd s))"

definition sessionDown :: "'b mgr_env \<Rightarrow> Update \<Rightarrow> 'b manager \<Rightarrow> 'b manager" where
  "sessionDown env u m =
     (let session = u_Session u; keys = gget [] (sessionRules m) session
      in if keys = [] then m\<lparr>sessionRules := gdel session (sessionRules m)\<rparr>
         else
           let (m1, dirty) = fold (down_step session) (range_keys env keys) (m, []);
               m2 = m1\<lparr>sessionRules := gdel session (sessionRules m1),
                       sessionRoutes := gdel session (sessionRoutes m1)\<rparr>
           in reconcile_all env dirty m2)"

definition Apply :: "'b mgr_env \<Rightarrow> Update \<Rightarrow> 'b manager \<Rightarrow> 'b manager" where
  "Apply env u m =
     (case u_Op u of
        OpAnnounce \<Rightarrow> announce env u m
      | OpWithdraw \<Rightarrow> withdraw env u m
      | OpSessionDown \<Rightarrow> sessionDown env u m
      | OpResync \<Rightarrow> resync env m)"

text \<open>The updates \<^verbatim>\<open>Run\<close> takes from its channel before it is closed or the context is cancelled.\<close>

definition Run :: "'b mgr_env \<Rightarrow> Update list \<Rightarrow> 'b manager \<Rightarrow> 'b manager" where
  "Run env updates m = fold (Apply env) updates m"

end
