(* ===== verification/VppClient.thy ===== *)
theory VppClient
  imports Manager
begin

text \<open>
  Package \<^verbatim>\<open>internal/vpp\<close>, the GoVPP client: the conversion of entries, the two managed ACLs, their
  attachment to the interfaces, the start, the reconnection and the clean-up. The binary API of
  VPP is not part of the repository: its calls are the fields of an environment record over an
  abstract state \<open>'v\<close> of the data plane, and its prefixes are an abstract type \<open>'p\<close>. Every
  operation holds \<^verbatim>\<open>opMu\<close> from beginning to end, so an operation is one atomic step here.
\<close>

section \<open>The binary API\<close>

record 'p bin_rule =
  IsPermit :: bool
  SrcPrefix :: 'p
  DstPrefix :: 'p
  br_Proto :: u8
  SrcportOrIcmptypeFirst :: u16
  SrcportOrIcmptypeLast :: u16
  DstportOrIcmpcodeFirst :: u16
  DstportOrIcmpcodeLast :: u16
  br_TCPFlagsMask :: u8
  br_TCPFlagsValue :: u8



text \<open>A dump is a stream: its elements, and the error that ended it unless it ended regularly.\<close>

type_synonym 'a dump = "'a list \<times> verr option"

record acl_details =
  d_ACLIndex :: u32
  d_Tag :: string

record iface_acls =
  d_SwIfIndex :: u32
  d_NInput :: u8
  d_Acls :: "u32 list"

record iface_details =
  sw_SwIfIndex :: u32
  sw_InterfaceName :: string

record ('v, 'p) vpp_api =
  ip_ParsePrefix :: "string \<Rightarrow> verr + 'p"
  ACLAddReplace :: "u32 \<Rightarrow> string \<Rightarrow> u32 \<Rightarrow> 'p bin_rule list \<Rightarrow> 'v \<Rightarrow> (verr + u32) \<times> 'v"
  ACLDel :: "u32 \<Rightarrow> 'v \<Rightarrow> (verr + unit) \<times> 'v"
  ACLDump :: "'v \<Rightarrow> verr + acl_details dump"
  ACLInterfaceListDump :: "'v \<Rightarrow> verr + iface_acls dump"
  ACLInterfaceSetACLList :: "u32 \<Rightarrow> u8 \<Rightarrow> u8 \<Rightarrow> u32 list \<Rightarrow> 'v \<Rightarrow> (verr + unit) \<times> 'v"
  SwInterfaceDump :: "'v \<Rightarrow> verr + iface_details dump"
  range_ifaces :: "u32 list \<Rightarrow> u32 list"

text \<open>The loop around \<^verbatim>\<open>stream.Recv\<close>: an error discards what was received.\<close>

definition recv_all :: "string \<Rightarrow> 'a dump \<Rightarrow> verr + 'a list" where
  "recv_all what d = (case snd d of None \<Rightarrow> Inr (fst d) | Some e \<Rightarrow> Inl (Wrapf (msg (what @ '' recv: %w'')) e))"

section \<open>Conversion (convert.go)\<close>

definition toBinapiPrefix :: "('v, 'p) vpp_api \<Rightarrow> prefix \<Rightarrow> verr + 'p" where
  "toBinapiPrefix api p = ip_ParsePrefix api (pfx_String p)"

definition toBinapiRule :: "('v, 'p) vpp_api \<Rightarrow> ACLRule \<Rightarrow> verr + 'p bin_rule" where
  "toBinapiRule api r =
     ebind (toBinapiPrefix api (acl_Dst r)) (\<lambda>pfx.
     ebind (toBinapiPrefix api (acl_Src r)) (\<lambda>src.
     Inr \<lparr>IsPermit = Permit r, SrcPrefix = src, DstPrefix = pfx, br_Proto = acl_Proto r,
          SrcportOrIcmptypeFirst = SrcPortOrICMPTypeFirst r, SrcportOrIcmptypeLast = SrcPortOrICMPTypeLast r,
          DstportOrIcmpcodeFirst = DstPortOrICMPCodeFirst r, DstportOrIcmpcodeLast = DstPortOrICMPCodeLast r,
          br_TCPFlagsMask = TCPFlagsMask r, br_TCPFlagsValue = TCPFlagsValue r\<rparr>))"

section \<open>Client state (client.go)\<close>

definition aclIndexUnset :: u32 where
  "aclIndexUnset = NOT 0"

record ClientConfig =
  Socket :: string
  InterfaceMode :: string
  InterfaceList :: "string list"
  cfg_Direction :: direction
  ACLTagV4 :: string
  ACLTagV6 :: string

text \<open>The client with the data plane it is connected to.\<close>

record 'v client =
  cl_cfg :: ClientConfig
  cl_idx :: "(vpp_family, u32) gomap"
  cl_vpp :: 'v

section \<open>Managed ACLs (acl.go)\<close>

definition permitAny :: "vpp_family \<Rightarrow> ACLRule" where
  "permitAny family =
     (let pfx = (if family = IPv6 then PrefixFrom IPv6Unspecified 0 else PrefixFrom IPv4Unspecified 0)
      in \<lparr>IsIPv6 = (family = IPv6), Permit = True, acl_Src = pfx, acl_Dst = pfx, acl_Proto = 0,
          SrcPortOrICMPTypeFirst = 0, SrcPortOrICMPTypeLast = 65535,
          DstPortOrICMPCodeFirst = 0, DstPortOrICMPCodeLast = 65535, TCPFlagsMask = 0, TCPFlagsValue = 0\<rparr>)"

fun convert_rules :: "('v, 'p) vpp_api \<Rightarrow> ACLRule list \<Rightarrow> verr + 'p bin_rule list" where
  "convert_rules api [] = Inr []"
| "convert_rules api (r # rs) =
     (case toBinapiRule api r of
        Inl e \<Rightarrow> Inl (Wrapf (msg ''convert rule: %w'') e)
      | Inr br \<Rightarrow> ebind (convert_rules api rs) (\<lambda>brs. Inr (br # brs)))"

definition buildACLRules :: "('v, 'p) vpp_api \<Rightarrow> vpp_family \<Rightarrow> ACLRule list \<Rightarrow> verr + 'p bin_rule list" where
  "buildACLRules api family rules =
     ebind (convert_rules api rules) (\<lambda>out.
     case toBinapiRule api (permitAny family) of
       Inl e \<Rightarrow> Inl (Wrapf (msg ''build permit-any: %w'') e)
     | Inr permit \<Rightarrow> Inr (out @ [permit]))"

text \<open>The state after a call and its result.\<close>

type_synonym ('v, 'a) result = "(verr + 'a) \<times> 'v client"

definition replaceACLLocked ::
  "('v, 'p) vpp_api \<Rightarrow> vpp_family \<Rightarrow> ACLRule list \<Rightarrow> 'v client \<Rightarrow> ('v, unit) result" where
  "replaceACLLocked api family rules c =
     (case buildACLRules api family rules of
        Inl e \<Rightarrow> (Inl e, c)
      | Inr binRules \<Rightarrow>
          let index = gget 0 (cl_idx c) family;
              tag = (if family = IPv6 then ACLTagV6 (cl_cfg c) else ACLTagV4 (cl_cfg c))
          in case ACLAddReplace api index tag (word_of_nat (length binRules)) binRules (cl_vpp c) of
               (Inl e, v) \<Rightarrow> (Inl (Wrapf (Sprintf ''acl_add_replace (%s): %w'' [FStr (vpp_family_String family)]) e),
                             c\<lparr>cl_vpp := v\<rparr>)
             | (Inr i, v) \<Rightarrow> (Inr (), c\<lparr>cl_idx := gput family i (cl_idx c), cl_vpp := v\<rparr>))"

definition ReplaceACL_client ::
  "('v, 'p) vpp_api \<Rightarrow> 'v client \<Rightarrow> vpp_family \<Rightarrow> ACLRule list \<Rightarrow> bool \<times> 'v client" where
  "ReplaceACL_client api c family rules =
     (let (r, c') = replaceACLLocked api family rules c in (\<not> isl r, c'))"

definition aclIndices :: "'v client \<Rightarrow> u32 list" where
  "aclIndices c =
     (if gget 0 (cl_idx c) IPv4 \<noteq> aclIndexUnset then [gget 0 (cl_idx c) IPv4] else []) @
     (if gget 0 (cl_idx c) IPv6 \<noteq> aclIndexUnset then [gget 0 (cl_idx c) IPv6] else [])"

section \<open>Tagged ACLs (cleanup.go)\<close>

text \<open>\<^verbatim>\<open>strings.TrimRight(s, "\x00")\<close>\<close>

definition trim_nul :: "string \<Rightarrow> string" where
  "trim_nul s = rev (dropWhile (\<lambda>c. c = CHR 0x00) (rev s))"

definition managedTag :: "ClientConfig \<Rightarrow> string \<Rightarrow> bool" where
  "managedTag cfg tag =
     (let t = trim_nul tag in t \<noteq> '''' \<and> (t = ACLTagV4 cfg \<or> t = ACLTagV6 cfg))"

definition taggedACLs :: "('v, 'p) vpp_api \<Rightarrow> 'v client \<Rightarrow> verr + u32 list" where
  "taggedACLs api c =
     (case ACLDump api (cl_vpp c) of
        Inl e \<Rightarrow> Inl (Wrapf (msg ''acl_dump: %w'') e)
      | Inr stream \<Rightarrow>
          ebind (recv_all ''acl_dump'' stream) (\<lambda>ds.
          Inr (map d_ACLIndex (filter (\<lambda>d. managedTag (cl_cfg c) (d_Tag d)) ds))))"

text \<open>Deleting a list of ACLs, best effort: a failure is logged and the loop goes on.\<close>

fun delete_acls :: "('v, 'p) vpp_api \<Rightarrow> u32 list \<Rightarrow> 'v client \<Rightarrow> 'v client" where
  "delete_acls api [] c = c"
| "delete_acls api (i # is) c = delete_acls api is (c\<lparr>cl_vpp := snd (ACLDel api i (cl_vpp c))\<rparr>)"

definition cleanupTaggedExcept :: "('v, 'p) vpp_api \<Rightarrow> u32 list \<Rightarrow> 'v client \<Rightarrow> 'v client" where
  "cleanupTaggedExcept api keep c =
     (case taggedACLs api c of
        Inl e \<Rightarrow> c
      | Inr indices \<Rightarrow> delete_acls api (filter (\<lambda>i. i \<notin> set keep) indices) c)"

section \<open>Attachment (attach.go)\<close>

record aclList =
  al_acls :: "u32 list"
  al_nInput :: u8

definition aclList_zero :: aclList where
  "aclList_zero = \<lparr>al_acls = [], al_nInput = 0\<rparr>"

definition interfaceACLLists :: "('v, 'p) vpp_api \<Rightarrow> 'v client \<Rightarrow> verr + (u32, aclList) gomap" where
  "interfaceACLLists api c =
     (case ACLInterfaceListDump api (cl_vpp c) of
        Inl e \<Rightarrow> Inl (Wrapf (msg ''acl_interface_list_dump: %w'') e)
      | Inr stream \<Rightarrow>
          ebind (recv_all ''acl_interface_list_dump'' stream) (\<lambda>ds.
          Inr (foldl (\<lambda>out d. gput (d_SwIfIndex d) \<lparr>al_acls = d_Acls d, al_nInput = d_NInput d\<rparr> out) [] ds)))"

text \<open>
  The loop of \<^verbatim>\<open>splitNonManaged\<close>. The position is compared as \<^verbatim>\<open>uint8(i)\<close>, so it wraps at 256.
\<close>

fun split_loop :: "nat \<Rightarrow> u8 \<Rightarrow> u32 set \<Rightarrow> u32 list \<Rightarrow> u32 list \<times> u32 list" where
  "split_loop i nInput managed [] = ([], [])"
| "split_loop i nInput managed (a # cur) =
     (let (ins, outs) = split_loop (i + 1) nInput managed cur
      in if a \<in> managed then (ins, outs)
         else if word_of_nat i < nInput then (a # ins, outs)
         else (ins, a # outs))"

definition splitNonManaged :: "u32 list \<Rightarrow> u8 \<Rightarrow> u32 set \<Rightarrow> u32 list \<times> u32 list" where
  "splitNonManaged cur nInput managed = split_loop 0 nInput managed cur"

definition mergeManagedLast ::
  "u32 list \<Rightarrow> u8 \<Rightarrow> u32 set \<Rightarrow> u32 list \<Rightarrow> direction \<Rightarrow> u32 list \<times> u8" where
  "mergeManagedLast cur nInput managed ours dir =
     (let (ins, outs) = splitNonManaged cur nInput managed;
          ins' = (if dir = Ingress then ins @ ours else ins);
          outs' = (if dir = Ingress then outs else outs @ ours)
      in (ins' @ outs', word_of_nat (length ins')))"

record ifaceInfo =
  if_index :: u32
  if_name :: string

definition has_prefix :: "string \<Rightarrow> string \<Rightarrow> bool" where
  "has_prefix s p = (take (length p) s = p)"

text \<open>One iteration of the loop over the interfaces.\<close>

definition select_iface :: "ClientConfig \<Rightarrow> iface_details \<Rightarrow> ifaceInfo option" where
  "select_iface cfg d =
     (let name = trim_nul (sw_InterfaceName d)
      in if sw_SwIfIndex d = 0 \<or> has_prefix name ''local'' then None
         else if InterfaceMode cfg = ''list'' \<and> name \<notin> set (InterfaceList cfg) then None
         else Some \<lparr>if_index = sw_SwIfIndex d, if_name = name\<rparr>)"

definition dataPlaneInterfaces :: "('v, 'p) vpp_api \<Rightarrow> 'v client \<Rightarrow> verr + ifaceInfo list" where
  "dataPlaneInterfaces api c =
     (case SwInterfaceDump api (cl_vpp c) of
        Inl e \<Rightarrow> Inl (Wrapf (msg ''sw_interface_dump: %w'') e)
      | Inr stream \<Rightarrow>
          ebind (recv_all ''sw_interface_dump'' stream) (\<lambda>ds.
          Inr (List.map_filter (select_iface (cl_cfg c)) ds)))"

fun attach_loop ::
  "('v, 'p) vpp_api \<Rightarrow> (u32, aclList) gomap \<Rightarrow> u32 set \<Rightarrow> u32 list \<Rightarrow> ifaceInfo list \<Rightarrow> 'v client \<Rightarrow> ('v, unit) result" where
  "attach_loop api tbl managed acls [] c = (Inr (), c)"
| "attach_loop api tbl managed acls (i # ifs) c =
     (let cur = gget aclList_zero tbl (if_index i);
          (newAcls, nInput) = mergeManagedLast (al_acls cur) (al_nInput cur) managed acls (cfg_Direction (cl_cfg c));
          (r, v) = ACLInterfaceSetACLList api (if_index i) (word_of_nat (length newAcls)) nInput newAcls (cl_vpp c);
          c' = c\<lparr>cl_vpp := v\<rparr>
      in case r of
           Inl e \<Rightarrow> (Inl (Wrapf (Sprintf ''acl_interface_set_acl_list on %s: %w'' [FStr (if_name i)]) e), c')
         | Inr _ \<Rightarrow> attach_loop api tbl managed acls ifs c')"

definition attachLocked :: "('v, 'p) vpp_api \<Rightarrow> 'v client \<Rightarrow> ('v, unit) result" where
  "attachLocked api c =
     (let acls = aclIndices c
      in if acls = [] then (Inl (Errorf (msg ''no managed ACLs to attach'')), c)
         else case dataPlaneInterfaces api c of
           Inl e \<Rightarrow> (Inl e, c)
         | Inr ifs \<Rightarrow>
             if ifs = [] then (Inr (), c)
             else
               let tagged = (case taggedACLs api c of Inl e \<Rightarrow> [] | Inr t \<Rightarrow> t);
                   managed = set tagged \<union> set acls
               in case interfaceACLLists api c of
                    Inl e \<Rightarrow> (Inl e, c)
                  | Inr tbl \<Rightarrow> attach_loop api tbl managed acls ifs c)"

definition directionString :: "direction \<Rightarrow> string" where
  "directionString d = (if d = Egress then ''egress'' else ''ingress'')"

section \<open>Detaching on exit (cleanup.go)\<close>

fun detach_loop ::
  "('v, 'p) vpp_api \<Rightarrow> (u32, aclList) gomap \<Rightarrow> u32 set \<Rightarrow> u32 list \<Rightarrow> 'v client \<Rightarrow> ('v, unit) result" where
  "detach_loop api tbl ours [] c = (Inr (), c)"
| "detach_loop api tbl ours (i # is) c =
     (let cur = gget aclList_zero tbl i
      in if \<not> list_ex (\<lambda>a. a \<in> ours) (al_acls cur) then detach_loop api tbl ours is c
         else
           let (ins, outs) = splitNonManaged (al_acls cur) (al_nInput cur) ours;
               kept = ins @ outs;
               (r, v) = ACLInterfaceSetACLList api i (word_of_nat (length kept)) (word_of_nat (length ins)) kept (cl_vpp c);
               c' = c\<lparr>cl_vpp := v\<rparr>
           in case r of
                Inl e \<Rightarrow> (Inl (Wrapf (Sprintf ''rewrite acl list on sw_if_index %d: %w'' [FInt (uint i)]) e), c')
              | Inr _ \<Rightarrow> detach_loop api tbl ours is c')"

definition detachManagedLocked :: "('v, 'p) vpp_api \<Rightarrow> u32 set \<Rightarrow> 'v client \<Rightarrow> ('v, unit) result" where
  "detachManagedLocked api ours c =
     (case interfaceACLLists api c of
        Inl e \<Rightarrow> (Inl e, c)
      | Inr tbl \<Rightarrow> detach_loop api tbl ours (range_ifaces api (map fst tbl)) c)"

definition cleanupOnClose :: "('v, 'p) vpp_api \<Rightarrow> 'v client \<Rightarrow> 'v client" where
  "cleanupOnClose api c =
     (let indices = aclIndices c
      in if indices = [] then c
         else delete_acls api indices (snd (detachManagedLocked api (set indices) c)))"

section \<open>Life cycle (client.go)\<close>

definition bootstrapLocked :: "('v, 'p) vpp_api \<Rightarrow> 'v client \<Rightarrow> ('v, unit) result" where
  "bootstrapLocked api c =
     (case replaceACLLocked api IPv4 [] c of
        (Inl e, c1) \<Rightarrow> (Inl (Wrapf (msg ''create ipv4 managed acl: %w'') e), c1)
      | (Inr _, c1) \<Rightarrow>
          case replaceACLLocked api IPv6 [] c1 of
            (Inl e, c2) \<Rightarrow> (Inl (Wrapf (msg ''create ipv6 managed acl: %w'') e), c2)
          | (Inr _, c2) \<Rightarrow>
              case attachLocked api c2 of
                (Inl e, c3) \<Rightarrow> (Inl (Wrapf (msg ''attach managed acls: %w'') e), c3)
              | (Inr _, c3) \<Rightarrow>
                  (Inr (), cleanupTaggedExcept api [gget 0 (cl_idx c3) IPv4, gget 0 (cl_idx c3) IPv6] c3))"

text \<open>Events of the connection, with the cancellation of the context.\<close>

datatype conn_event = Connected | Disconnected | Failed | OtherState | CtxDone

text \<open>The events that are left when the first connection is up, or the error.\<close>

fun waitConnected :: "conn_event list \<Rightarrow> verr + conn_event list" where
  "waitConnected [] = Inl (Errorf (msg ''vpp connection closed before ready''))"
| "waitConnected (CtxDone # evs) = Inl (Errorf (msg ''context canceled''))"
| "waitConnected (Connected # evs) = Inr evs"
| "waitConnected (_ # evs) = waitConnected evs"

text \<open>
  One event of \<^verbatim>\<open>handleEvents\<close> on a data plane that may have changed since; the flag says that
  \<^verbatim>\<open>OnReconnect\<close> is called.
\<close>

definition handleEvent :: "('v, 'p) vpp_api \<Rightarrow> conn_event \<Rightarrow> 'v client \<Rightarrow> 'v client \<times> bool" where
  "handleEvent api e c =
     (case e of
        Connected \<Rightarrow>
          let c0 = c\<lparr>cl_idx := gput IPv6 aclIndexUnset (gput IPv4 aclIndexUnset (cl_idx c))\<rparr>
          in (case bootstrapLocked api c0 of
                (Inl err, c') \<Rightarrow> (c', False)
              | (Inr _, c') \<Rightarrow> (c', True))
      | _ \<Rightarrow> (c, False))"

fun handleEvents :: "('v, 'p) vpp_api \<Rightarrow> conn_event list \<Rightarrow> 'v client \<Rightarrow> 'v client \<times> bool list" where
  "handleEvents api [] c = (c, [])"
| "handleEvents api (e # evs) c =
     (if e = CtxDone then (c, [])
      else let (c', r) = handleEvent api e c; (c'', rs) = handleEvents api evs c' in (c'', r # rs))"

text \<open>
  The client and the events that are left, or the error; with the data plane afterwards. The
  argument \<open>async\<close> is what \<^verbatim>\<open>AsyncConnect\<close> returned: an error, or the channel of the events.
\<close>

definition Connect ::
  "('v, 'p) vpp_api \<Rightarrow> ClientConfig \<Rightarrow> verr + conn_event list \<Rightarrow> 'v \<Rightarrow> (verr + 'v client \<times> conn_event list) \<times> 'v" where
  "Connect api cfg async v =
     (let cfg1 = (if ACLTagV4 cfg = '''' then cfg\<lparr>ACLTagV4 := ''flowspec-managed-ip4''\<rparr> else cfg);
          cfg2 = (if ACLTagV6 cfg1 = '''' then cfg1\<lparr>ACLTagV6 := ''flowspec-managed-ip6''\<rparr> else cfg1);
          c = \<lparr>cl_cfg = cfg2, cl_idx = [(IPv4, aclIndexUnset), (IPv6, aclIndexUnset)], cl_vpp = v\<rparr>
      in case async of
           Inl e \<Rightarrow> (Inl (Wrapf (msg ''vpp connect: %w'') e), v)
         | Inr evs \<Rightarrow>
             (case waitConnected evs of
                Inl e \<Rightarrow> (Inl e, v)
              | Inr rest \<Rightarrow>
                  (case bootstrapLocked api c of
                     (Inl e, c') \<Rightarrow> (Inl e, cl_vpp c')
                   | (Inr _, c') \<Rightarrow> (Inr (c', rest), cl_vpp c'))))"

definition Close :: "('v, 'p) vpp_api \<Rightarrow> 'v client \<Rightarrow> 'v" where
  "Close api c = cl_vpp (cleanupOnClose api c)"

end
