(* ===== verification/ManagerInv.thy ===== *)
theory ManagerInv
  imports Manager
begin

text \<open>
  The invariant of the manager: the reference counts are exactly the numbers of routes, the keys
  of a session are exactly those it owns, and no table keeps an empty row. The operations are
  described by what they do to four views of the state, and every handler keeps the invariant.
\<close>

section \<open>Views of the state\<close>

text \<open>How often a session owns a key, the keys a session owns, and the entry under a key.\<close>

definition own :: "'b manager \<Rightarrow> string \<Rightarrow> SessionID \<Rightarrow> nat" where
  "own m k s = (case map_of (entries m) k of None \<Rightarrow> 0 | Some e \<Rightarrow> gget 0 (e_owners e) s)"

definition owned_keys :: "'b manager \<Rightarrow> SessionID \<Rightarrow> string set" where
  "owned_keys m s = set (gget [] (sessionRules m) s)"

definition acl_at :: "'b manager \<Rightarrow> string \<Rightarrow> (ACLRule \<times> vpp_family) option" where
  "acl_at m k = map_option (\<lambda>e. (e_acl e, e_family e)) (map_of (entries m) k)"

section \<open>The invariant\<close>

definition entry_ok :: "string \<Rightarrow> entry \<Rightarrow> bool" where
  "entry_ok k e \<longleftrightarrow> Key (e_acl e) = k \<and> acl_wf (e_acl e) \<and> e_family e = familyOf (e_acl e) \<and>
     e_owners e \<noteq> [] \<and> (\<forall>s n. map_of (e_owners e) s = Some n \<longrightarrow> 0 < n)"

definition entries_ok :: "'b manager \<Rightarrow> bool" where
  "entries_ok m \<longleftrightarrow> gwf (entries m) \<and> (\<forall>k e. map_of (entries m) k = Some e \<longrightarrow> entry_ok k e)"

definition no_empty_rows :: "'b manager \<Rightarrow> bool" where
  "no_empty_rows m \<longleftrightarrow>
     (\<forall>s. map_of (sessionRoutes m) s \<noteq> Some []) \<and> (\<forall>s. map_of (sessionRules m) s \<noteq> Some [])"

definition mgr_inv :: "'b manager \<Rightarrow> bool" where
  "mgr_inv m \<longleftrightarrow> entries_ok m \<and> no_empty_rows m \<and>
     (\<forall>k s. own m k s = card {i. routeKey i s m = Some k}) \<and>
     (\<forall>s. owned_keys m s = {k. 0 < own m k s})"

lemma finite_routes: "finite {i. routeKey i s m = Some k}"
proof (rule finite_subset)
  show "{i. routeKey i s m = Some k} \<subseteq> dom (map_of (gget [] (sessionRoutes m) s))"
    by (auto simp: routeKey_def gget_def split: option.splits)
qed (rule finite_dom_map_of)

lemma entries_okD: "entries_ok m \<Longrightarrow> map_of (entries m) k = Some e \<Longrightarrow> entry_ok k e"
  by (simp add: entries_ok_def)

lemma entry_ok_owned: "entry_ok k e \<Longrightarrow> \<exists>s. 0 < gget 0 (e_owners e) s"
  by (cases "e_owners e") (auto simp: entry_ok_def gget_def split: option.splits if_splits)

lemma acl_at_iff_own: "entries_ok m \<Longrightarrow> acl_at m k \<noteq> None \<longleftrightarrow> (\<exists>s. 0 < own m k s)"
proof (cases "map_of (entries m) k")
  case (Some e)
  assume "entries_ok m"
  with Some have "\<exists>s. 0 < gget 0 (e_owners e) s" using entry_ok_owned entries_okD by blast
  with Some show ?thesis by (simp add: acl_at_def own_def)
qed (simp add: acl_at_def own_def)

lemma acl_at_ok:
  "entries_ok m \<Longrightarrow> acl_at m k = Some (a, f) \<Longrightarrow> Key a = k \<and> acl_wf a \<and> f = familyOf a"
  by (auto simp: acl_at_def entries_ok_def entry_ok_def)

section \<open>What the operations do to the views\<close>

text \<open>Updating a row of a two-level table.\<close>

lemma gget_pos_iff:
  "\<forall>s n. map_of os s = Some n \<longrightarrow> 0 < n \<Longrightarrow> os \<noteq> [] \<longleftrightarrow> (\<exists>s. 0 < gget (0 :: nat) os s)"
  by (cases os) (auto simp: gget_def split: option.splits if_splits)

lemma addOwner_views:
  assumes "addOwner key acl fam s m = (m', d)"
  shows "own m' k s' = own m k s' + (if k = key \<and> s' = s then 1 else 0)"
    and "owned_keys m' s' = (if s' = s then insert key (owned_keys m s) else owned_keys m s')"
    and "acl_at m' k = (if k = key \<and> acl_at m key = None then Some (acl, fam) else acl_at m k)"
    and "sessionRoutes m' = sessionRoutes m" and "m_backend m' = m_backend m"
    and "entries_ok m \<Longrightarrow> d \<longleftrightarrow> acl_at m key = None"
  using assms
  by (auto simp: addOwner_def own_def owned_keys_def acl_at_def Let_def entries_ok_def entry_ok_def
      split: option.splits if_splits)

lemma sput_not_Nil [simp]: "sput x xs \<noteq> []"
  by (metis List.set_insert empty_iff empty_set insertI1)

lemma addOwner_ok:
  assumes "addOwner key acl fam s m = (m', d)" and "entries_ok m" and "no_empty_rows m"
    and "Key acl = key" and "acl_wf acl" and "fam = familyOf acl"
  shows "entries_ok m' \<and> no_empty_rows m'"
  using assms
  by (auto simp: addOwner_def Let_def entries_ok_def entry_ok_def no_empty_rows_def
      split: option.splits if_splits)

text \<open>The cases of a removal that does something.\<close>

lemma removeOwner_cases:
  assumes "removeOwner key s m = (m', d)" and "entries_ok m" and "0 < own m key s"
  obtains e os where "map_of (entries m) key = Some e" and "entry_ok key e"
    and "gget 0 os s = gget 0 (e_owners e) s - 1" and "\<And>s'. s' \<noteq> s \<Longrightarrow> gget 0 os s' = gget 0 (e_owners e) s'"
    and "\<forall>s n. map_of os s = Some n \<longrightarrow> 0 < n" and "0 < gget 0 (e_owners e) s"
    and "d \<longleftrightarrow> os = []"
    and "entries m' = (if os = [] then gdel key (entries m) else gput key (e\<lparr>e_owners := os\<rparr>) (entries m))"
    and "sessionRoutes m' = sessionRoutes m" and "m_backend m' = m_backend m" and "m_metrics m' = m_metrics m"
    and "sessionRules m' = (case map_of (sessionRules m) s of None \<Rightarrow> sessionRules m
       | Some sr \<Rightarrow> if gget 0 os s = 0 then
           if removeAll key sr = [] then gdel s (sessionRules m) else gput s (removeAll key sr) (sessionRules m)
         else sessionRules m)"
proof -
  from assms(3) obtain e where e: "map_of (entries m) key = Some e" "0 < gget 0 (e_owners e) s"
    by (auto simp: own_def split: option.splits)
  let ?n = "gget 0 (e_owners e) s"
  let ?os = "if ?n = 1 then gdel s (e_owners e) else gput s (?n - 1) (e_owners e)"
  have ok: "entry_ok key e" using assms(2) e by (simp add: entries_okD)
  show thesis
  proof (rule that [of e ?os])
    show "\<forall>s n. map_of ?os s = Some n \<longrightarrow> 0 < n"
      using ok e(2) by (auto simp: entry_ok_def split: if_splits)
    show "d \<longleftrightarrow> ?os = []"
      "entries m' = (if ?os = [] then gdel key (entries m) else gput key (e\<lparr>e_owners := ?os\<rparr>) (entries m))"
      "sessionRoutes m' = sessionRoutes m" "m_backend m' = m_backend m" "m_metrics m' = m_metrics m"
      "sessionRules m' = (case map_of (sessionRules m) s of None \<Rightarrow> sessionRules m
       | Some sr \<Rightarrow> if gget 0 ?os s = 0 then
           if removeAll key sr = [] then gdel s (sessionRules m) else gput s (removeAll key sr) (sessionRules m)
         else sessionRules m)"
      using assms(1) e by (auto simp: removeOwner_def Let_def simp del: removeAll.simps split: if_splits option.splits)
  qed (use e ok in auto)
qed

lemma removeOwner_views:
  assumes "removeOwner key s m = (m', d)" and "entries_ok m" and "0 < own m key s"
  shows "own m' k s' = own m k s' - (if k = key \<and> s' = s then 1 else 0)"
    and "owned_keys m' s' = (if s' = s \<and> own m key s = 1 then owned_keys m s - {key} else owned_keys m s')"
    and "acl_at m' k = (if k = key \<and> d then None else acl_at m k)"
    and "sessionRoutes m' = sessionRoutes m" and "m_backend m' = m_backend m"
    and "entries_ok m'" and "no_empty_rows m \<Longrightarrow> no_empty_rows m'"
proof -
  obtain e os where e: "map_of (entries m) key = Some e" "entry_ok key e"
    "gget 0 os s = gget 0 (e_owners e) s - 1" "\<And>s'. s' \<noteq> s \<Longrightarrow> gget 0 os s' = gget 0 (e_owners e) s'"
    "\<forall>s n. map_of os s = Some n \<longrightarrow> 0 < n" "0 < gget 0 (e_owners e) s"
    "d \<longleftrightarrow> os = []"
    and en: "entries m' = (if os = [] then gdel key (entries m) else gput key (e\<lparr>e_owners := os\<rparr>) (entries m))"
    and same: "sessionRoutes m' = sessionRoutes m" "m_backend m' = m_backend m"
    and sr: "sessionRules m' = (case map_of (sessionRules m) s of None \<Rightarrow> sessionRules m
       | Some sr \<Rightarrow> if gget 0 os s = 0 then
           if removeAll key sr = [] then gdel s (sessionRules m) else gput s (removeAll key sr) (sessionRules m)
         else sessionRules m)"
    using removeOwner_cases [OF assms] by blast
  have ownk: "own m' key s' = gget 0 os s'" for s'
    by (cases os) (simp_all add: own_def en)
  then show "own m' k s' = own m k s' - (if k = key \<and> s' = s then 1 else 0)"
    using e by (cases "k = key"; cases "s' = s") (auto simp: own_def en)
  show "acl_at m' k = (if k = key \<and> d then None else acl_at m k)"
    using e by (auto simp: acl_at_def en)
  show "entries_ok m'"
    using assms(2) e by (auto simp: entries_ok_def entry_ok_def en simp del: map_of_eq_Some_iff)
  show "no_empty_rows m \<Longrightarrow> no_empty_rows m'"
    by (auto simp: no_empty_rows_def same sr split: option.splits)
  have "own m key s = 1 \<longleftrightarrow> gget 0 os s = 0" using e by (auto simp: own_def)
  then show "owned_keys m' s' = (if s' = s \<and> own m key s = 1 then owned_keys m s - {key} else owned_keys m s')"
    by (cases "map_of (sessionRules m) s") (auto simp: owned_keys_def sr gget_def simp flip: set_removeAll)
  show "sessionRoutes m' = sessionRoutes m" "m_backend m' = m_backend m" by (rule same)+
qed

section \<open>Routes\<close>

definition routes :: "'b manager \<Rightarrow> SessionID \<Rightarrow> string \<Rightarrow> string option" where
  "routes m s = (\<lambda>i. routeKey i s m)"

lemma routeKey_cong: "sessionRoutes m' = sessionRoutes m \<Longrightarrow> routes m' s = routes m s"
  by (simp add: routes_def routeKey_def)

lemma rememberRoute_views:
  "routes (rememberRoute i k s m) s' = (if s' = s then (routes m s)(i \<mapsto> k) else routes m s')"
  "entries (rememberRoute i k s m) = entries m" "sessionRules (rememberRoute i k s m) = sessionRules m"
  "m_backend (rememberRoute i k s m) = m_backend m"
  "no_empty_rows m \<Longrightarrow> no_empty_rows (rememberRoute i k s m)"
  by (auto simp: rememberRoute_def routes_def routeKey_def gget_def no_empty_rows_def fun_eq_iff
      split: option.splits dest: arg_cong [of _ _ length])

lemma forgetRoute_views:
  assumes "routes m s i = Some k"
  shows "routes (forgetRoute i s k m) s' = (if s' = s then (routes m s)(i := None) else routes m s')"
    and "entries (forgetRoute i s k m) = entries m" and "sessionRules (forgetRoute i s k m) = sessionRules m"
    and "m_backend (forgetRoute i s k m) = m_backend m"
    and "no_empty_rows m \<Longrightarrow> no_empty_rows (forgetRoute i s k m)"
proof -
  from assms obtain rs where rs: "map_of (sessionRoutes m) s = Some rs" "map_of rs i = Some k"
    by (auto simp: routes_def routeKey_def split: option.splits)
  then have eq: "forgetRoute i s k m = (if gdel i rs = [] then m\<lparr>sessionRoutes := gdel s (sessionRoutes m)\<rparr>
       else m\<lparr>sessionRoutes := gput s (gdel i rs) (sessionRoutes m)\<rparr>)"
    by (simp add: forgetRoute_def gget_def Let_def)
  have "gdel i rs = [] \<Longrightarrow> (map_of rs)(i := None) = Map.empty"
    by (metis map_of.simps(1) map_of_gdel)
  with rs show "routes (forgetRoute i s k m) s' = (if s' = s then (routes m s)(i := None) else routes m s')"
    by (auto simp: eq routes_def routeKey_def fun_eq_iff split: option.splits)
qed (auto simp: forgetRoute_def no_empty_rows_def Let_def split: option.splits)

lemma card_del:
  assumes "finite {i. f i = Some k}" and "f j = Some k0"
  shows "card {i. (f(j := None)) i = Some k} = card {i. f i = Some k} - (if k = k0 then 1 else 0)"
proof (cases "k = k0")
  case True
  then have "{i. (f(j := None)) i = Some k} = {i. f i = Some k} - {j}" by auto
  with True assms show ?thesis by simp
next
  case False
  then have "{i. (f(j := None)) i = Some k} = {i. f i = Some k}" using assms by auto
  with False show ?thesis by simp
qed

lemma card_put:
  assumes "finite {i. f i = Some k}" and "f j = None"
  shows "card {i. (f(j \<mapsto> k0)) i = Some k} = card {i. f i = Some k} + (if k = k0 then 1 else 0)"
proof (cases "k = k0")
  case True
  then have "{i. (f(j \<mapsto> k0)) i = Some k} = insert j {i. f i = Some k}" by auto
  with True assms show ?thesis by simp
next
  case False
  then have "{i. (f(j \<mapsto> k0)) i = Some k} = {i. f i = Some k}" using assms by auto
  with False show ?thesis by simp
qed

lemma mgr_invD:
  assumes "mgr_inv m"
  shows "entries_ok m" and "no_empty_rows m" and "own m k s = card {i. routes m s i = Some k}"
    and "owned_keys m s = {k. 0 < own m k s}" and "finite {i. routes m s i = Some k}"
  using assms finite_routes by (auto simp: mgr_inv_def routes_def)

lemma mgr_invI [inv_intros]:
  assumes "entries_ok m" and "no_empty_rows m" and "\<And>k s. own m k s = card {i. routes m s i = Some k}"
    and "\<And>s. owned_keys m s = {k. 0 < own m k s}"
  shows "mgr_inv m"
  using assms by (simp add: mgr_inv_def routes_def)

lemma mgr_inv_route:
  assumes "mgr_inv m" and "routes m s i = Some k"
  shows "0 < own m k s" and "acl_at m k \<noteq> None"
proof -
  show pos: "0 < own m k s"
    using assms mgr_invD(3) [OF assms(1), of k s] mgr_invD(5) [OF assms(1), of s k] by (auto simp: card_gt_0_iff)
  show "acl_at m k \<noteq> None" using acl_at_iff_own [OF mgr_invD(1) [OF assms(1)]] pos by blast
qed

section \<open>Removing a route\<close>

lemma removeRoute_none: "routes m s i = None \<Longrightarrow> removeRoute i s m = (m, IPv4, False)"
  by (simp add: removeRoute_def routes_def)

lemma removeRoute_some:
  assumes "mgr_inv m" and "routes m s i = Some k" and "removeRoute i s m = (m', fam, d)"
  shows "mgr_inv m'"
    and "routes m' s' = (if s' = s then (routes m s)(i := None) else routes m s')"
    and "acl_at m' k' = (if k' = k \<and> d then None else acl_at m k')"
    and "\<exists>a. acl_at m k = Some (a, fam)" and "m_backend m' = m_backend m"
proof -
  let ?m1 = "forgetRoute i s k m"
  note fv = forgetRoute_views [OF assms(2)]
  have views: "own ?m1 = own m" "owned_keys ?m1 = owned_keys m" "acl_at ?m1 = acl_at m"
    by (simp_all add: fun_eq_iff own_def owned_keys_def acl_at_def fv)
  have ok1: "entries_ok ?m1" using mgr_invD(1) [OF assms(1)] by (simp add: entries_ok_def fv)
  have pos: "0 < own ?m1 k s" using mgr_inv_route [OF assms(1,2)] views by simp
  obtain e where e: "map_of (entries m) k = Some e" using pos views by (auto simp: own_def split: option.splits)
  with assms have rm: "removeOwner k s ?m1 = (m', d)" and fam: "fam = e_family e"
    by (auto simp: removeRoute_def routes_def fv Let_def split: prod.splits)
  note rv = removeOwner_views [OF rm ok1 pos]
  show r: "routes m' s' = (if s' = s then (routes m s)(i := None) else routes m s')" for s'
    using routeKey_cong [OF rv(4)] fv(1) by simp
  show "acl_at m' k' = (if k' = k \<and> d then None else acl_at m k')" using rv(3) views by simp
  show "\<exists>a. acl_at m k = Some (a, fam)" using e fam by (simp add: acl_at_def)
  show "m_backend m' = m_backend m" using rv(5) fv(4) by simp
  show "mgr_inv m'"
  proof (rule mgr_invI)
    show "entries_ok m'" by (rule rv)
    show "no_empty_rows m'" using rv(7) fv(5) mgr_invD(2) [OF assms(1)] by blast
    show own': "own m' k' s' = card {i. routes m' s' i = Some k'}" for k' s'
      using card_del [OF mgr_invD(5) [OF assms(1)] assms(2)] mgr_invD(3) [OF assms(1)]
      by (cases "s' = s") (simp_all add: rv(1) r views)
    show "owned_keys m' s' = {k. 0 < own m' k s'}" for s'
      using mgr_invD(4) [OF assms(1), of s'] pos
      by (auto simp: rv(1,2) views split: if_splits)
  qed
qed

lemma removeRoute_spec:
  assumes "mgr_inv m" and "removeRoute i s m = (m', fam, d)"
  shows "mgr_inv m'"
    and "routes m' s' = (if s' = s then (routes m s)(i := None) else routes m s')"
    and "\<not> d \<Longrightarrow> acl_at m' = acl_at m"
    and "d \<Longrightarrow> \<exists>k a. acl_at m k = Some (a, fam) \<and> acl_at m' = (acl_at m)(k := None)"
    and "m_backend m' = m_backend m"
proof -
  have "mgr_inv m' \<and> (\<forall>s'. routes m' s' = (if s' = s then (routes m s)(i := None) else routes m s')) \<and>
    (\<not> d \<longrightarrow> acl_at m' = acl_at m) \<and>
    (d \<longrightarrow> (\<exists>k a. acl_at m k = Some (a, fam) \<and> acl_at m' = (acl_at m)(k := None))) \<and> m_backend m' = m_backend m"
  proof (cases "routes m s i")
    case None
    with assms have "m' = m" "\<not> d" by (simp_all add: removeRoute_none)
    moreover have "(routes m s)(i := None) = routes m s" using None by auto
    ultimately show ?thesis using assms(1) by simp
  next
    case (Some k)
    note sp = removeRoute_some [OF assms(1) Some assms(2)]
    from sp(4) obtain a where "acl_at m k = Some (a, fam)" ..
    moreover have "acl_at m' = (if d then (acl_at m)(k := None) else acl_at m)" using sp(3) by auto
    ultimately show ?thesis using sp(1,2,5) by auto
  qed
  then show "mgr_inv m'" "routes m' s' = (if s' = s then (routes m s)(i := None) else routes m s')"
    "\<not> d \<Longrightarrow> acl_at m' = acl_at m"
    "d \<Longrightarrow> \<exists>k a. acl_at m k = Some (a, fam) \<and> acl_at m' = (acl_at m)(k := None)" "m_backend m' = m_backend m"
    by blast+
qed

lemma replaceRoute_removeRoute:
  "routes m s i \<noteq> Some k \<Longrightarrow> replaceRoute i k s m = removeRoute i s m"
  by (auto simp: replaceRoute_def removeRoute_def routes_def split: option.splits)

section \<open>Adding a route\<close>

lemma addRoute_spec:
  assumes "mgr_inv m" and "routes m s i = None" and "addOwner (Key acl) acl (familyOf acl) s m = (m', d)"
    and "acl_wf acl"
  shows "mgr_inv (rememberRoute i (Key acl) s m')"
    and "routes (rememberRoute i (Key acl) s m') s' = (if s' = s then (routes m s)(i \<mapsto> Key acl) else routes m s')"
    and "acl_at (rememberRoute i (Key acl) s m') = (acl_at m)(Key acl \<mapsto> (acl, familyOf acl))"
    and "d \<longleftrightarrow> acl_at m (Key acl) = None"
    and "m_backend (rememberRoute i (Key acl) s m') = m_backend m"
proof -
  let ?m = "rememberRoute i (Key acl) s m'"
  note ok = mgr_invD(1,2) [OF assms(1)]
  note av = addOwner_views [OF assms(3)] and aok = addOwner_ok [OF assms(3) ok refl assms(4) refl]
  note rv = rememberRoute_views [where i = i and k = "Key acl" and s = s and m = m']
  have views: "own ?m = own m'" "owned_keys ?m = owned_keys m'" "acl_at ?m = acl_at m'"
    by (simp_all add: fun_eq_iff own_def owned_keys_def acl_at_def rv)
  show d: "d \<longleftrightarrow> acl_at m (Key acl) = None" using av(6) ok by simp
  show r: "routes ?m s' = (if s' = s then (routes m s)(i \<mapsto> Key acl) else routes m s')" for s'
    using rv(1) [of s'] routeKey_cong [OF av(4)] by simp
  show "acl_at ?m = (acl_at m)(Key acl \<mapsto> (acl, familyOf acl))"
  proof (cases "acl_at m (Key acl)")
    case (Some af)
    obtain a f where af: "af = (a, f)" by (cases af)
    with acl_at_ok [OF ok(1) Some [unfolded af]] assms(4) have "a = acl" "f = familyOf acl"
      by (auto simp: Key_inject_wf)
    with Some af show ?thesis by (auto simp: views av(3))
  qed (auto simp: views av(3))
  show "m_backend ?m = m_backend m" by (simp add: rv av(5))
  show "mgr_inv ?m"
  proof (rule mgr_invI)
    show "entries_ok ?m" using aok by (simp add: entries_ok_def rv)
    show "no_empty_rows ?m" using aok rv(5) by simp
    show "own ?m k s' = card {i. routes ?m s' i = Some k}" for k s'
      using card_put [OF mgr_invD(5) [OF assms(1)] assms(2)] mgr_invD(3) [OF assms(1)]
      by (cases "s' = s") (simp_all add: av(1) r views)
    show "owned_keys ?m s' = {k. 0 < own ?m k s'}" for s'
      using mgr_invD(4) [OF assms(1)] by (auto simp: av(1,2) views split: if_splits)
  qed
qed

section \<open>A session that goes down\<close>

lemma removeSessionOwner_views:
  assumes "removeSessionOwner key s m = (m', d)" and "entries_ok m"
  shows "own m' k s' = (if k = key \<and> s' = s then 0 else own m k s')"
    and "acl_at m' k = (if k = key \<and> d then None else acl_at m k)"
    and "sessionRoutes m' = sessionRoutes m" and "sessionRules m' = sessionRules m"
    and "m_backend m' = m_backend m" and "entries_ok m'"
proof -
  have "own m' k s' = (if k = key \<and> s' = s then 0 else own m k s') \<and>
    acl_at m' k = (if k = key \<and> d then None else acl_at m k) \<and> sessionRoutes m' = sessionRoutes m \<and>
    sessionRules m' = sessionRules m \<and> m_backend m' = m_backend m \<and> entries_ok m'"
  proof (cases "0 < own m key s")
    case False
    with assms have "m' = m" "\<not> d"
      by (auto simp: removeSessionOwner_def own_def split: option.splits if_splits)
    with False assms(2) show ?thesis by auto
  next
    case True
    then obtain e where e: "map_of (entries m) key = Some e" "0 < gget 0 (e_owners e) s"
      by (auto simp: own_def split: option.splits)
    let ?os = "gdel s (e_owners e)"
    have en: "entries m' = (if ?os = [] then gdel key (entries m) else gput key (e\<lparr>e_owners := ?os\<rparr>) (entries m))"
      and d: "d \<longleftrightarrow> ?os = []"
      and same: "sessionRoutes m' = sessionRoutes m" "sessionRules m' = sessionRules m" "m_backend m' = m_backend m"
      using assms(1) e by (auto simp: removeSessionOwner_def Let_def split: if_splits)
    have ownk: "own m' key s' = gget 0 ?os s'" for s'
      by (cases ?os) (simp_all add: own_def en)
    have "own m' k s' = (if k = key \<and> s' = s then 0 else own m k s')"
      using e ownk [of s'] by (cases "k = key") (auto simp: own_def en)
    moreover have "entries_ok m'"
      using assms(2) e by (auto simp: entries_ok_def entry_ok_def en simp del: map_of_eq_Some_iff split: if_splits)
    ultimately show ?thesis using e d same by (auto simp: acl_at_def en)
  qed
  then show "own m' k s' = (if k = key \<and> s' = s then 0 else own m k s')"
    "acl_at m' k = (if k = key \<and> d then None else acl_at m k)" "sessionRoutes m' = sessionRoutes m"
    "sessionRules m' = sessionRules m" "m_backend m' = m_backend m" "entries_ok m'" by blast+
qed

text \<open>What the loop over a set \<open>K\<close> of keys does, with the dirty families before and after.\<close>

definition down_rel ::
  "SessionID \<Rightarrow> string set \<Rightarrow> 'b manager \<times> vpp_family list \<Rightarrow> 'b manager \<times> vpp_family list \<Rightarrow> bool" where
  "down_rel s K x y \<longleftrightarrow>
     (entries_ok (fst x) \<longrightarrow> entries_ok (fst y) \<and>
       (\<forall>k s'. own (fst y) k s' = (if s' = s \<and> k \<in> K then 0 else own (fst x) k s')) \<and>
       (\<forall>k. acl_at (fst y) k = acl_at (fst x) k \<or>
            acl_at (fst y) k = None \<and> snd ` set_option (acl_at (fst x) k) \<subseteq> set (snd y)) \<and>
       set (snd x) \<subseteq> set (snd y) \<and> sessionRoutes (fst y) = sessionRoutes (fst x) \<and>
       sessionRules (fst y) = sessionRules (fst x) \<and> m_backend (fst y) = m_backend (fst x))"

lemma down_rel_trans:
  assumes "down_rel s K x y" and "down_rel s L y z"
  shows "down_rel s (K \<union> L) x z"
  unfolding down_rel_def
proof (intro impI conjI allI)
  assume ok: "entries_ok (fst x)"
  note xy = assms(1) [unfolded down_rel_def, rule_format, OF ok]
  then have oky: "entries_ok (fst y)" by blast
  note yz = assms(2) [unfolded down_rel_def, rule_format, OF oky]
  show "entries_ok (fst z)" "sessionRoutes (fst z) = sessionRoutes (fst x)"
    "sessionRules (fst z) = sessionRules (fst x)" "m_backend (fst z) = m_backend (fst x)"
    "set (snd x) \<subseteq> set (snd z)"
    using xy yz by auto
  show "own (fst z) k s' = (if s' = s \<and> k \<in> K \<union> L then 0 else own (fst x) k s')" for k s'
    using xy yz by auto
  show "acl_at (fst z) k = acl_at (fst x) k \<or>
      acl_at (fst z) k = None \<and> snd ` set_option (acl_at (fst x) k) \<subseteq> set (snd z)" for k
  proof -
    from yz have "acl_at (fst z) k = acl_at (fst y) k \<or>
      acl_at (fst z) k = None \<and> snd ` set_option (acl_at (fst y) k) \<subseteq> set (snd z)" by blast
    moreover from xy have "acl_at (fst y) k = acl_at (fst x) k \<or>
      acl_at (fst y) k = None \<and> snd ` set_option (acl_at (fst x) k) \<subseteq> set (snd y)" by blast
    moreover have "set (snd y) \<subseteq> set (snd z)" using yz by blast
    ultimately show ?thesis by auto
  qed
qed

lemma down_step_rel: "down_rel s {key} x (down_step s key x)"
proof -
  obtain m ds where x: "x = (m, ds)" by (cases x)
  show ?thesis
  proof (cases "map_of (entries m) key")
    case None
    then show ?thesis by (auto simp: x down_rel_def down_step_def own_def)
  next
    case (Some e)
    obtain m1 d where rs: "removeSessionOwner key s m = (m1, d)" by (cases "removeSessionOwner key s m")
    have "acl_at m key = Some (e_acl e, e_family e)" using Some by (simp add: acl_at_def)
    with removeSessionOwner_views [OF rs] rs Some show ?thesis
      by (auto simp: x down_rel_def down_step_def split: if_splits)
  qed
qed

lemma down_loop: "down_rel s (set ks) x (fold (down_step s) ks x)"
proof (induction ks arbitrary: x)
  case Nil
  show ?case by (simp add: down_rel_def)
next
  case (Cons key ks)
  from down_rel_trans [OF down_step_rel Cons.IH] show ?case by simp
qed

section \<open>Reconciliation leaves the tables alone\<close>

definition same_tables :: "'b manager \<Rightarrow> 'b manager \<Rightarrow> bool" where
  "same_tables m m' \<longleftrightarrow> entries m' = entries m \<and> sessionRules m' = sessionRules m \<and> sessionRoutes m' = sessionRoutes m"

lemma same_tables_refl [simp]: "same_tables m m"
  and same_tables_trans: "same_tables a b \<Longrightarrow> same_tables b c \<Longrightarrow> same_tables a c"
  by (auto simp: same_tables_def)

lemma same_tables_views:
  assumes "same_tables m m'"
  shows "own m' = own m" "owned_keys m' = owned_keys m" "acl_at m' = acl_at m" "routes m' = routes m"
    "mgr_inv m' = mgr_inv m" "desired f m' = desired f m" "entries_ok m' = entries_ok m"
proof -
  show v: "own m' = own m" "owned_keys m' = owned_keys m" "acl_at m' = acl_at m" "routes m' = routes m"
    "entries_ok m' = entries_ok m" "desired f m' = desired f m"
    using assms by (auto simp: fun_eq_iff same_tables_def own_def owned_keys_def acl_at_def routes_def routeKey_def
        entries_ok_def desired_def)
  have "(\<lambda>i s. routeKey i s m') = (\<lambda>i s. routeKey i s m)"
    using assms by (simp add: fun_eq_iff same_tables_def routeKey_def)
  then have "routeKey i s m' = routeKey i s m" for i s by (metis)
  then show "mgr_inv m' = mgr_inv m"
    using assms v by (simp add: mgr_inv_def no_empty_rows_def same_tables_def)
qed

lemma reconcile_tables: "same_tables m (reconcile env f m)"
  by (auto simp: same_tables_def reconcile_def Let_def split: prod.splits)

lemma fold_reconcile_tables: "same_tables m (fold (reconcile env) fs m)"
  by (induction fs arbitrary: m) (auto intro: same_tables_trans reconcile_tables)

lemma reconcile_all_tables: "same_tables m (reconcile_all env fs m)"
  unfolding reconcile_all_def by (rule fold_reconcile_tables)

lemma metrics_tables: "same_tables m (m\<lparr>m_metrics := x\<rparr>)" "same_tables m (reportIgnored r p err m)"
  by (simp_all add: same_tables_def reportIgnored_def Let_def)

section \<open>The handlers keep the invariant\<close>

text \<open>Every order of enumeration visits exactly the elements of the set.\<close>

definition env_ok :: "'b mgr_env \<Rightarrow> bool" where
  "env_ok env \<longleftrightarrow> (\<forall>fs. set (range_families env fs) = set fs) \<and> (\<forall>ks. set (range_keys env ks) = set ks)"

text \<open>An update whose rule, if any, holds valid prefixes, as \<^verbatim>\<open>ParseNLRI\<close> produces it.\<close>

definition update_ok :: "Update \<Rightarrow> bool" where
  "update_ok u \<longleftrightarrow> (case u_Rule u of None \<Rightarrow> True | Some r \<Rightarrow> match_wf (r_Match r))"

text \<open>The state of a handler before it reconciles, with the families it reconciles.\<close>

definition announce_tables :: "'b mgr_env \<Rightarrow> Update \<Rightarrow> fs_rule \<Rightarrow> 'b manager \<Rightarrow> 'b manager \<times> vpp_family list" where
  "announce_tables env u r m =
     (let i = routeIdentity env r; s = u_Session u
      in case Translate r of
           Inl e \<Rightarrow> (let (m1, f, d) = removeRoute i s m in (m1, if d then [f] else []))
         | Inr a \<Rightarrow>
             if routes m s i = Some (Key a) then (m, [])
             else let (m1, f, d1) = removeRoute i s m;
                      (m2, d2) = addOwner (Key a) a (familyOf a) s m1
                  in (rememberRoute i (Key a) s m2,
                      (if d2 then sput (familyOf a) (if d1 then [f] else []) else (if d1 then [f] else []))))"

lemma announce_eq:
  assumes "u_Rule u = Some r" and "announce_tables env u r m = (m1, fs)"
  obtains m2 where "same_tables m1 m2" and "m_backend m2 = m_backend m1"
    and "announce env u m = reconcile_all env fs m2 \<or> announce env u m = m \<and> m1 = m \<and> fs = []"
proof (cases "Translate r")
  case (Inl e)
  obtain m1' f d where rr: "removeRoute (routeIdentity env r) (u_Session u) m = (m1', f, d)"
    by (metis prod_cases3)
  show thesis
    by (rule that [of "reportIgnored r (u_Peer u) e m1"])
      (use assms Inl rr in \<open>auto simp: announce_def announce_tables_def Let_def metrics_tables reportIgnored_def\<close>)
next
  case (Inr a)
  show thesis
  proof (cases "routes m (u_Session u) (routeIdentity env r) = Some (Key a)")
    case True
    show thesis
      by (rule that [of m1])
        (use assms Inr True in \<open>auto simp: announce_def announce_tables_def Let_def routes_def\<close>)
  next
    case False
    obtain m1' f d1 where rr: "removeRoute (routeIdentity env r) (u_Session u) m = (m1', f, d1)"
      by (metis prod_cases3)
    obtain m2' d2 where ao: "addOwner (Key a) a (familyOf a) (u_Session u) m1' = (m2', d2)" by force
    let ?m2 = "if d2 then m1\<lparr>m_metrics := m_metrics m1 @ [RuleApplied (family_String (r_Family r)) (u_Peer u)]\<rparr> else m1"
    have "same_tables m1 ?m2" "m_backend ?m2 = m_backend m1" by (simp_all add: metrics_tables)
    moreover have "announce env u m = reconcile_all env fs ?m2"
      using assms Inr False rr ao replaceRoute_removeRoute [OF False]
      by (auto simp: announce_def announce_tables_def Let_def routes_def)
    ultimately show thesis using that by blast
  qed
qed

end
