(* ===== verification/ManagerSpec.thy ===== *)
theory ManagerSpec
  imports ManagerInv
begin

text \<open>
  The abstract specification of the manager and the proof that it implements it. Abstractly the
  state is one map: for every session and route, the ACL entry it asks for. An announcement sets
  one point of the map, a withdrawal or an announcement that cannot be translated clears it, a
  session that goes down clears its row. The desired list of a family is exactly the set of
  entries of that family in the map, and a family is reconciled whenever its list changed.
\<close>

section \<open>Abstraction\<close>

definition abs_routes :: "'b manager \<Rightarrow> SessionID \<times> string \<Rightarrow> ACLRule option" where
  "abs_routes m si = (case routes m (fst si) (snd si) of None \<Rightarrow> None | Some k \<Rightarrow> map_option fst (acl_at m k))"

fun spec_update :: "'b mgr_env \<Rightarrow> Update \<Rightarrow> (SessionID \<times> string \<Rightarrow> ACLRule option) \<Rightarrow> SessionID \<times> string \<Rightarrow> ACLRule option" where
  "spec_update env u A =
     (case (u_Op u, u_Rule u) of
        (OpAnnounce, Some r) \<Rightarrow>
          A((u_Session u, routeIdentity env r) := (case Translate r of Inl e \<Rightarrow> None | Inr a \<Rightarrow> Some a))
      | (OpWithdraw, Some r) \<Rightarrow> A((u_Session u, routeIdentity env r) := None)
      | (OpSessionDown, _) \<Rightarrow> (\<lambda>si. if fst si = u_Session u then None else A si)
      | _ \<Rightarrow> A)"

lemma abs_same_tables: "same_tables m m' \<Longrightarrow> abs_routes m' = abs_routes m"
  using same_tables_views(3,4) [of m m'] by (auto simp: fun_eq_iff abs_routes_def split: option.split)

text \<open>A point of the map depends only on its own route and on the entry under that key.\<close>

lemma abs_kept:
  assumes "mgr_inv m'" and "routes m' s i = routes m s i"
    and "\<And>k. acl_at m' k = acl_at m k \<or> acl_at m' k = None"
  shows "abs_routes m' (s, i) = abs_routes m (s, i)"
proof (cases "routes m s i")
  case (Some k)
  with assms have "acl_at m' k \<noteq> None" using mgr_inv_route(2) [OF assms(1)] by metis
  with assms(3) [of k] have "acl_at m' k = acl_at m k" by blast
  with Some assms(2) show ?thesis by (simp add: abs_routes_def)
qed (simp add: abs_routes_def assms(2))

lemma abs_removeRoute:
  assumes "mgr_inv m" and "removeRoute i s m = (m', f, d)"
  shows "abs_routes m' = (abs_routes m)((s, i) := None)"
proof
  fix si :: "SessionID \<times> string"
  obtain s' i' where si: "si = (s', i')" by (cases si)
  note sp = removeRoute_spec [OF assms]
  have keep: "acl_at m' k = acl_at m k \<or> acl_at m' k = None" for k
    using sp(3,4) by (cases d) (auto split: if_splits)
  show "abs_routes m' si = ((abs_routes m)((s, i) := None)) si"
  proof (cases "(s', i') = (s, i)")
    case True
    then show ?thesis using sp(2) [of s] by (simp add: si abs_routes_def)
  next
    case False
    then have "routes m' s' i' = routes m s' i'" using sp(2) [of s'] by auto
    with abs_kept [OF sp(1) _ keep] False show ?thesis by (auto simp: si)
  qed
qed

lemma abs_addRoute:
  assumes "mgr_inv m" and "routes m s i = None" and "addOwner (Key a) a (familyOf a) s m = (m', d)" and "acl_wf a"
  shows "abs_routes (rememberRoute i (Key a) s m') = (abs_routes m)((s, i) \<mapsto> a)"
proof
  fix si :: "SessionID \<times> string"
  obtain s' i' where si: "si = (s', i')" by (cases si)
  note sp = addRoute_spec [OF assms]
  show "abs_routes (rememberRoute i (Key a) s m') si = ((abs_routes m)((s, i) \<mapsto> a)) si"
  proof (cases "(s', i') = (s, i)")
    case True
    then show ?thesis using sp(2) [of s] by (simp add: si abs_routes_def sp(3))
  next
    case False
    show ?thesis
    proof (cases "routes m s' i'")
      case None
      with False sp(2) [of s'] show ?thesis by (auto simp: si abs_routes_def)
    next
      case (Some k)
      have "map_option fst (acl_at (rememberRoute i (Key a) s m') k) = map_option fst (acl_at m k)"
      proof (cases "k = Key a")
        case True
        from mgr_inv_route(2) [OF assms(1) Some] obtain b f where b: "acl_at m k = Some (b, f)" by force
        with acl_at_ok [OF mgr_invD(1) [OF assms(1)] b] assms(4) True have "b = a" by (auto simp: Key_inject_wf)
        with b True show ?thesis by (simp add: sp(3))
      qed (simp add: sp(3))
      with Some False sp(2) [of s'] show ?thesis by (auto simp: si abs_routes_def)
    qed
  qed
qed

section \<open>Dirty families\<close>

text \<open>Outside the families \<open>fs\<close> the entries did not change.\<close>

definition clean_outside :: "vpp_family list \<Rightarrow> 'b manager \<Rightarrow> 'b manager \<Rightarrow> bool" where
  "clean_outside fs m m' \<longleftrightarrow>
     (\<forall>f k a. f \<notin> set fs \<longrightarrow> (acl_at m' k = Some (a, f) \<longleftrightarrow> acl_at m k = Some (a, f)))"

lemma desired_acl_at:
  assumes "entries_ok m"
  shows "desired f m = map (\<lambda>k. fst (the (acl_at m k))) (sorted_list_of_set {k. \<exists>a. acl_at m k = Some (a, f)})"
proof -
  let ?ks = "map fst (filter (\<lambda>(k, e). e_family e = f \<and> e_owners e \<noteq> []) (entries m))"
  have wf: "gwf (entries m)" using assms by (simp add: entries_ok_def)
  then have "distinct ?ks" by (rule distinct_map_filter)
  moreover have set_ks: "set ?ks = {k. \<exists>a. acl_at m k = Some (a, f)}"
  proof -
    have "e_family e = f \<and> e_owners e \<noteq> [] \<longleftrightarrow> e_family e = f" if "map_of (entries m) k = Some e" for k e
      using entries_okD [OF assms that] by (simp add: entry_ok_def)
    then have "k \<in> set ?ks \<longleftrightarrow> (\<exists>e. map_of (entries m) k = Some e \<and> e_family e = f)" for k
      using wf by (auto simp: image_iff)
    then show ?thesis by (auto simp: acl_at_def)
  qed
  ultimately have "sort ?ks = sorted_list_of_set {k. \<exists>a. acl_at m k = Some (a, f)}"
    unfolding set_ks [symmetric] by (simp only: sorted_list_of_set_sort_remdups distinct_remdups_id)
  moreover have "map (\<lambda>k. e_acl (the (map_of (entries m) k))) (sort ?ks) = map (\<lambda>k. fst (the (acl_at m k))) (sort ?ks)"
    using set_ks by (intro map_cong) (auto simp: acl_at_def)
  ultimately show ?thesis by (simp only: desired_def)
qed

lemma clean_desired:
  assumes "entries_ok m" and "entries_ok m'" and "clean_outside fs m m'" and "f \<notin> set fs"
  shows "desired f m' = desired f m"
proof -
  have keys: "{k. \<exists>a. acl_at m' k = Some (a, f)} = {k. \<exists>a. acl_at m k = Some (a, f)}"
    and val: "\<And>k a. acl_at m k = Some (a, f) \<Longrightarrow> acl_at m' k = Some (a, f)"
    using assms(3,4) by (auto simp: clean_outside_def)
  have "finite {k. \<exists>a. acl_at m k = Some (a, f)}"
    by (rule finite_subset [OF _ finite_dom_map_of [of "entries m"]]) (auto simp: acl_at_def)
  with keys val show ?thesis
    unfolding desired_acl_at [OF assms(1)] desired_acl_at [OF assms(2)] by (auto intro!: map_cong)
qed

section \<open>The tables after a handler\<close>

lemma clean_removeRoute:
  assumes "mgr_inv m" and "removeRoute i s m = (m', f, d)"
  shows "clean_outside (if d then [f] else []) m m'"
  using removeRoute_spec(3,4) [OF assms] by (cases d) (auto simp: clean_outside_def split: if_splits)

lemma clean_trans:
  "clean_outside fs a b \<Longrightarrow> clean_outside gs b c \<Longrightarrow> set fs \<union> set gs \<subseteq> set hs \<Longrightarrow> clean_outside hs a c"
  unfolding clean_outside_def by blast

lemma clean_mono: "clean_outside fs a b \<Longrightarrow> set fs \<subseteq> set gs \<Longrightarrow> clean_outside gs a b"
  unfolding clean_outside_def by blast

lemma clean_addRoute:
  assumes "mgr_inv m" and "routes m s i = None" and "addOwner (Key a) a (familyOf a) s m = (m', d)" and "acl_wf a"
  shows "clean_outside (if d then [familyOf a] else []) m (rememberRoute i (Key a) s m')"
proof (cases "acl_at m (Key a)")
  case None
  with addRoute_spec(3,4) [OF assms] show ?thesis by (auto simp: clean_outside_def)
next
  case (Some bf)
  obtain b f where bf: "bf = (b, f)" by (cases bf)
  with acl_at_ok [OF mgr_invD(1) [OF assms(1)] Some [unfolded bf]] assms(4) have "bf = (a, familyOf a)"
    by (auto simp: Key_inject_wf)
  with Some addRoute_spec(3,4) [OF assms] show ?thesis by (auto simp: clean_outside_def)
qed

lemma announce_tables_spec:
  assumes "mgr_inv m" and "match_wf (r_Match r)" and "announce_tables env u r m = (m1, fs)"
  shows "mgr_inv m1 \<and> clean_outside fs m m1 \<and> m_backend m1 = m_backend m \<and>
    abs_routes m1 = (abs_routes m)((u_Session u, routeIdentity env r) :=
      (case Translate r of Inl e \<Rightarrow> None | Inr a \<Rightarrow> Some a))"
proof -
  let ?s = "u_Session u" and ?i = "routeIdentity env r"
  obtain m1' f d1 where rr: "removeRoute ?i ?s m = (m1', f, d1)" by (metis prod_cases3)
  note rs = removeRoute_spec [OF assms(1) rr] and ra = abs_removeRoute [OF assms(1) rr]
    and rc = clean_removeRoute [OF assms(1) rr]
  show ?thesis
  proof (cases "Translate r")
    case (Inl e)
    with assms(3) rr rs(1,5) ra rc show ?thesis by (auto simp: announce_tables_def Let_def)
  next
    case (Inr a)
    have wf: "acl_wf a" by (rule Translate_wf [OF Inr assms(2)])
    show ?thesis
    proof (cases "routes m ?s ?i = Some (Key a)")
      case True
      from mgr_inv_route(2) [OF assms(1) True] obtain b g where b: "acl_at m (Key a) = Some (b, g)" by force
      with acl_at_ok [OF mgr_invD(1) [OF assms(1)] b] wf have "b = a" by (auto simp: Key_inject_wf)
      with b True have "abs_routes m (?s, ?i) = Some a" by (simp add: abs_routes_def)
      then have "(abs_routes m)((?s, ?i) \<mapsto> a) = abs_routes m" by auto
      with True Inr assms(1,3) show ?thesis by (auto simp: announce_tables_def Let_def clean_outside_def)
    next
      case False
      obtain m2 d2 where ao: "addOwner (Key a) a (familyOf a) ?s m1' = (m2, d2)" by force
      have none: "routes m1' ?s ?i = None" using rs(2) by simp
      note as = addRoute_spec [OF rs(1) none ao wf] and ac = clean_addRoute [OF rs(1) none ao wf]
      have m1: "m1 = rememberRoute ?i (Key a) ?s m2"
        and fs: "fs = (if d2 then sput (familyOf a) (if d1 then [f] else []) else (if d1 then [f] else []))"
        using assms(3) Inr False rr ao by (auto simp: announce_tables_def Let_def)
      have "clean_outside fs m m1" unfolding m1 by (rule clean_trans [OF rc ac]) (auto simp: fs)
      moreover have "abs_routes m1 = (abs_routes m)((?s, ?i) \<mapsto> a)"
        unfolding m1 abs_addRoute [OF rs(1) none ao wf] ra by simp
      ultimately show ?thesis using as(1,5) rs(5) Inr m1 by simp
    qed
  qed
qed

lemma no_rules_no_routes:
  assumes "mgr_inv m" and "gget [] (sessionRules m) s = []"
  shows "routes m s = Map.empty"
proof
  fix i
  show "routes m s i = None"
  proof (cases "routes m s i")
    case (Some k)
    from mgr_inv_route(1) [OF assms(1) Some] have "k \<in> owned_keys m s"
      using mgr_invD(4) [OF assms(1), of s] by simp
    with assms(2) show ?thesis by (simp add: owned_keys_def)
  qed
qed

text \<open>The tables after the loop of \<^verbatim>\<open>sessionDown\<close> and the two deletions that follow it.\<close>

definition down_done :: "SessionID \<Rightarrow> 'b manager \<Rightarrow> 'b manager" where
  "down_done s m = m\<lparr>sessionRules := gdel s (sessionRules m), sessionRoutes := gdel s (sessionRoutes m)\<rparr>"

lemma down_done_views:
  "entries (down_done s m) = entries m" "m_backend (down_done s m) = m_backend m"
  "own (down_done s m) = own m" "acl_at (down_done s m) = acl_at m" "entries_ok (down_done s m) = entries_ok m"
  "owned_keys (down_done s m) s' = (if s' = s then {} else owned_keys m s')"
  "routes (down_done s m) s' = (if s' = s then Map.empty else routes m s')"
  "no_empty_rows m \<Longrightarrow> no_empty_rows (down_done s m)"
  by (auto simp: fun_eq_iff down_done_def own_def acl_at_def entries_ok_def owned_keys_def routes_def
      routeKey_def no_empty_rows_def)

lemma down_tables_spec:
  assumes "mgr_inv m" and "set ks = owned_keys m s" and "fold (down_step s) ks (m, []) = (m1, fs)"
  shows "mgr_inv (down_done s m1) \<and> clean_outside fs m (down_done s m1) \<and> m_backend m1 = m_backend m \<and>
    abs_routes (down_done s m1) = (\<lambda>si. if fst si = s then None else abs_routes m si)"
proof -
  note inv = mgr_invD [OF assms(1)]
  from down_loop [of s ks "(m, [])"] assms(3) inv(1)
  have ok: "entries_ok m1" and ow: "\<And>k s'. own m1 k s' = (if s' = s \<and> k \<in> set ks then 0 else own m k s')"
    and acl: "\<And>k. acl_at m1 k = acl_at m k \<or> acl_at m1 k = None \<and> snd ` set_option (acl_at m k) \<subseteq> set fs"
    and same: "sessionRoutes m1 = sessionRoutes m" "sessionRules m1 = sessionRules m" "m_backend m1 = m_backend m"
    by (auto simp: down_rel_def)
  have own1: "own m1 k s' = (if s' = s then 0 else own m k s')" for k s'
    using assms(2) inv(4) [of s] by (auto simp: ow)
  have rt: "routes m1 = routes m" using same(1) by (simp add: fun_eq_iff routes_def routeKey_def)
  have mi: "mgr_inv (down_done s m1)"
  proof (rule mgr_invI)
    show "entries_ok (down_done s m1)" using ok by (simp add: down_done_views)
    show "no_empty_rows (down_done s m1)"
      using inv(2) same by (intro down_done_views(8)) (simp add: no_empty_rows_def)
    show "own (down_done s m1) k s' = card {i. routes (down_done s m1) s' i = Some k}" for k s'
      using inv(3) by (simp add: down_done_views own1 rt)
    show "owned_keys (down_done s m1) s' = {k. 0 < own (down_done s m1) k s'}" for s'
    proof -
      have "owned_keys m1 s' = owned_keys m s'" using same by (simp add: owned_keys_def)
      with inv(4) [of s'] show ?thesis by (auto simp: down_done_views own1)
    qed
  qed
  have "clean_outside fs m (down_done s m1)"
    unfolding clean_outside_def down_done_views
  proof (intro allI impI)
    fix f k a
    assume "f \<notin> set fs"
    with acl [of k] show "acl_at m1 k = Some (a, f) \<longleftrightarrow> acl_at m k = Some (a, f)" by auto
  qed
  moreover have "abs_routes (down_done s m1) si = (if fst si = s then None else abs_routes m si)" for si
  proof (cases "fst si = s")
    case True
    then show ?thesis by (simp add: abs_routes_def down_done_views)
  next
    case False
    have "acl_at (down_done s m1) k = acl_at m k \<or> acl_at (down_done s m1) k = None" for k
      using acl [of k] unfolding down_done_views(4) by (elim disjE conjE) simp_all
    then have "abs_routes (down_done s m1) (fst si, snd si) = abs_routes m (fst si, snd si)"
      using False by (intro abs_kept [OF mi]) (simp add: down_done_views rt)
    with False show ?thesis by simp
  qed
  ultimately show ?thesis using mi same(3) by blast
qed

section \<open>Every update\<close>

lemma sessionDown_shape:
  assumes "mgr_inv m" and "env_ok env"
  obtains m2 fs where "sessionDown env u m = fold (reconcile env) fs m2" and "m_backend m2 = m_backend m"
    and "mgr_inv m2" and "clean_outside fs m m2"
    and "abs_routes m2 = (\<lambda>si. if fst si = u_Session u then None else abs_routes m si)"
proof -
  let ?s = "u_Session u"
  let ?ks = "gget [] (sessionRules m) ?s"
  show thesis
  proof (cases "?ks = []")
    case True
    let ?m2 = "m\<lparr>sessionRules := gdel ?s (sessionRules m)\<rparr>"
    note nr = no_rules_no_routes [OF assms(1) True]
    have "map_of (sessionRoutes m) ?s = None"
      using nr mgr_invD(2) [OF assms(1)]
      by (cases "map_of (sessionRoutes m) ?s") (auto simp: fun_eq_iff routes_def routeKey_def no_empty_rows_def simp flip: map_of_eq_Nil_iff)
    then have "gdel ?s (sessionRoutes m) = sessionRoutes m" by (simp add: delete_id map_of_eq_None_iff dom_map_of_conv_image_fst)
    then have eq: "?m2 = down_done ?s m" by (simp add: down_done_def)
    have "set ([] :: string list) = owned_keys m ?s" using True by (simp add: owned_keys_def)
    from down_tables_spec [OF assms(1) this] True that [of "[]" ?m2] show thesis
      by (simp add: eq sessionDown_def down_done_views)
  next
    case False
    obtain m1 fs where fold: "fold (down_step ?s) (range_keys env ?ks) (m, []) = (m1, fs)" by force
    have ks: "set (range_keys env ?ks) = owned_keys m ?s" using assms(2) by (simp add: env_ok_def owned_keys_def)
    note sp = down_tables_spec [OF assms(1) ks fold]
    have "sessionDown env u m = fold (reconcile env) (range_families env fs) (down_done ?s m1)"
      using False fold by (simp add: sessionDown_def reconcile_all_def down_done_def Let_def)
    moreover have "clean_outside (range_families env fs) m (down_done ?s m1)"
      using sp assms(2) by (auto intro: clean_mono simp: env_ok_def)
    ultimately show thesis using sp that by (simp add: down_done_views)
  qed
qed

lemma Apply_shape:
  assumes "mgr_inv m" and "env_ok env" and "update_ok u"
  obtains m2 fs where "Apply env u m = fold (reconcile env) fs m2" and "m_backend m2 = m_backend m"
    and "mgr_inv m2" and "clean_outside fs m m2" and "abs_routes m2 = spec_update env u (abs_routes m)"
proof (cases "u_Op u")
  case OpResync
  show thesis
    by (rule that [of "[IPv4, IPv6]" m])
      (use OpResync assms in \<open>auto simp: Apply_def resync_def clean_outside_def\<close>)
next
  case OpSessionDown
  have "Apply env u m = sessionDown env u m"
    "spec_update env u (abs_routes m) = (\<lambda>si. if fst si = u_Session u then None else abs_routes m si)"
    using OpSessionDown by (simp_all add: Apply_def)
  moreover obtain m2 fs where "sessionDown env u m = fold (reconcile env) fs m2" "m_backend m2 = m_backend m"
    "mgr_inv m2" "clean_outside fs m m2"
    "abs_routes m2 = (\<lambda>si. if fst si = u_Session u then None else abs_routes m si)"
    by (rule sessionDown_shape [OF assms(1,2), of u])
  ultimately show thesis using that by simp
next
  case OpWithdraw
  show thesis
  proof (cases "u_Rule u")
    case None
    with OpWithdraw assms that [of "[]" m] show thesis by (simp add: Apply_def withdraw_def clean_outside_def)
  next
    case (Some r)
    obtain m1 f d where rr: "removeRoute (routeIdentity env r) (u_Session u) m = (m1, f, d)" by (metis prod_cases3)
    show thesis
      by (rule that [of "if d then [f] else []" m1])
        (use OpWithdraw Some rr removeRoute_spec [OF assms(1) rr] abs_removeRoute [OF assms(1) rr]
          clean_removeRoute [OF assms(1) rr] in \<open>auto simp: Apply_def withdraw_def\<close>)
  qed
next
  case OpAnnounce
  show thesis
  proof (cases "u_Rule u")
    case None
    with OpAnnounce assms that [of "[]" m] show thesis by (simp add: Apply_def announce_def clean_outside_def)
  next
    case (Some r)
    obtain m1 fs where at: "announce_tables env u r m = (m1, fs)" by force
    have "match_wf (r_Match r)" using assms(3) Some by (simp add: update_ok_def)
    note sp = announce_tables_spec [OF assms(1) this at]
    obtain m2 where m2: "same_tables m1 m2" "m_backend m2 = m_backend m1"
      "announce env u m = reconcile_all env fs m2 \<or> announce env u m = m \<and> m1 = m \<and> fs = []"
      by (rule announce_eq [OF Some at])
    have cl: "clean_outside (range_families env fs) m m2"
      using sp assms(2) same_tables_views(3) [OF m2(1)] by (auto simp: clean_outside_def env_ok_def)
    from m2(3) show thesis
    proof
      assume "announce env u m = reconcile_all env fs m2"
      with cl sp m2 same_tables_views [OF m2(1)] abs_same_tables [OF m2(1)] OpAnnounce Some show thesis
        by (intro that [of "range_families env fs" m2]) (auto simp: Apply_def reconcile_all_def)
    next
      assume "announce env u m = m \<and> m1 = m \<and> fs = []"
      with sp OpAnnounce Some assms(1) show thesis
        by (intro that [of "[]" m]) (auto simp: Apply_def)
    qed
  qed
qed

lemma Apply_inv:
  assumes "mgr_inv m" and "env_ok env" and "update_ok u"
  shows "mgr_inv (Apply env u m)" and "abs_routes (Apply env u m) = spec_update env u (abs_routes m)"
proof -
  obtain m2 fs where s: "Apply env u m = fold (reconcile env) fs m2" "mgr_inv m2"
    "abs_routes m2 = spec_update env u (abs_routes m)"
    by (rule Apply_shape [OF assms])
  have "same_tables m2 (Apply env u m)" unfolding s(1) by (rule fold_reconcile_tables)
  with s show "mgr_inv (Apply env u m)" "abs_routes (Apply env u m) = spec_update env u (abs_routes m)"
    by (simp_all add: same_tables_views abs_same_tables)
qed

end
