(* ===== verification/ManagerSync.thy ===== *)
theory ManagerSync
  imports ManagerSpec
begin

text \<open>
  The interface \<^verbatim>\<open>vpp.Backend\<close> as the manager relies on it, and what the manager achieves over
  any backend that keeps it: after every update the backend holds exactly the desired entries
  of both families, and a resynchronisation repairs a backend whatever it held before.
\<close>

section \<open>The backend interface (backend.go)\<close>

text \<open>
  \<open>ready\<close> says that calls succeed, \<open>contents\<close> is what the backend enforces for a family and
  \<open>expected\<close> what it should enforce for a list of entries.
\<close>

locale backend =
  fixes replace :: "'b \<Rightarrow> vpp_family \<Rightarrow> ACLRule list \<Rightarrow> bool \<times> 'b"
    and ready :: "'b \<Rightarrow> bool"
    and contents :: "'b \<Rightarrow> vpp_family \<Rightarrow> 'c"
    and expected :: "vpp_family \<Rightarrow> ACLRule list \<Rightarrow> 'c"
  assumes replace_succeeds:
      "ready b \<Longrightarrow> \<forall>a\<in>set rs. acl_wf a \<and> familyOf a = f \<Longrightarrow> fst (replace b f rs)"
    and replace_ready:
      "ready b \<Longrightarrow> \<forall>a\<in>set rs. acl_wf a \<and> familyOf a = f \<Longrightarrow> ready (snd (replace b f rs))"
    and replace_contents:
      "ready b \<Longrightarrow> \<forall>a\<in>set rs. acl_wf a \<and> familyOf a = f \<Longrightarrow>
       contents (snd (replace b f rs)) g = (if g = f then expected f rs else contents b g)"
begin

definition holds :: "'b manager \<Rightarrow> vpp_family \<Rightarrow> bool" where
  "holds m f \<longleftrightarrow> contents (m_backend m) f = expected f (desired f m)"

definition in_sync :: "'b manager \<Rightarrow> bool" where
  "in_sync m \<longleftrightarrow> ready (m_backend m) \<and> (\<forall>f. holds m f)"

lemma desired_ok:
  assumes "mgr_inv m"
  shows "\<forall>a\<in>set (desired f m). acl_wf a \<and> familyOf a = f"
proof -
  note ok = mgr_invD(1) [OF assms]
  have "finite {k. \<exists>a. acl_at m k = Some (a, f)}"
    by (rule finite_subset [OF _ finite_dom_map_of [of "entries m"]]) (auto simp: acl_at_def)
  then show ?thesis using acl_at_ok [OF ok] by (auto simp: desired_acl_at [OF ok])
qed

lemma reconcile_holds:
  assumes "mgr_inv m" and "ready (m_backend m)" and "ReplaceACL env = replace"
  shows "ready (m_backend (reconcile env f m))"
    and "holds (reconcile env f m) g \<longleftrightarrow> g = f \<or> holds m g"
proof -
  let ?p = "replace (m_backend m) f (desired f m)"
  note contract = replace_succeeds [OF assms(2) desired_ok [OF assms(1)]]
    replace_ready [OF assms(2) desired_ok [OF assms(1)]]
    replace_contents [OF assms(2) desired_ok [OF assms(1)]]
  have b: "m_backend (reconcile env f m) = snd ?p"
    using assms(3) by (auto simp: reconcile_def Let_def split: prod.splits)
  then show "ready (m_backend (reconcile env f m))" using contract by simp
  have "desired g (reconcile env f m) = desired g m"
    by (rule same_tables_views(6) [OF reconcile_tables])
  then show "holds (reconcile env f m) g \<longleftrightarrow> g = f \<or> holds m g"
    using contract b by (auto simp: holds_def)
qed

lemma fold_reconcile_holds:
  "mgr_inv m \<Longrightarrow> ready (m_backend m) \<Longrightarrow> ReplaceACL env = replace \<Longrightarrow>
   ready (m_backend (fold (reconcile env) fs m)) \<and>
   (\<forall>g. holds (fold (reconcile env) fs m) g \<longleftrightarrow> g \<in> set fs \<or> holds m g)"
proof (induction fs arbitrary: m)
  case (Cons f fs)
  have "mgr_inv (reconcile env f m)"
    using Cons.prems(1) same_tables_views(5) [OF reconcile_tables] by blast
  with Cons.IH [of "reconcile env f m"] reconcile_holds [OF Cons.prems] Cons.prems(3) show ?case by auto
qed simp

lemma Apply_in_sync:
  assumes "mgr_inv m" and "env_ok env" and "update_ok u" and "ReplaceACL env = replace" and "in_sync m"
  shows "in_sync (Apply env u m)"
proof -
  obtain m2 fs where s: "Apply env u m = fold (reconcile env) fs m2" "m_backend m2 = m_backend m"
    "mgr_inv m2" "clean_outside fs m m2"
    by (rule Apply_shape [OF assms(1-3)])
  have "holds m2 f" if "f \<notin> set fs" for f
    using assms(5) s(2) clean_desired [OF mgr_invD(1) [OF assms(1)] mgr_invD(1) [OF s(3)] s(4) that]
    by (simp add: in_sync_def holds_def)
  moreover have "ready (m_backend m2)" using assms(5) s(2) by (simp add: in_sync_def)
  ultimately show ?thesis
    using fold_reconcile_holds [OF s(3) _ assms(4), of fs] by (auto simp: s(1) in_sync_def)
qed

text \<open>A resynchronisation needs no hypothesis on what the backend held.\<close>

lemma resync_in_sync:
  assumes "mgr_inv m" and "ready (m_backend m)" and "ReplaceACL env = replace"
  shows "in_sync (resync env m)"
proof -
  have "resync env m = fold (reconcile env) [IPv4, IPv6] m" by (simp add: resync_def)
  moreover have "f \<in> set [IPv4, IPv6]" for f by (cases f) simp_all
  ultimately show ?thesis
    using fold_reconcile_holds [OF assms, of "[IPv4, IPv6]"] by (auto simp: in_sync_def)
qed

lemma Run_in_sync:
  "mgr_inv m \<Longrightarrow> env_ok env \<Longrightarrow> \<forall>u\<in>set us. update_ok u \<Longrightarrow> ReplaceACL env = replace \<Longrightarrow> in_sync m \<Longrightarrow>
   in_sync (Run env us m)"
proof (induction us arbitrary: m)
  case (Cons u us)
  then have "mgr_inv (Apply env u m)" "in_sync (Apply env u m)"
    by (auto intro: Apply_inv Apply_in_sync)
  with Cons show ?case by (simp add: Run_def)
qed (simp add: Run_def)

end

section \<open>Reachable states\<close>

text \<open>The states \<^verbatim>\<open>Run\<close> passes through, from a new manager, in any order of enumeration.\<close>

inductive mgr_reachable :: "'b mgr_env \<Rightarrow> 'b \<Rightarrow> 'b manager \<Rightarrow> bool" for env b where
  start: "mgr_reachable env b (New b)"
| update: "mgr_reachable env b m \<Longrightarrow> update_ok u \<Longrightarrow> mgr_reachable env b (Apply env u m)"

lemma New_inv: "mgr_inv (New b)"
  by (rule mgr_invI)
    (auto simp: New_def entries_ok_def no_empty_rows_def own_def owned_keys_def routes_def routeKey_def)

lemma reachable_inv: "mgr_reachable env b m \<Longrightarrow> env_ok env \<Longrightarrow> mgr_inv m"
  by (induction rule: mgr_reachable.induct) (auto intro: New_inv Apply_inv)

lemma abs_New: "abs_routes (New b) = Map.empty"
  by (simp add: fun_eq_iff abs_routes_def New_def routes_def routeKey_def)

lemma Run_abs:
  "mgr_inv m \<Longrightarrow> env_ok env \<Longrightarrow> \<forall>u\<in>set us. update_ok u \<Longrightarrow>
   mgr_inv (Run env us m) \<and> abs_routes (Run env us m) = fold (spec_update env) us (abs_routes m)"
proof (induction us arbitrary: m)
  case (Cons u us)
  then have "mgr_inv (Apply env u m)" "abs_routes (Apply env u m) = spec_update env u (abs_routes m)"
    by (auto simp only: list.set_intros intro: Apply_inv)
  with Cons.IH [of "Apply env u m"] Cons.prems show ?case by (simp add: Run_def)
qed (simp add: Run_def)

text \<open>The desired list is the set of entries the routes ask for, each once, in the order of the keys.\<close>

lemma desired_set:
  assumes "mgr_inv m"
  shows "set (desired f m) = {a. familyOf a = f \<and> (\<exists>si. abs_routes m si = Some a)}"
    and "sorted (map Key (desired f m))" and "distinct (desired f m)"
proof -
  note ok = mgr_invD(1) [OF assms]
  let ?K = "{k. \<exists>a. acl_at m k = Some (a, f)}"
  have fin: "finite ?K"
    by (rule finite_subset [OF _ finite_dom_map_of [of "entries m"]]) (auto simp: acl_at_def)
  have key: "Key (fst (the (acl_at m k))) = k" if "k \<in> ?K" for k
    using that acl_at_ok [OF ok] by auto
  have keys: "map Key (desired f m) = sorted_list_of_set ?K"
    unfolding desired_acl_at [OF ok] map_map by (rule map_idI) (use key fin in simp)
  show "sorted (map Key (desired f m))" unfolding keys by simp
  have "distinct (map Key (desired f m))" unfolding keys by simp
  then show "distinct (desired f m)" by (simp add: distinct_map)
  have "(\<exists>si. abs_routes m si = Some a) \<longleftrightarrow> acl_at m (Key a) = Some (a, familyOf a)" for a
  proof
    assume "\<exists>si. abs_routes m si = Some a"
    then obtain k f' where "acl_at m k = Some (a, f')"
      by (auto simp: abs_routes_def split: option.splits)
    with acl_at_ok [OF ok this] show "acl_at m (Key a) = Some (a, familyOf a)" by simp
  next
    assume a: "acl_at m (Key a) = Some (a, familyOf a)"
    then obtain s where "0 < own m (Key a) s" using acl_at_iff_own [OF ok] by blast
    then obtain i where "routes m s i = Some (Key a)"
      using mgr_invD(3) [OF assms, of "Key a" s] by (auto simp: card_gt_0_iff)
    with a have "abs_routes m (s, i) = Some a" by (simp add: abs_routes_def)
    then show "\<exists>si. abs_routes m si = Some a" ..
  qed
  moreover have "set (desired f m) = {a. acl_at m (Key a) = Some (a, f)}"
    using fin acl_at_ok [OF ok] by (force simp: desired_acl_at [OF ok])
  ultimately show "set (desired f m) = {a. familyOf a = f \<and> (\<exists>si. abs_routes m si = Some a)}"
    using acl_at_ok [OF ok] by blast
qed

end
