(* ===== verification/VppData.thy ===== *)
theory VppData
  imports VppClient ManagerSync
begin

text \<open>
  What the VPP client achieves. The laws of the binary API that the client relies on are the
  assumptions of two locales; the client is a backend in the sense of the manager as soon as the
  first holds, and both hold of a reference data plane. The theory also gives the meaning of the
  lists the client installs (first match wins, no match is a deny), the lemmas on the merge of the
  managed ACLs with those of an operator, and the life cycle.
\<close>

section \<open>Meaning of an ACL list\<close>

text \<open>The action of the first matching entry, if any.\<close>

fun first_match :: "ACLRule list \<Rightarrow> packet \<Rightarrow> bool option" where
  "first_match [] p = None"
| "first_match (r # rs) p = (if acl_matches r p then Some (Permit r) else first_match rs p)"

text \<open>The ACL plugin denies a packet that no entry matches.\<close>

definition permitted :: "ACLRule list \<Rightarrow> packet \<Rightarrow> bool" where
  "permitted rs p \<longleftrightarrow> first_match rs p = Some True"

lemma first_match_append:
  "first_match (xs @ ys) p = (case first_match xs p of None \<Rightarrow> first_match ys p | Some b \<Rightarrow> Some b)"
  by (induction xs) auto

lemma first_match_deny:
  "\<forall>r\<in>set rs. \<not> Permit r \<Longrightarrow> first_match rs p = (if \<exists>r\<in>set rs. acl_matches r p then Some False else None)"
  by (induction rs) auto

definition packet_family :: "packet \<Rightarrow> vpp_family" where
  "packet_family p = (if pk_IPv6 p then IPv6 else IPv4)"

lemma permitAny_matches: "packet_wf p \<Longrightarrow> acl_matches (permitAny f) p \<longleftrightarrow> packet_family p = f"
  using Contains_defaults [unfolded defaultV4_def defaultV6_def]
  by (cases f) (auto simp: acl_matches_def acl_l4_matches_def permitAny_def Let_def packet_family_def packet_wf_def)

lemma permitAny_Permit [simp]: "Permit (permitAny f)"
  by (simp add: permitAny_def Let_def)

lemma acl_matches_family: "acl_matches r p \<Longrightarrow> familyOf r = packet_family p"
  by (auto simp: acl_matches_def familyOf_def packet_family_def)

text \<open>The managed list of a family is a blocklist for that family and silent on the other.\<close>

lemma managed_first_match:
  assumes "\<forall>r\<in>set rs. \<not> Permit r \<and> familyOf r = f" and "packet_wf p"
  shows "first_match (rs @ [permitAny f]) p =
    (if packet_family p = f then Some (\<not> (\<exists>r\<in>set rs. acl_matches r p)) else None)"
  using assms first_match_deny [of rs p] acl_matches_family permitAny_matches [OF assms(2), of f]
  by (auto simp: first_match_append)

section \<open>Laws of the binary API\<close>

definition bin_of :: "(prefix \<Rightarrow> 'p) \<Rightarrow> ACLRule \<Rightarrow> 'p bin_rule" where
  "bin_of enc r = \<lparr>IsPermit = Permit r, SrcPrefix = enc (acl_Src r), DstPrefix = enc (acl_Dst r),
     br_Proto = acl_Proto r,
     SrcportOrIcmptypeFirst = SrcPortOrICMPTypeFirst r, SrcportOrIcmptypeLast = SrcPortOrICMPTypeLast r,
     DstportOrIcmpcodeFirst = DstPortOrICMPCodeFirst r, DstportOrIcmpcodeLast = DstPortOrICMPCodeLast r,
     br_TCPFlagsMask = TCPFlagsMask r, br_TCPFlagsValue = TCPFlagsValue r\<rparr>"

text \<open>What a managed ACL should hold for a list of entries.\<close>

definition managed_rules :: "(prefix \<Rightarrow> 'p) \<Rightarrow> vpp_family \<Rightarrow> ACLRule list \<Rightarrow> 'p bin_rule list" where
  "managed_rules enc f rs = map (bin_of enc) rs @ [bin_of enc (permitAny f)]"

definition idx_of :: "'v client \<Rightarrow> vpp_family \<Rightarrow> u32" where
  "idx_of c f = gget 0 (cl_idx c) f"

definition tag_of :: "'v client \<Rightarrow> vpp_family \<Rightarrow> string" where
  "tag_of c f = (if f = IPv6 then ACLTagV6 (cl_cfg c) else ACLTagV4 (cl_cfg c))"

text \<open>Tags that survive the padding with NUL bytes, as the defaults do.\<close>

definition tags_ok :: "ClientConfig \<Rightarrow> bool" where
  "tags_ok cfg \<longleftrightarrow> ACLTagV4 cfg \<noteq> [] \<and> ACLTagV6 cfg \<noteq> [] \<and>
     trim_nul (ACLTagV4 cfg) = ACLTagV4 cfg \<and> trim_nul (ACLTagV6 cfg) = ACLTagV6 cfg"

lemma tag_of_ok: "tags_ok (cl_cfg c) \<Longrightarrow> trim_nul (tag_of c f) = tag_of c f"
  by (simp add: tags_ok_def tag_of_def)

text \<open>
  The ACL table of the data plane: the text of a valid prefix parses, and replacing an existing
  ACL keeps its index, sets its rules and touches no other ACL.
\<close>

locale acl_table =
  fixes api :: "('v, 'p) vpp_api"
    and enc :: "prefix \<Rightarrow> 'p"
    and acl_of :: "'v \<Rightarrow> u32 \<Rightarrow> (string \<times> 'p bin_rule list) option"
    and up :: "'v \<Rightarrow> bool"
  assumes parse_prefix: "prefix_wf p \<Longrightarrow> pfx_IsValid p \<Longrightarrow> ip_ParsePrefix api (pfx_String p) = Inr (enc p)"
    and replace_existing: "up v \<Longrightarrow> acl_of v i \<noteq> None \<Longrightarrow> trim_nul tag = tag \<Longrightarrow>
      \<exists>v'. ACLAddReplace api i tag (word_of_nat (length rs)) rs v = (Inr i, v') \<and> up v' \<and>
           acl_of v' = (acl_of v)(i \<mapsto> (tag, rs))"
begin

definition client_ready :: "'v client \<Rightarrow> bool" where
  "client_ready c \<longleftrightarrow> up (cl_vpp c) \<and> (\<forall>f. acl_of (cl_vpp c) (idx_of c f) \<noteq> None) \<and>
     idx_of c IPv4 \<noteq> idx_of c IPv6 \<and> tags_ok (cl_cfg c)"

definition client_contents :: "'v client \<Rightarrow> vpp_family \<Rightarrow> 'p bin_rule list option" where
  "client_contents c f = map_option snd (acl_of (cl_vpp c) (idx_of c f))"

lemma convert_ok: "acl_wf r \<Longrightarrow> toBinapiRule api r = Inr (bin_of enc r)"
  by (simp add: toBinapiRule_def toBinapiPrefix_def bin_of_def acl_wf_def parse_prefix)

lemma permitAny_wf: "acl_wf (permitAny f)"
  using default_wf [of FamilyIPv4] default_wf [of FamilyIPv6]
  by (auto simp: acl_wf_def permitAny_def Let_def DefaultPrefix_def defaultV4_def defaultV6_def)

lemma buildACLRules_ok:
  assumes "\<forall>r\<in>set rs. acl_wf r"
  shows "buildACLRules api f rs = Inr (managed_rules enc f rs)"
proof -
  have "convert_rules api rs = Inr (map (bin_of enc) rs)"
    using assms by (induction rs) (simp_all add: convert_ok)
  then show ?thesis by (simp add: buildACLRules_def managed_rules_def convert_ok permitAny_wf)
qed

lemma other_idx: "client_ready c \<Longrightarrow> g \<noteq> f \<Longrightarrow> idx_of c g \<noteq> idx_of c f"
  by (cases f; cases g) (auto simp: client_ready_def)

lemma ReplaceACL_client_ok:
  assumes "client_ready c" and "\<forall>r\<in>set rs. acl_wf r"
  obtains v' where "ReplaceACL_client api c f rs = (True, c\<lparr>cl_idx := gput f (idx_of c f) (cl_idx c), cl_vpp := v'\<rparr>)"
    and "up v'" and "acl_of v' = (acl_of (cl_vpp c))(idx_of c f \<mapsto> (tag_of c f, managed_rules enc f rs))"
proof -
  obtain v' where "ACLAddReplace api (idx_of c f) (tag_of c f) (word_of_nat (length (managed_rules enc f rs)))
      (managed_rules enc f rs) (cl_vpp c) = (Inr (idx_of c f), v')"
    "up v'" "acl_of v' = (acl_of (cl_vpp c))(idx_of c f \<mapsto> (tag_of c f, managed_rules enc f rs))"
    using assms(1) replace_existing tag_of_ok unfolding client_ready_def by blast
  with that show thesis
    by (simp add: ReplaceACL_client_def replaceACLLocked_def buildACLRules_ok [OF assms(2)] Let_def
        idx_of_def tag_of_def)
qed

text \<open>The client is a backend of the manager.\<close>

sublocale backend "ReplaceACL_client api" client_ready client_contents "\<lambda>f rs. Some (managed_rules enc f rs)"
proof
  fix c :: "'v client" and f g and rs :: "ACLRule list"
  assume c: "client_ready c" and rs: "\<forall>a\<in>set rs. acl_wf a \<and> familyOf a = f"
  then have wf: "\<forall>r\<in>set rs. acl_wf r" by blast
  obtain v' where v': "ReplaceACL_client api c f rs = (True, c\<lparr>cl_idx := gput f (idx_of c f) (cl_idx c), cl_vpp := v'\<rparr>)"
    "up v'" "acl_of v' = (acl_of (cl_vpp c))(idx_of c f \<mapsto> (tag_of c f, managed_rules enc f rs))"
    by (rule ReplaceACL_client_ok [OF c wf])
  have idx: "idx_of (snd (ReplaceACL_client api c f rs)) = idx_of c"
    by (auto simp: v'(1) idx_of_def fun_eq_iff)
  show "fst (ReplaceACL_client api c f rs)" by (simp add: v'(1))
  show "client_ready (snd (ReplaceACL_client api c f rs))"
    using c idx by (auto simp: client_ready_def v')
  show "client_contents (snd (ReplaceACL_client api c f rs)) g =
      (if g = f then Some (managed_rules enc f rs) else client_contents c g)"
    using other_idx [OF c, of g f] idx by (auto simp: client_contents_def v')
qed

end

section \<open>Merging the managed ACLs into the list of an interface\<close>

lemma split_loop_eq:
  "i + length cur \<le> 256 \<Longrightarrow>
   split_loop i n M cur =
     (filter (\<lambda>a. a \<notin> M) (take (unat n - i) cur), filter (\<lambda>a. a \<notin> M) (drop (unat n - i) cur))"
proof (induction cur arbitrary: i)
  case (Cons a cur)
  then have "unat (word_of_nat i :: u8) = i" by (simp add: unat_word_of_nat)
  then have "word_of_nat i < n \<longleftrightarrow> i < unat n" by (simp add: word_less_nat_alt)
  moreover have "unat n - i = Suc (unat n - (i + 1))" if "i < unat n" using that by simp
  moreover have "unat n - i = 0" if "\<not> i < unat n" using that by simp
  ultimately show ?case using Cons by (cases "i < unat n") (auto simp: Let_def)
qed simp

lemma splitNonManaged_eq:
  "length cur \<le> 256 \<Longrightarrow>
   splitNonManaged cur n M = (filter (\<lambda>a. a \<notin> M) (take (unat n) cur), filter (\<lambda>a. a \<notin> M) (drop (unat n) cur))"
  unfolding splitNonManaged_def by (subst split_loop_eq) simp_all

text \<open>The two halves of an interface list.\<close>

definition inputs :: "u32 list \<times> u8 \<Rightarrow> u32 list" where
  "inputs l = take (unat (snd l)) (fst l)"

definition outputs :: "u32 list \<times> u8 \<Rightarrow> u32 list" where
  "outputs l = drop (unat (snd l)) (fst l)"

lemma merge_halves:
  assumes "length cur + length ours < 256"
  shows "inputs (mergeManagedLast cur n M ours dir) =
      filter (\<lambda>a. a \<notin> M) (inputs (cur, n)) @ (if dir = Ingress then ours else [])"
    and "outputs (mergeManagedLast cur n M ours dir) =
      filter (\<lambda>a. a \<notin> M) (outputs (cur, n)) @ (if dir = Ingress then [] else ours)"
proof -
  let ?i = "filter (\<lambda>a. a \<notin> M) (take (unat n) cur)" and ?o = "filter (\<lambda>a. a \<notin> M) (drop (unat n) cur)"
  let ?i' = "?i @ (if dir = Ingress then ours else [])"
  have "length ?i \<le> length cur"
    by (rule order.trans [OF length_filter_le]) simp
  then have "length ?i' < 2 ^ LENGTH(8)" using assms by (auto simp del: length_filter_le)
  then have "unat (word_of_nat (length ?i') :: u8) = length ?i'" by (rule unat_word_of_nat)
  moreover have "mergeManagedLast cur n M ours dir =
      (?i' @ ?o @ (if dir = Ingress then [] else ours), word_of_nat (length ?i'))"
    using assms by (simp add: mergeManagedLast_def splitNonManaged_eq Let_def)
  ultimately show "inputs (mergeManagedLast cur n M ours dir) =
      filter (\<lambda>a. a \<notin> M) (inputs (cur, n)) @ (if dir = Ingress then ours else [])"
    "outputs (mergeManagedLast cur n M ours dir) =
      filter (\<lambda>a. a \<notin> M) (outputs (cur, n)) @ (if dir = Ingress then [] else ours)"
    by (simp_all add: inputs_def outputs_def)
qed

lemma halves_eq:
  assumes "inputs l = inputs l'" and "outputs l = outputs l'"
  shows "fst l = fst l'"
  using assms by (metis append_take_drop_id inputs_def outputs_def)

lemma merge_idem:
  assumes "length cur + length ours < 256" and "set ours \<subseteq> M"
    and "l = mergeManagedLast cur n M ours dir"
  shows "mergeManagedLast (fst l) (snd l) M ours dir = l"
proof -
  let ?i = "filter (\<lambda>a. a \<notin> M) (take (unat n) cur)" and ?o = "filter (\<lambda>a. a \<notin> M) (drop (unat n) cur)"
  have ours: "filter (\<lambda>a. a \<notin> M) ours = []" using assms(2) by (auto simp: filter_empty_conv)
  have l: "fst l = (if dir = Ingress then ?i @ ours @ ?o else ?i @ ?o @ ours)"
    "snd l = word_of_nat (length (if dir = Ingress then ?i @ ours else ?i))"
    using assms(1) by (simp_all add: assms(3) mergeManagedLast_def splitNonManaged_eq Let_def)
  have "length ?i + length ?o \<le> length cur"
    by (metis append_take_drop_id filter_append length_append length_filter_le)
  then have len: "length (fst l) \<le> 256" using assms(1) by (auto simp: l)
  have in_l: "inputs l = ?i @ (if dir = Ingress then ours else [])"
    "outputs l = ?o @ (if dir = Ingress then [] else ours)"
    using merge_halves [OF assms(1), of n M dir] by (simp_all add: assms(3) inputs_def outputs_def)
  have "splitNonManaged (fst l) (snd l) M = (?i, ?o)"
    using in_l ours by (simp add: splitNonManaged_eq [OF len] inputs_def outputs_def)
  then have "mergeManagedLast (fst l) (snd l) M ours dir = (fst l, snd l)"
    by (simp add: mergeManagedLast_def l Let_def)
  then show ?thesis by simp
qed

section \<open>The whole data plane\<close>

text \<open>
  The laws of the remaining calls: creating an ACL takes a free index; setting the list of an
  interface sets that list and nothing else; the dumps return the tables; deleting an ACL leaves
  every other ACL alone and succeeds on one that no interface uses.
\<close>

locale data_plane = acl_table api enc acl_of up
  for api :: "('v, 'p) vpp_api" and enc acl_of up +
  fixes list_of :: "'v \<Rightarrow> u32 \<Rightarrow> aclList"
    and ifaces_of :: "'v \<Rightarrow> iface_details list"
    and free :: "'v \<Rightarrow> nat"
  assumes create: "up v \<Longrightarrow> 0 < free v \<Longrightarrow> trim_nul tag = tag \<Longrightarrow>
      \<exists>i v'. ACLAddReplace api aclIndexUnset tag (word_of_nat (length rs)) rs v = (Inr i, v') \<and> up v' \<and>
        i \<noteq> aclIndexUnset \<and> acl_of v i = None \<and> acl_of v' = (acl_of v)(i \<mapsto> (tag, rs)) \<and>
        list_of v' = list_of v \<and> ifaces_of v' = ifaces_of v \<and> free v' = free v - 1"
    and set_list: "up v \<Longrightarrow>
      \<exists>v'. ACLInterfaceSetACLList api i (word_of_nat (length l)) n l v = (Inr (), v') \<and> up v' \<and>
        acl_of v' = acl_of v \<and> list_of v' = (list_of v)(i := \<lparr>al_acls = l, al_nInput = n\<rparr>) \<and>
        ifaces_of v' = ifaces_of v"
    and dump_lists: "up v \<Longrightarrow>
      \<exists>ds. ACLInterfaceListDump api v = Inr (ds, None) \<and>
        (\<forall>d\<in>set ds. list_of v (d_SwIfIndex d) = \<lparr>al_acls = d_Acls d, al_nInput = d_NInput d\<rparr>) \<and>
        (\<forall>i. i \<notin> d_SwIfIndex ` set ds \<longrightarrow> list_of v i = aclList_zero)"
    and dump_acls: "up v \<Longrightarrow>
      \<exists>ds. ACLDump api v = Inr (ds, None) \<and>
        (\<lambda>d. (d_ACLIndex d, trim_nul (d_Tag d))) ` set ds = {(i, t). \<exists>rs. acl_of v i = Some (t, rs)}"
    and dump_ifaces: "up v \<Longrightarrow> SwInterfaceDump api v = Inr (ifaces_of v, None)"
    and delete_frame: "up v \<Longrightarrow> \<exists>r v'. ACLDel api i v = (r, v') \<and> up v' \<and>
        (\<forall>j. j \<noteq> i \<longrightarrow> acl_of v' j = acl_of v j) \<and> list_of v' = list_of v \<and> ifaces_of v' = ifaces_of v"
    and delete_unused: "up v \<Longrightarrow> \<forall>j. i \<notin> set (al_acls (list_of v j)) \<Longrightarrow>
        \<exists>v'. ACLDel api i v = (Inr (), v') \<and> acl_of v' i = None"
begin

definition merged :: "u32 set \<Rightarrow> u32 list \<Rightarrow> direction \<Rightarrow> aclList \<Rightarrow> aclList" where
  "merged M ours dir cur =
     (let (l, n) = mergeManagedLast (al_acls cur) (al_nInput cur) M ours dir in \<lparr>al_acls = l, al_nInput = n\<rparr>)"

lemma attach_loop_ok:
  "up (cl_vpp c) \<Longrightarrow> \<exists>v'. attach_loop api tbl M ours ifs c = (Inr (), c\<lparr>cl_vpp := v'\<rparr>) \<and> up v' \<and>
     acl_of v' = acl_of (cl_vpp c) \<and>
     (\<forall>i. list_of v' i = (if i \<in> if_index ` set ifs
        then merged M ours (cfg_Direction (cl_cfg c)) (gget aclList_zero tbl i) else list_of (cl_vpp c) i))"
proof (induction ifs arbitrary: c)
  case Nil
  then show ?case by (intro exI [of _ "cl_vpp c"]) simp
next
  case (Cons x ifs)
  let ?cur = "gget aclList_zero tbl (if_index x)"
  obtain l n where ln: "mergeManagedLast (al_acls ?cur) (al_nInput ?cur) M ours (cfg_Direction (cl_cfg c)) = (l, n)"
    by force
  obtain v1 where v1: "ACLInterfaceSetACLList api (if_index x) (word_of_nat (length l)) n l (cl_vpp c) = (Inr (), v1)"
    "up v1" "acl_of v1 = acl_of (cl_vpp c)"
    "list_of v1 = (list_of (cl_vpp c))(if_index x := \<lparr>al_acls = l, al_nInput = n\<rparr>)"
    using set_list [OF Cons.prems] by blast
  from Cons.IH [of "c\<lparr>cl_vpp := v1\<rparr>"] v1(2) obtain v' where
    "attach_loop api tbl M ours ifs (c\<lparr>cl_vpp := v1\<rparr>) = (Inr (), c\<lparr>cl_vpp := v'\<rparr>)" "up v'" "acl_of v' = acl_of v1"
    "\<forall>i. list_of v' i = (if i \<in> if_index ` set ifs
        then merged M ours (cfg_Direction (cl_cfg c)) (gget aclList_zero tbl i) else list_of v1 i)"
    by auto
  with v1 ln show ?case by (intro exI [of _ v']) (auto simp: merged_def)
qed

lemma lists_fold:
  "(\<forall>d\<in>set ds. L (d_SwIfIndex d) = \<lparr>al_acls = d_Acls d, al_nInput = d_NInput d\<rparr>) \<Longrightarrow>
   gget aclList_zero (foldl (\<lambda>out d. gput (d_SwIfIndex d) \<lparr>al_acls = d_Acls d, al_nInput = d_NInput d\<rparr> out) out ds) i =
     (if i \<in> d_SwIfIndex ` set ds then L i else gget aclList_zero out i)"
  by (induction ds arbitrary: out) (auto simp: image_iff)

lemma interfaceACLLists_ok:
  assumes "up (cl_vpp c)"
  obtains tbl where "interfaceACLLists api c = Inr tbl" and "\<forall>i. gget aclList_zero tbl i = list_of (cl_vpp c) i"
proof -
  obtain ds where ds: "ACLInterfaceListDump api (cl_vpp c) = Inr (ds, None)"
    "\<forall>d\<in>set ds. list_of (cl_vpp c) (d_SwIfIndex d) = \<lparr>al_acls = d_Acls d, al_nInput = d_NInput d\<rparr>"
    "\<forall>i. i \<notin> d_SwIfIndex ` set ds \<longrightarrow> list_of (cl_vpp c) i = aclList_zero"
    using dump_lists [OF assms] by blast
  show thesis
  proof (rule that)
    show "interfaceACLLists api c = Inr (foldl (\<lambda>out d. gput (d_SwIfIndex d)
        \<lparr>al_acls = d_Acls d, al_nInput = d_NInput d\<rparr> out) [] ds)"
      by (simp add: interfaceACLLists_def ds(1) recv_all_def)
  qed (use lists_fold [OF ds(2)] ds(3) in simp)
qed

text \<open>The ACLs with one of the client's tags.\<close>

definition tagged :: "'v client \<Rightarrow> u32 set" where
  "tagged c = {i. \<exists>t rs. acl_of (cl_vpp c) i = Some (t, rs) \<and> t \<noteq> '''' \<and> (t = ACLTagV4 (cl_cfg c) \<or> t = ACLTagV6 (cl_cfg c))}"

lemma taggedACLs_ok:
  assumes "up (cl_vpp c)"
  obtains ts where "taggedACLs api c = Inr ts" and "set ts = tagged c"
proof -
  obtain ds where ds: "ACLDump api (cl_vpp c) = Inr (ds, None)"
    "(\<lambda>d. (d_ACLIndex d, trim_nul (d_Tag d))) ` set ds = {(i, t). \<exists>rs. acl_of (cl_vpp c) i = Some (t, rs)}"
    using dump_acls [OF assms] by blast
  let ?is = "map d_ACLIndex (filter (\<lambda>d. managedTag (cl_cfg c) (d_Tag d)) ds)"
  have "i \<in> set ?is \<longleftrightarrow> i \<in> tagged c" for i
  proof -
    have "i \<in> set ?is \<longleftrightarrow> (\<exists>t. (i, t) \<in> (\<lambda>d. (d_ACLIndex d, trim_nul (d_Tag d))) ` set ds \<and>
        t \<noteq> '''' \<and> (t = ACLTagV4 (cl_cfg c) \<or> t = ACLTagV6 (cl_cfg c)))"
      by (auto simp: managedTag_def Let_def image_iff)
    then show ?thesis unfolding ds(2) tagged_def by auto
  qed
  with that [of ?is] ds(1) show thesis by (auto simp: taggedACLs_def recv_all_def)
qed

lemma attachLocked_ok:
  assumes "up (cl_vpp c)" and "aclIndices c \<noteq> []"
  obtains v' where "attachLocked api c = (Inr (), c\<lparr>cl_vpp := v'\<rparr>)" and "up v'"
    and "acl_of v' = acl_of (cl_vpp c)"
    and "\<And>i. list_of v' i = (if i \<in> if_index ` set (List.map_filter (select_iface (cl_cfg c)) (ifaces_of (cl_vpp c)))
        then merged (tagged c \<union> set (aclIndices c)) (aclIndices c) (cfg_Direction (cl_cfg c)) (list_of (cl_vpp c) i)
        else list_of (cl_vpp c) i)"
proof -
  let ?ifs = "List.map_filter (select_iface (cl_cfg c)) (ifaces_of (cl_vpp c))"
  have ifs: "dataPlaneInterfaces api c = Inr ?ifs"
    by (simp add: dataPlaneInterfaces_def dump_ifaces [OF assms(1)] recv_all_def)
  show thesis
  proof (cases "?ifs = []")
    case True
    with that [of "cl_vpp c"] assms ifs show thesis by (simp add: attachLocked_def Let_def)
  next
    case False
    obtain ts where ts: "taggedACLs api c = Inr ts" "set ts = tagged c" by (rule taggedACLs_ok [OF assms(1)])
    obtain tbl where tbl: "interfaceACLLists api c = Inr tbl" "\<forall>i. gget aclList_zero tbl i = list_of (cl_vpp c) i"
      by (rule interfaceACLLists_ok [OF assms(1)])
    obtain v' where "attach_loop api tbl (tagged c \<union> set (aclIndices c)) (aclIndices c) ?ifs c = (Inr (), c\<lparr>cl_vpp := v'\<rparr>)"
      "up v'" "acl_of v' = acl_of (cl_vpp c)"
      "\<forall>i. list_of v' i = (if i \<in> if_index ` set ?ifs
        then merged (tagged c \<union> set (aclIndices c)) (aclIndices c) (cfg_Direction (cl_cfg c)) (gget aclList_zero tbl i)
        else list_of (cl_vpp c) i)"
      using attach_loop_ok [OF assms(1)] by blast
    with that [of v'] False ifs ts tbl assms(2) show thesis by (simp add: attachLocked_def Let_def)
  qed
qed

end

end
