(* ===== verification/VppLife.thy ===== *)
theory VppLife
  imports VppData
begin

text \<open>
  The life cycle of the client over a data plane that keeps the laws: the start and every
  reconnection create two fresh managed ACLs, put them last on the selected interfaces, and remove
  the ACLs a former run left behind. A reference data plane shows that the laws can hold.
\<close>

section \<open>Start and reconnection\<close>

context data_plane
begin

lemma delete_acls_ok:
  "up (cl_vpp c) \<Longrightarrow> \<exists>v'. delete_acls api ks c = c\<lparr>cl_vpp := v'\<rparr> \<and> up v' \<and>
     (\<forall>j. j \<notin> set ks \<longrightarrow> acl_of v' j = acl_of (cl_vpp c) j) \<and>
     (\<forall>j\<in>set ks. (\<forall>x. j \<notin> set (al_acls (list_of (cl_vpp c) x))) \<longrightarrow> acl_of v' j = None) \<and>
     list_of v' = list_of (cl_vpp c)"
proof (induction ks arbitrary: c)
  case Nil
  then show ?case by (intro exI [of _ "cl_vpp c"]) simp
next
  case (Cons k ks)
  obtain r v1 where v1: "ACLDel api k (cl_vpp c) = (r, v1)" "up v1"
    "\<forall>j. j \<noteq> k \<longrightarrow> acl_of v1 j = acl_of (cl_vpp c) j" "list_of v1 = list_of (cl_vpp c)"
    using delete_frame [OF Cons.prems] by blast
  have del: "\<forall>x. k \<notin> set (al_acls (list_of (cl_vpp c) x)) \<Longrightarrow> acl_of v1 k = None"
    using delete_unused [OF Cons.prems, of k] v1(1) by auto
  obtain v' where v': "delete_acls api ks (c\<lparr>cl_vpp := v1\<rparr>) = c\<lparr>cl_vpp := v'\<rparr>" "up v'"
    "\<forall>j. j \<notin> set ks \<longrightarrow> acl_of v' j = acl_of v1 j"
    "\<forall>j\<in>set ks. (\<forall>x. j \<notin> set (al_acls (list_of v1 x))) \<longrightarrow> acl_of v' j = None" "list_of v' = list_of v1"
    using Cons.IH [of "c\<lparr>cl_vpp := v1\<rparr>"] v1(2) by auto
  show ?case
  proof (intro exI [of _ v'] conjI allI impI ballI)
    show "delete_acls api (k # ks) c = c\<lparr>cl_vpp := v'\<rparr>" using v' v1 by simp
    show "up v'" "list_of v' = list_of (cl_vpp c)" using v' v1 by simp_all
    show "acl_of v' j = acl_of (cl_vpp c) j" if "j \<notin> set (k # ks)" for j using that v' v1 by simp
    show "acl_of v' j = None" if "j \<in> set (k # ks)" "\<forall>x. j \<notin> set (al_acls (list_of (cl_vpp c) x))" for j
      using that v' v1 del by (cases "j \<in> set ks") auto
  qed
qed

lemma replaceACLLocked_new:
  assumes "up (cl_vpp c)" and "0 < free (cl_vpp c)" and "idx_of c f = aclIndexUnset"
    and "tags_ok (cl_cfg c)"
  obtains i v' where "replaceACLLocked api f [] c = (Inr (), c\<lparr>cl_idx := gput f i (cl_idx c), cl_vpp := v'\<rparr>)"
    and "up v'" and "i \<noteq> aclIndexUnset" and "acl_of (cl_vpp c) i = None"
    and "acl_of v' = (acl_of (cl_vpp c))(i \<mapsto> (tag_of c f, managed_rules enc f []))"
    and "list_of v' = list_of (cl_vpp c)" and "ifaces_of v' = ifaces_of (cl_vpp c)" and "free v' = free (cl_vpp c) - 1"
proof -
  have "buildACLRules api f [] = Inr (managed_rules enc f [])" by (rule buildACLRules_ok) simp
  moreover obtain i v' where "ACLAddReplace api aclIndexUnset (tag_of c f)
      (word_of_nat (length (managed_rules enc f []))) (managed_rules enc f []) (cl_vpp c) = (Inr i, v')"
    "up v'" "i \<noteq> aclIndexUnset" "acl_of (cl_vpp c) i = None"
    "acl_of v' = (acl_of (cl_vpp c))(i \<mapsto> (tag_of c f, managed_rules enc f []))"
    "list_of v' = list_of (cl_vpp c)" "ifaces_of v' = ifaces_of (cl_vpp c)" "free v' = free (cl_vpp c) - 1"
    using create [OF assms(1,2) tag_of_ok [OF assms(4)]] by blast
  ultimately show thesis
    using that assms(3) by (simp add: replaceACLLocked_def Let_def idx_of_def tag_of_def)
qed

definition selected :: "'v client \<Rightarrow> u32 set" where
  "selected c = if_index ` set (List.map_filter (select_iface (cl_cfg c)) (ifaces_of (cl_vpp c)))"

text \<open>What a successful start leaves: the client \<open>c'\<close> after it, given the client \<open>c\<close> before.\<close>

definition started :: "'v client \<Rightarrow> 'v client \<Rightarrow> bool" where
  "started c c' \<longleftrightarrow> client_ready c' \<and> cl_cfg c' = cl_cfg c \<and>
     (\<forall>f. client_contents c' f = Some (managed_rules enc f [])) \<and>
     (\<forall>f. idx_of c' f \<noteq> aclIndexUnset \<and> acl_of (cl_vpp c) (idx_of c' f) = None) \<and>
     (\<forall>i. list_of (cl_vpp c') i =
       (if i \<in> selected c then
          merged (tagged c \<union> {idx_of c' IPv4, idx_of c' IPv6}) [idx_of c' IPv4, idx_of c' IPv6]
            (cfg_Direction (cl_cfg c)) (list_of (cl_vpp c) i)
        else list_of (cl_vpp c) i)) \<and>
     (\<forall>j\<in>tagged c. (\<forall>x. j \<notin> set (al_acls (list_of (cl_vpp c') x))) \<longrightarrow> acl_of (cl_vpp c') j = None) \<and>
     (\<forall>j. j \<notin> tagged c \<longrightarrow> j \<notin> {idx_of c' IPv4, idx_of c' IPv6} \<longrightarrow> acl_of (cl_vpp c') j = acl_of (cl_vpp c) j)"

text \<open>The two creations at the beginning of a start.\<close>

lemma create_both:
  assumes "up (cl_vpp c)" and "2 \<le> free (cl_vpp c)" and "\<forall>f. idx_of c f = aclIndexUnset"
    and "tags_ok (cl_cfg c)"
  obtains c1 i4 i6 v2 where "replaceACLLocked api IPv4 [] c = (Inr (), c1)"
    and "replaceACLLocked api IPv6 [] c1 =
      (Inr (), c\<lparr>cl_idx := gput IPv6 i6 (gput IPv4 i4 (cl_idx c)), cl_vpp := v2\<rparr>)"
    and "up v2" and "i4 \<noteq> aclIndexUnset" and "i6 \<noteq> aclIndexUnset" and "i4 \<noteq> i6"
    and "acl_of (cl_vpp c) i4 = None" and "acl_of (cl_vpp c) i6 = None"
    and "acl_of v2 = (acl_of (cl_vpp c))(i4 \<mapsto> (tag_of c IPv4, managed_rules enc IPv4 []),
                                         i6 \<mapsto> (tag_of c IPv6, managed_rules enc IPv6 []))"
    and "list_of v2 = list_of (cl_vpp c)" and "ifaces_of v2 = ifaces_of (cl_vpp c)"
proof -
  obtain i4 v1 where r1: "replaceACLLocked api IPv4 [] c = (Inr (), c\<lparr>cl_idx := gput IPv4 i4 (cl_idx c), cl_vpp := v1\<rparr>)"
    "up v1" "i4 \<noteq> aclIndexUnset" "acl_of (cl_vpp c) i4 = None"
    "acl_of v1 = (acl_of (cl_vpp c))(i4 \<mapsto> (tag_of c IPv4, managed_rules enc IPv4 []))"
    "list_of v1 = list_of (cl_vpp c)" "ifaces_of v1 = ifaces_of (cl_vpp c)" "free v1 = free (cl_vpp c) - 1"
    by (rule replaceACLLocked_new [of c IPv4]) (use assms in auto)
  let ?c1 = "c\<lparr>cl_idx := gput IPv4 i4 (cl_idx c), cl_vpp := v1\<rparr>"
  have "tag_of ?c1 IPv6 = tag_of c IPv6" by (simp add: tag_of_def)
  with assms r1 have "up (cl_vpp ?c1)" "0 < free (cl_vpp ?c1)" "idx_of ?c1 IPv6 = aclIndexUnset"
    "tags_ok (cl_cfg ?c1)"
    by (auto simp: idx_of_def)
  then obtain i6 v2 where r2:
    "replaceACLLocked api IPv6 [] ?c1 = (Inr (), ?c1\<lparr>cl_idx := gput IPv6 i6 (cl_idx ?c1), cl_vpp := v2\<rparr>)"
    "up v2" "i6 \<noteq> aclIndexUnset" "acl_of (cl_vpp ?c1) i6 = None"
    "acl_of v2 = (acl_of (cl_vpp ?c1))(i6 \<mapsto> (tag_of ?c1 IPv6, managed_rules enc IPv6 []))"
    "list_of v2 = list_of (cl_vpp ?c1)" "ifaces_of v2 = ifaces_of (cl_vpp ?c1)"
    by (rule replaceACLLocked_new)
  have "tag_of ?c1 IPv6 = tag_of c IPv6" by (simp add: tag_of_def)
  with r1 r2 show thesis
    by (intro that [where ?c1.0 = ?c1 and ?i4.0 = i4 and ?i6.0 = i6 and ?v2.0 = v2]) (auto split: if_splits)
qed

text \<open>The deletion at the end of a start.\<close>

lemma cleanup_ok:
  assumes "up (cl_vpp c)" and "set keep \<subseteq> tagged c"
  obtains v' where "cleanupTaggedExcept api keep c = c\<lparr>cl_vpp := v'\<rparr>" and "up v'"
    and "\<forall>j. j \<notin> tagged c - set keep \<longrightarrow> acl_of v' j = acl_of (cl_vpp c) j"
    and "\<forall>j\<in>tagged c - set keep. (\<forall>x. j \<notin> set (al_acls (list_of (cl_vpp c) x))) \<longrightarrow> acl_of v' j = None"
    and "list_of v' = list_of (cl_vpp c)"
proof -
  obtain ts where ts: "taggedACLs api c = Inr ts" "set ts = tagged c" by (rule taggedACLs_ok [OF assms(1)])
  have ks: "set (filter (\<lambda>i. i \<notin> set keep) ts) = tagged c - set keep" using ts(2) by auto
  obtain v' where "delete_acls api (filter (\<lambda>i. i \<notin> set keep) ts) c = c\<lparr>cl_vpp := v'\<rparr>" "up v'"
    "\<forall>j. j \<notin> tagged c - set keep \<longrightarrow> acl_of v' j = acl_of (cl_vpp c) j"
    "\<forall>j\<in>tagged c - set keep. (\<forall>x. j \<notin> set (al_acls (list_of (cl_vpp c) x))) \<longrightarrow> acl_of v' j = None"
    "list_of v' = list_of (cl_vpp c)"
    using delete_acls_ok [OF assms(1), of "filter (\<lambda>i. i \<notin> set keep) ts"] unfolding ks by blast
  with ts that show thesis by (simp add: cleanupTaggedExcept_def)
qed

lemma all_families: "(\<forall>f. P f) \<longleftrightarrow> P IPv4 \<and> P IPv6"
  by (metis vpp_family.exhaust)

lemma bootstrapLocked_ok:
  assumes "up (cl_vpp c)" and "2 \<le> free (cl_vpp c)" and "\<forall>f. idx_of c f = aclIndexUnset"
    and "tags_ok (cl_cfg c)"
  obtains c' where "bootstrapLocked api c = (Inr (), c')" and "started c c'"
proof -
  obtain c1 i4 i6 v2 where r: "replaceACLLocked api IPv4 [] c = (Inr (), c1)"
    "replaceACLLocked api IPv6 [] c1 = (Inr (), c\<lparr>cl_idx := gput IPv6 i6 (gput IPv4 i4 (cl_idx c)), cl_vpp := v2\<rparr>)"
    and up2: "up v2" and i: "i4 \<noteq> aclIndexUnset" "i6 \<noteq> aclIndexUnset" "i4 \<noteq> i6"
    and new: "acl_of (cl_vpp c) i4 = None" "acl_of (cl_vpp c) i6 = None"
    and acl2: "acl_of v2 = (acl_of (cl_vpp c))(i4 \<mapsto> (tag_of c IPv4, managed_rules enc IPv4 []),
                                               i6 \<mapsto> (tag_of c IPv6, managed_rules enc IPv6 []))"
    and same2: "list_of v2 = list_of (cl_vpp c)" "ifaces_of v2 = ifaces_of (cl_vpp c)"
    by (rule create_both [OF assms(1-4)])
  let ?c2 = "c\<lparr>cl_idx := gput IPv6 i6 (gput IPv4 i4 (cl_idx c)), cl_vpp := v2\<rparr>"
  have acls: "aclIndices ?c2 = [i4, i6]" using i by (simp add: aclIndices_def)
  have twice: "insert i4 (insert i6 (insert i4 (insert i6 T))) = insert i4 (insert i6 T)" for T by auto
  have tg: "tagged ?c2 = tagged c \<union> {i4, i6}"
    using acl2 new assms(4) i(3) by (auto simp: tagged_def tag_of_def tags_ok_def split: if_splits)
  have "up (cl_vpp ?c2)" "aclIndices ?c2 \<noteq> []" using up2 acls by simp_all
  then obtain v3 where v3: "attachLocked api ?c2 = (Inr (), ?c2\<lparr>cl_vpp := v3\<rparr>)" "up v3" "acl_of v3 = acl_of (cl_vpp ?c2)"
    and l3: "\<forall>i. list_of v3 i = (if i \<in> if_index ` set (List.map_filter (select_iface (cl_cfg ?c2)) (ifaces_of (cl_vpp ?c2)))
        then merged (tagged ?c2 \<union> set (aclIndices ?c2)) (aclIndices ?c2) (cfg_Direction (cl_cfg ?c2)) (list_of (cl_vpp ?c2) i)
        else list_of (cl_vpp ?c2) i)"
    using attachLocked_ok [of ?c2] by metis
  let ?c3 = "?c2\<lparr>cl_vpp := v3\<rparr>"
  have tg3: "tagged ?c3 = tagged c \<union> {i4, i6}" using v3(3) tg by (simp add: tagged_def)
  have "up (cl_vpp ?c3)" "set [i4, i6] \<subseteq> tagged ?c3" using v3(2) tg3 by auto
  then obtain v' where v': "cleanupTaggedExcept api [i4, i6] ?c3 = ?c3\<lparr>cl_vpp := v'\<rparr>" "up v'"
    and keep: "\<forall>j. j \<notin> tagged ?c3 - set [i4, i6] \<longrightarrow> acl_of v' j = acl_of (cl_vpp ?c3) j"
    and del: "\<forall>j\<in>tagged ?c3 - set [i4, i6]. (\<forall>x. j \<notin> set (al_acls (list_of (cl_vpp ?c3) x))) \<longrightarrow> acl_of v' j = None"
    and same': "list_of v' = list_of (cl_vpp ?c3)"
    by (rule cleanup_ok)
  let ?c' = "?c3\<lparr>cl_vpp := v'\<rparr>"
  have boot: "bootstrapLocked api c = (Inr (), ?c')" using r v3(1) v'(1) by (simp add: bootstrapLocked_def)
  have idx: "idx_of ?c' IPv4 = i4" "idx_of ?c' IPv6 = i6" by (simp_all add: idx_of_def)
  have old: "i4 \<notin> tagged c" "i6 \<notin> tagged c" using new by (auto simp: tagged_def)
  have own: "acl_of v' i4 = Some (tag_of c IPv4, managed_rules enc IPv4 [])"
    "acl_of v' i6 = Some (tag_of c IPv6, managed_rules enc IPv6 [])"
    using keep v3(3) acl2 i(3) by auto
  have "started c ?c'"
    unfolding started_def
  proof (intro conjI ballI)
    show "client_ready ?c'"
      using v'(2) own i(3) assms(4) by (simp add: client_ready_def all_families idx_of_def)
    show "\<forall>f. client_contents ?c' f = Some (managed_rules enc f [])"
      using own by (simp add: client_contents_def all_families idx_of_def)
    show "\<forall>f. idx_of ?c' f \<noteq> aclIndexUnset \<and> acl_of (cl_vpp c) (idx_of ?c' f) = None"
      using i new by (simp add: all_families idx_of_def)
    show "\<forall>i. list_of (cl_vpp ?c') i =
       (if i \<in> selected c then
          merged (tagged c \<union> {idx_of ?c' IPv4, idx_of ?c' IPv6}) [idx_of ?c' IPv4, idx_of ?c' IPv6]
            (cfg_Direction (cl_cfg c)) (list_of (cl_vpp c) i)
        else list_of (cl_vpp c) i)"
      using same' l3 same2 by (simp add: idx_of_def tg acls selected_def twice)
    show "(\<forall>x. j \<notin> set (al_acls (list_of (cl_vpp ?c') x))) \<longrightarrow> acl_of (cl_vpp ?c') j = None"
      if "j \<in> tagged c" for j
    proof -
      have "j \<in> tagged ?c3 - set [i4, i6]" using that old tg3 by auto
      with del same' show ?thesis by simp
    qed
    show "\<forall>j. j \<notin> tagged c \<longrightarrow> j \<notin> {idx_of ?c' IPv4, idx_of ?c' IPv6} \<longrightarrow>
        acl_of (cl_vpp ?c') j = acl_of (cl_vpp c) j"
    proof (intro allI impI)
      fix j
      assume "j \<notin> tagged c" and j: "j \<notin> {idx_of ?c' IPv4, idx_of ?c' IPv6}"
      then have "j \<notin> tagged ?c3 - set [i4, i6]" unfolding tg3 by auto
      with keep have "acl_of v' j = acl_of (cl_vpp ?c3) j" by blast
      with v3(3) acl2 j show "acl_of (cl_vpp ?c') j = acl_of (cl_vpp c) j" by (simp add: idx_of_def)
    qed
  qed simp
  with boot that show thesis by blast
qed

lemma reconnect_ok:
  assumes "up (cl_vpp c)" and "2 \<le> free (cl_vpp c)"
    and "tags_ok (cl_cfg c)"
  obtains c' where "handleEvent api Connected c = (c', True)" and "started c c'"
proof -
  let ?c0 = "c\<lparr>cl_idx := gput IPv6 aclIndexUnset (gput IPv4 aclIndexUnset (cl_idx c))\<rparr>"
  have "\<forall>f. idx_of ?c0 f = aclIndexUnset" by (simp add: all_families idx_of_def)
  moreover have "up (cl_vpp ?c0)" "2 \<le> free (cl_vpp ?c0)" "tags_ok (cl_cfg ?c0)"
    using assms by simp_all
  ultimately obtain c' where "bootstrapLocked api ?c0 = (Inr (), c')" "started ?c0 c'"
    by (metis bootstrapLocked_ok)
  moreover have "started ?c0 c' = started c c'" by (simp add: started_def selected_def tagged_def)
  ultimately show thesis using that by (simp add: handleEvent_def Let_def)
qed

end

section \<open>A reference data plane\<close>

text \<open>
  A table of ACLs with their tags, the lists of the interfaces, and the interfaces. Prefixes are
  their text. A new ACL gets the least free index, and an ACL in use cannot be deleted.
\<close>

record ref_plane =
  rp_acls :: "(u32, string \<times> string bin_rule list) gomap"
  rp_lists :: "(u32, aclList) gomap"
  rp_ifaces :: "iface_details list"

definition rp_room :: "ref_plane \<Rightarrow> nat" where
  "rp_room v = 4294967295 - length (rp_acls v)"

definition rp_index :: "ref_plane \<Rightarrow> u32" where
  "rp_index v = hd (filter (\<lambda>i. i \<notin> set (map fst (rp_acls v))) (map word_of_nat [0..<Suc (length (rp_acls v))]))"

definition rp_add_replace ::
  "u32 \<Rightarrow> string \<Rightarrow> u32 \<Rightarrow> string bin_rule list \<Rightarrow> ref_plane \<Rightarrow> (verr + u32) \<times> ref_plane" where
  "rp_add_replace i tag n rs v =
     (if i = aclIndexUnset then
        if rp_room v = 0 then (Inl (Errorf (msg ''table full'')), v)
        else (Inr (rp_index v), v\<lparr>rp_acls := gput (rp_index v) (tag, rs) (rp_acls v)\<rparr>)
      else if map_of (rp_acls v) i = None then (Inl (Errorf (msg ''no such entry'')), v)
      else (Inr i, v\<lparr>rp_acls := gput i (tag, rs) (rp_acls v)\<rparr>))"

definition rp_delete :: "u32 \<Rightarrow> ref_plane \<Rightarrow> (verr + unit) \<times> ref_plane" where
  "rp_delete i v =
     (if list_ex (\<lambda>l. i \<in> set (al_acls (snd l))) (rp_lists v) then (Inl (Errorf (msg ''in use'')), v)
      else (Inr (), v\<lparr>rp_acls := gdel i (rp_acls v)\<rparr>))"

definition ref_api :: "(ref_plane, string) vpp_api" where
  "ref_api = \<lparr>ip_ParsePrefix = Inr, ACLAddReplace = rp_add_replace, ACLDel = rp_delete,
     ACLDump = (\<lambda>v. Inr (map (\<lambda>(i, t, rs). \<lparr>d_ACLIndex = i, d_Tag = t\<rparr>) (rp_acls v), None)),
     ACLInterfaceListDump =
       (\<lambda>v. Inr (map (\<lambda>(i, l). \<lparr>d_SwIfIndex = i, d_NInput = al_nInput l, d_Acls = al_acls l\<rparr>) (rp_lists v), None)),
     ACLInterfaceSetACLList =
       (\<lambda>i cnt n l v. (Inr (), v\<lparr>rp_lists := gput i \<lparr>al_acls = l, al_nInput = n\<rparr> (rp_lists v)\<rparr>)),
     SwInterfaceDump = (\<lambda>v. Inr (rp_ifaces v, None)), range_ifaces = id\<rparr>"

definition rp_up :: "ref_plane \<Rightarrow> bool" where
  "rp_up v \<longleftrightarrow> gwf (rp_acls v) \<and> gwf (rp_lists v) \<and> (\<forall>(i, t, rs)\<in>set (rp_acls v). trim_nul t = t \<and> i \<noteq> aclIndexUnset)"

lemma rp_index_fresh:
  assumes "0 < rp_room v"
  shows "map_of (rp_acls v) (rp_index v) = None" and "rp_index v \<noteq> aclIndexUnset"
proof -
  let ?used = "set (map fst (rp_acls v))" and ?n = "length (rp_acls v)"
  let ?cand = "map word_of_nat [0..<Suc ?n] :: u32 list"
  have n: "Suc ?n < 2 ^ 32" using assms by (simp add: rp_room_def)
  have un: "unat (word_of_nat k :: u32) = k" if "k \<le> ?n" for k
    using that n by (intro unat_word_of_nat) simp
  have "inj_on (word_of_nat :: nat \<Rightarrow> u32) {0..<Suc ?n}"
    by (rule inj_on_inverseI [of _ unat]) (simp add: un)
  then have "card (set ?cand) = Suc ?n" by (simp only: set_map set_upt card_image card_atLeastLessThan)
  moreover have "card ?used \<le> ?n" using card_length [of "map fst (rp_acls v)"] by simp
  ultimately have "\<not> set ?cand \<subseteq> ?used" using card_mono [of ?used "set ?cand"] by auto
  then have ne: "filter (\<lambda>i. i \<notin> ?used) ?cand \<noteq> []" by (auto simp: filter_empty_conv simp del: upt_Suc)
  have "rp_index v \<in> set (filter (\<lambda>i. i \<notin> ?used) ?cand)"
    unfolding rp_index_def by (rule hd_in_set [OF ne])
  then have "rp_index v \<notin> ?used" and "rp_index v \<in> set ?cand" by (simp_all del: upt_Suc)
  then show "map_of (rp_acls v) (rp_index v) = None" by (simp add: map_of_eq_None_iff)
  from \<open>rp_index v \<in> set ?cand\<close> obtain k where "k < Suc ?n" "rp_index v = word_of_nat k"
    unfolding set_map set_upt by (elim imageE) simp
  then have "k \<le> ?n" "rp_index v = word_of_nat k" by simp_all
  then have "unat (rp_index v) < 4294967295" using un n assms by (simp add: rp_room_def)
  moreover have "unat aclIndexUnset = 4294967295"
    by (simp add: aclIndexUnset_def unsigned_minus_1_eq_mask mask_eq_exp_minus_1)
  ultimately show "rp_index v \<noteq> aclIndexUnset" by auto
qed

lemma gput_new_length: "map_of m k = None \<Longrightarrow> length (gput k v m) = Suc (length m)"
  by (induction m) (auto split: if_splits)

lemma set_gput: "gwf m \<Longrightarrow> set (gput k v m) = insert (k, v) {x \<in> set m. fst x \<noteq> k}"
  by (induction m) (auto simp: image_iff)

lemma set_gdel: "set (gdel k m) = {x \<in> set m. fst x \<noteq> k}"
  by (induction m) auto

interpretation ref: acl_table ref_api pfx_String "\<lambda>v. map_of (rp_acls v)" rp_up
proof
  fix v :: ref_plane and i tag rs
  assume "rp_up v" "map_of (rp_acls v) i \<noteq> None" "trim_nul tag = tag"
  moreover from this have "i \<noteq> aclIndexUnset" by (auto simp: rp_up_def dest: map_of_SomeD)
  ultimately show "\<exists>v'. ACLAddReplace ref_api i tag (word_of_nat (length rs)) rs v = (Inr i, v') \<and> rp_up v' \<and>
      map_of (rp_acls v') = (map_of (rp_acls v))(i \<mapsto> (tag, rs))"
    by (auto simp: ref_api_def rp_add_replace_def rp_up_def set_gput)
qed (simp add: ref_api_def)

definition rp_list_of :: "ref_plane \<Rightarrow> u32 \<Rightarrow> aclList" where
  "rp_list_of v i = gget aclList_zero (rp_lists v) i"

interpretation refp: data_plane ref_api pfx_String "\<lambda>v. map_of (rp_acls v)" rp_up rp_list_of rp_ifaces rp_room
proof
  fix v :: ref_plane and i n l tag rs
  assume up: "rp_up v"
  then have wf: "gwf (rp_acls v)" "gwf (rp_lists v)" by (simp_all add: rp_up_def)
  show "\<exists>i v'. ACLAddReplace ref_api aclIndexUnset tag (word_of_nat (length rs)) rs v = (Inr i, v') \<and> rp_up v' \<and>
        i \<noteq> aclIndexUnset \<and> map_of (rp_acls v) i = None \<and>
        map_of (rp_acls v') = (map_of (rp_acls v))(i \<mapsto> (tag, rs)) \<and>
        rp_list_of v' = rp_list_of v \<and> rp_ifaces v' = rp_ifaces v \<and> rp_room v' = rp_room v - 1"
    if "0 < rp_room v" "trim_nul tag = tag"
    using up that rp_index_fresh [OF that(1)]
    by (intro exI [of _ "rp_index v"])
      (auto simp: ref_api_def rp_add_replace_def rp_up_def set_gput fun_eq_iff rp_list_of_def rp_room_def gput_new_length)
  show "\<exists>v'. ACLInterfaceSetACLList ref_api i (word_of_nat (length l)) n l v = (Inr (), v') \<and> rp_up v' \<and>
        map_of (rp_acls v') = map_of (rp_acls v) \<and>
        rp_list_of v' = (rp_list_of v)(i := \<lparr>al_acls = l, al_nInput = n\<rparr>) \<and> rp_ifaces v' = rp_ifaces v"
    using up by (auto simp: ref_api_def rp_up_def rp_list_of_def fun_eq_iff)
  have "rp_list_of v j = x" if "(j, x) \<in> set (rp_lists v)" for j x
    using map_of_is_SomeI [OF wf(2) that] by (simp add: rp_list_of_def gget_def)
  moreover have "rp_list_of v j = aclList_zero" if "j \<notin> fst ` set (rp_lists v)" for j
    using that map_of_eq_None_iff [of "rp_lists v" j] by (simp add: rp_list_of_def gget_def)
  ultimately show "\<exists>ds. ACLInterfaceListDump ref_api v = Inr (ds, None) \<and>
        (\<forall>d\<in>set ds. rp_list_of v (d_SwIfIndex d) = \<lparr>al_acls = d_Acls d, al_nInput = d_NInput d\<rparr>) \<and>
        (\<forall>i. i \<notin> d_SwIfIndex ` set ds \<longrightarrow> rp_list_of v i = aclList_zero)"
    by (auto simp: ref_api_def image_image case_prod_unfold)
  show "\<exists>ds. ACLDump ref_api v = Inr (ds, None) \<and>
        (\<lambda>d. (d_ACLIndex d, trim_nul (d_Tag d))) ` set ds = {(i, t). \<exists>rs. map_of (rp_acls v) i = Some (t, rs)}"
    using up wf by (force simp: ref_api_def rp_up_def image_image case_prod_unfold)
  show "SwInterfaceDump ref_api v = Inr (rp_ifaces v, None)" by (simp add: ref_api_def)
  show "\<exists>r v'. ACLDel ref_api i v = (r, v') \<and> rp_up v' \<and>
        (\<forall>j. j \<noteq> i \<longrightarrow> map_of (rp_acls v') j = map_of (rp_acls v) j) \<and> rp_list_of v' = rp_list_of v \<and>
        rp_ifaces v' = rp_ifaces v"
    using up by (auto simp: ref_api_def rp_delete_def rp_up_def rp_list_of_def fun_eq_iff set_gdel)
  show "\<exists>v'. ACLDel ref_api i v = (Inr (), v') \<and> map_of (rp_acls v') i = None"
    if "\<forall>j. i \<notin> set (al_acls (rp_list_of v j))"
  proof -
    have "i \<notin> set (al_acls (snd x))" if "x \<in> set (rp_lists v)" for x
      using that \<open>\<forall>j. i \<notin> set (al_acls (rp_list_of v j))\<close> map_of_is_SomeI [OF wf(2), of "fst x" "snd x"]
      by (auto simp: rp_list_of_def gget_def dest: spec [of _ "fst x"])
    then have "\<not> list_ex (\<lambda>l. i \<in> set (al_acls (snd l))) (rp_lists v)" by (auto simp: list_ex_iff)
    then show ?thesis by (simp add: ref_api_def rp_delete_def)
  qed
qed

end
