(* ===== verification/Enforcement.thy ===== *)
theory Enforcement
  imports VppLife
begin

text \<open>
  The properties of the manager and of the VPP client, and of the two together: from the updates
  of the sessions to the packets an interface drops.
\<close>

section \<open>Sample environment\<close>

definition sample_update :: Update where
  "sample_update = \<lparr>u_Session = ''s1'', u_Op = OpAnnounce, u_Rule = Some sample_rule, u_Peer = ''192.0.2.1''\<rparr>"

definition sample_env :: "ref_plane client mgr_env" where
  "sample_env = \<lparr>ReplaceACL = ReplaceACL_client ref_api, fmt_match = (\<lambda>m. ''''), range_families = rev, range_keys = id\<rparr>"

definition sample_cfg :: ClientConfig where
  "sample_cfg = \<lparr>Socket = ''/run/vpp/api.sock'', InterfaceMode = ''all'', InterfaceList = [], cfg_Direction = Ingress,
     ACLTagV4 = ''flowspec-managed-ip4'', ACLTagV6 = ''flowspec-managed-ip6''\<rparr>"

text \<open>A data plane with one interface that an operator has given ACL 7.\<close>

definition sample_plane :: ref_plane where
  "sample_plane = \<lparr>rp_acls = [(7, ''manual'', [])], rp_lists = [(1, \<lparr>al_acls = [7], al_nInput = 1\<rparr>)],
     rp_ifaces = [\<lparr>sw_SwIfIndex = 0, sw_InterfaceName = ''local0''\<rparr>, \<lparr>sw_SwIfIndex = 1, sw_InterfaceName = ''eth0''\<rparr>]\<rparr>"

definition sample_client :: "ref_plane client" where
  "sample_client = \<lparr>cl_cfg = sample_cfg, cl_idx = [(IPv4, 0), (IPv6, 1)],
     cl_vpp = sample_plane\<lparr>rp_acls := [(0, ''flowspec-managed-ip4'', managed_rules pfx_String IPv4 []),
       (1, ''flowspec-managed-ip6'', managed_rules pfx_String IPv6 []), (7, ''manual'', [])]\<rparr>\<rparr>"

lemma sample_env_ok: "env_ok sample_env" "ReplaceACL sample_env = ReplaceACL_client ref_api"
  by (simp_all add: env_ok_def sample_env_def)

lemma sample_update_ok: "update_ok sample_update" "\<forall>u\<in>set [sample_update]. update_ok u"
  by (simp_all add: update_ok_def sample_update_def sample_rule_def match_wf_def Match_zero_def prefix_wf_def pfx_IsValid_def)

lemma sample_trim: "trim_nul ''flowspec-managed-ip4'' = ''flowspec-managed-ip4''"
  "trim_nul ''flowspec-managed-ip6'' = ''flowspec-managed-ip6''" "trim_nul ''manual'' = ''manual''"
  by (simp_all add: trim_nul_def)

lemma sample_tags_ok: "tags_ok sample_cfg"
  by (simp add: tags_ok_def sample_cfg_def sample_trim)

lemma sample_plane_up: "rp_up sample_plane" "2 \<le> rp_room sample_plane" "rp_up (cl_vpp sample_client)"
  by (simp_all add: rp_up_def sample_plane_def sample_client_def rp_room_def sample_trim aclIndexUnset_def)

section \<open>The manager\<close>

text \<open>
  C9: In every reachable state of the manager the reference count of a key for a session is the
  number of routes of that session that translate to it, the keys recorded for a session are
  exactly those it owns, an entry exists exactly while some session owns it, and no table keeps
  an empty row. This holds for every order in which Go enumerates its maps.
\<close>

theorem manager_invariant:
  assumes "mgr_reachable env b m" and "env_ok env"
  shows "own m k s = card {i. routeKey i s m = Some k} \<and>
    (k \<in> set (gget [] (sessionRules m) s) \<longleftrightarrow> 0 < own m k s) \<and>
    (map_of (entries m) k \<noteq> None \<longleftrightarrow> (\<exists>s'. 0 < own m k s')) \<and>
    map_of (sessionRoutes m) s \<noteq> Some [] \<and> map_of (sessionRules m) s \<noteq> Some []"
proof -
  note inv = reachable_inv [OF assms]
  have "owned_keys m s = {k. 0 < own m k s}" by (rule mgr_invD [OF inv])
  moreover have "map_of (entries m) k \<noteq> None \<longleftrightarrow> (\<exists>s'. 0 < own m k s')"
    using acl_at_iff_own [OF mgr_invD(1) [OF inv], of k] by (simp add: acl_at_def)
  ultimately show ?thesis using inv by (auto simp: mgr_inv_def owned_keys_def no_empty_rows_def)
qed

theorem manager_invariant_witness:
  "own (Apply sample_env sample_update (New sample_client)) (Key sample_entry) ''s1'' =
     card {i. routeKey i ''s1'' (Apply sample_env sample_update (New sample_client)) = Some (Key sample_entry)}"
  using manager_invariant
    [OF mgr_reachable.update [OF mgr_reachable.start [of sample_env sample_client] sample_update_ok(1)] sample_env_ok(1)]
  by blast

text \<open>
  C10: The manager implements the abstract map from sessions and routes to entries: after any
  sequence of updates the entry it holds for a route of a session is the one the specification
  gives. An announcement sets it, an announcement that cannot be translated and a withdrawal
  clear it, a session that goes down clears all of its routes and no others.
\<close>

theorem manager_refines_routes:
  assumes "env_ok env" and "\<forall>u\<in>set us. update_ok u"
  shows "abs_routes (Run env us (New b)) = fold (spec_update env) us Map.empty"
  using Run_abs [OF New_inv assms] by (simp add: abs_New)

theorem manager_refines_routes_witness:
  "abs_routes (Run sample_env [sample_update] (New sample_client)) (''s1'', ''sample'') = Some sample_entry"
proof -
  have "abs_routes (Run sample_env [sample_update] (New sample_client)) = fold (spec_update sample_env) [sample_update] Map.empty"
    by (rule manager_refines_routes [OF sample_env_ok(1) sample_update_ok(2)])
  then show ?thesis
    using sample_translates by (simp add: sample_update_def routeIdentity_def sample_rule_def)
qed

text \<open>
  C11: The list the manager pushes for a family is exactly the set of the entries that some
  session's route asks for, each once, in the order of their keys: it depends neither on the
  order of arrival nor on the number of sessions that ask for an entry.
\<close>

theorem desired_exact:
  assumes "mgr_reachable env b m" and "env_ok env"
  shows "set (desired f m) = {a. familyOf a = f \<and> (\<exists>si. abs_routes m si = Some a)} \<and>
    sorted (map Key (desired f m)) \<and> distinct (desired f m)"
  using desired_set [OF reachable_inv [OF assms]] by blast

theorem desired_exact_witness:
  "sample_entry \<in> set (desired IPv4 (Apply sample_env sample_update (New sample_client)))"
proof -
  let ?m = "Apply sample_env sample_update (New sample_client)"
  have "abs_routes ?m (''s1'', ''sample'') = Some sample_entry"
    using Apply_inv(2) [OF New_inv sample_env_ok(1) sample_update_ok(1)] sample_translates
    by (simp add: abs_New sample_update_def routeIdentity_def sample_rule_def)
  then show ?thesis
    using desired_exact [OF mgr_reachable.update [OF mgr_reachable.start [of sample_env sample_client]
        sample_update_ok(1)] sample_env_ok(1), of IPv4]
    by (auto simp: familyOf_def sample_entry_def)
qed

section \<open>The manager over the VPP client\<close>

context acl_table
begin

lemma desired_New: "desired f (New b) = []"
  by (simp add: desired_def New_def)

lemma follows:
  assumes "env_ok env" and "ReplaceACL env = ReplaceACL_client api" and "client_ready c"
    and "\<forall>f. client_contents c f = Some (managed_rules enc f [])" and "\<forall>u\<in>set us. update_ok u"
  shows "client_contents (m_backend (Run env us (New c))) f = Some (managed_rules enc f (desired f (Run env us (New c))))"
proof -
  have "in_sync (New c)"
    using assms(3,4) by (simp add: in_sync_def holds_def desired_New) (simp add: New_def)
  from Run_in_sync [OF New_inv assms(1,5,2) this] show ?thesis by (simp add: in_sync_def holds_def)
qed

lemma resync_repairs:
  assumes "mgr_inv m" and "client_ready (m_backend m)" and "ReplaceACL env = ReplaceACL_client api"
  shows "client_contents (m_backend (resync env m)) f = Some (managed_rules enc f (desired f (resync env m)))"
  using resync_in_sync [OF assms] by (simp add: in_sync_def holds_def)

end

text \<open>
  C12: The data plane follows the sessions. Let the binary API keep its laws and both managed
  ACLs exist. Then whatever updates the manager handles, the managed ACL of each family holds,
  under the index the client remembers, exactly the desired entries in order followed by the
  entry that permits the rest of the family. Only the manager's own dirty flags decide when it
  is rewritten.
\<close>

theorem data_plane_follows:
  assumes "acl_table api enc acl_of up" and "env_ok env" and "ReplaceACL env = ReplaceACL_client api"
    and "up (cl_vpp c)" and "\<forall>f. map_option snd (acl_of (cl_vpp c) (idx_of c f)) = Some (managed_rules enc f [])"
    and "idx_of c IPv4 \<noteq> idx_of c IPv6" and "tags_ok (cl_cfg c)" and "\<forall>u\<in>set us. update_ok u"
  shows "map_option snd (acl_of (cl_vpp (m_backend (Run env us (New c)))) (idx_of (m_backend (Run env us (New c))) f)) =
    Some (managed_rules enc f (desired f (Run env us (New c))))"
proof -
  have "acl_table.client_ready acl_of up c"
    unfolding acl_table.client_ready_def [OF assms(1)] using assms(4-7) by fastforce
  from acl_table.follows [OF assms(1-3) this _ assms(8), of f] assms(5) show ?thesis
    by (simp add: acl_table.client_contents_def [OF assms(1)])
qed

lemma sample_client_contents:
  "\<forall>f. map_option snd (map_of (rp_acls (cl_vpp sample_client)) (idx_of sample_client f)) = Some (managed_rules pfx_String f [])"
proof
  fix f
  show "map_option snd (map_of (rp_acls (cl_vpp sample_client)) (idx_of sample_client f)) = Some (managed_rules pfx_String f [])"
    by (cases f) (simp_all add: sample_client_def idx_of_def)
qed

theorem data_plane_follows_witness:
  "map_option snd (map_of (rp_acls (cl_vpp (m_backend (Run sample_env [sample_update] (New sample_client)))))
      (idx_of (m_backend (Run sample_env [sample_update] (New sample_client))) IPv4)) =
   Some (managed_rules pfx_String IPv4 (desired IPv4 (Run sample_env [sample_update] (New sample_client))))"
  by (rule data_plane_follows [OF ref.acl_table_axioms sample_env_ok sample_plane_up(3) sample_client_contents _ _
        sample_update_ok(2)])
    (simp_all add: sample_client_def idx_of_def sample_tags_ok)



section \<open>What an interface drops\<close>

lemma spec_deny: "\<forall>si a. fold (spec_update env) us A si = Some a \<longrightarrow> \<not> Permit a"
  if "\<forall>si a. A si = Some a \<longrightarrow> \<not> Permit a" for A
  using that
proof (induction us arbitrary: A)
  case (Cons u us)
  have "\<not> Permit a" if "Translate r = Inr a" for r a
    using that by (elim Translate_Inr) simp
  with Cons.prems have "\<forall>si a. spec_update env u A si = Some a \<longrightarrow> \<not> Permit a"
    by (auto split: Op.splits option.splits sum.splits if_splits)
  with Cons.IH show ?case by simp
qed simp

text \<open>
  C14: From routes to packets. An interface whose list is the operator's own entries followed by
  the two managed lists decides a packet as follows: the first operator's entry that matches
  decides; otherwise the packet is denied exactly when the entry of some announced route matches
  it, and permitted if none does. The managed lists never decide a packet by the default of VPP.
\<close>

theorem interface_verdict:
  assumes "env_ok env" and "\<forall>u\<in>set us. update_ok u" and "packet_wf p"
    and "m = Run env us (New b)"
  shows "first_match (manual @ (desired IPv4 m @ [permitAny IPv4]) @ (desired IPv6 m @ [permitAny IPv6])) p =
    (case first_match manual p of
       Some verdict \<Rightarrow> Some verdict
     | None \<Rightarrow> Some (\<not> (\<exists>si a. fold (spec_update env) us Map.empty si = Some a \<and> acl_matches a p)))"
proof -
  note run = Run_abs [OF New_inv assms(1,2), of b]
  have A: "abs_routes m = fold (spec_update env) us Map.empty" using run assms(4) by (simp add: abs_New)
  have inv: "mgr_inv m" using run assms(4) by simp
  have deny: "\<forall>a\<in>set (desired f m). \<not> Permit a \<and> familyOf a = f" for f
    using spec_deny [of Map.empty env us] A desired_set(1) [OF inv, of f] by auto
  have ex: "(\<exists>a\<in>set (desired (packet_family p) m). acl_matches a p) \<longleftrightarrow> (\<exists>si a. abs_routes m si = Some a \<and> acl_matches a p)"
    using desired_set(1) [OF inv] acl_matches_family by fastforce
  have "first_match ((desired IPv4 m @ [permitAny IPv4]) @ (desired IPv6 m @ [permitAny IPv6])) p =
      Some (\<not> (\<exists>a\<in>set (desired (packet_family p) m). acl_matches a p))"
    unfolding first_match_append [of "desired IPv4 m @ [permitAny IPv4]"]
    by (cases "packet_family p") (simp_all add: managed_first_match [OF deny assms(3)])
  then show ?thesis unfolding first_match_append [of manual] ex A by (simp split: option.splits)
qed

theorem interface_verdict_witness:
  "first_match ([] @ (desired IPv4 (Run sample_env [sample_update] (New sample_client)) @ [permitAny IPv4]) @
      (desired IPv6 (Run sample_env [sample_update] (New sample_client)) @ [permitAny IPv6])) sample_packet = Some False"
proof -
  have "fold (spec_update sample_env) [sample_update] Map.empty (''s1'', ''sample'') = Some sample_entry"
    using sample_translates by (simp add: sample_update_def routeIdentity_def sample_rule_def)
  moreover have "acl_matches sample_entry sample_packet" by code_simp
  ultimately have "\<exists>si a. fold (spec_update sample_env) [sample_update] Map.empty si = Some a \<and> acl_matches a sample_packet"
    by blast
  then show ?thesis
    unfolding interface_verdict [OF sample_env_ok(1) sample_update_ok(2) sample_side(3) refl] by simp
qed

text \<open>
  C15: Merging the managed ACLs into the list of an interface keeps the operator's input and
  output ACLs, in their order and on their side, puts the managed ones last in the managed
  direction, and is idempotent. The bound on the length is that of the count of the API, which
  is one byte.
\<close>

theorem merge_keeps_operator_acls:
  assumes "length cur + length ours < 256" and "set ours \<subseteq> M"
    and "l = mergeManagedLast cur n M ours dir"
  shows "inputs l = filter (\<lambda>a. a \<notin> M) (inputs (cur, n)) @ (if dir = Ingress then ours else []) \<and>
    outputs l = filter (\<lambda>a. a \<notin> M) (outputs (cur, n)) @ (if dir = Ingress then [] else ours) \<and>
    mergeManagedLast (fst l) (snd l) M ours dir = l"
  using merge_halves [OF assms(1)] merge_idem [OF assms] by (simp add: assms(3))

theorem merge_keeps_operator_acls_witness:
  "inputs (mergeManagedLast [7, 3, 9] 2 {3, 4, 5} [4, 5] Ingress) = [7, 4, 5]"
proof -
  have "inputs (mergeManagedLast [7, 3, 9] 2 {3, 4, 5} [4, 5] Ingress) =
      filter (\<lambda>a. a \<notin> {3, 4, 5}) (inputs ([7, 3, 9], 2)) @ (if Ingress = Ingress then [4, 5] else [])"
    using merge_keeps_operator_acls [of "[7, 3, 9]" "[4, 5]" "{3, 4, 5}" _ 2 Ingress] by simp
  then show ?thesis by (simp add: inputs_def)
qed

end
