(* ===== verification/DetTypes.thy ===== *)
theory DetTypes
  imports Translate
begin

text \<open>
  The data types of package \<^verbatim>\<open>internal/detector\<close> (types.go) and the parts of \<^verbatim>\<open>package time\<close>
  and of floating point the detector uses. A time is the number of nanoseconds since the Unix
  epoch; a duration is a number of nanoseconds that fits \<^verbatim>\<open>int64\<close>. A \<^verbatim>\<open>float64\<close> is an
  abstract type with its operations in a record, so no theorem depends on exact arithmetic.
\<close>

unbundle bit_operations_syntax

section \<open>Time\<close>

type_synonym i64 = "64 word"
type_synonym gotime = int
type_synonym duration = int

definition second :: duration where "second = 1000000000"
definition minute :: duration where "minute = 60 * second"
definition hour :: duration where "hour = 60 * minute"

text \<open>The zero \<^verbatim>\<open>time.Time\<close>: January 1 of year 1, in seconds before the Unix epoch.\<close>

definition Time_zero :: gotime where
  "Time_zero = - 62135596800 * second"

definition IsZero :: "gotime \<Rightarrow> bool" where
  "IsZero t \<longleftrightarrow> t = Time_zero"

definition maxDuration :: duration where "maxDuration = 2 ^ 63 - 1"
definition minDuration :: duration where "minDuration = - (2 ^ 63)"

text \<open>\<^verbatim>\<open>Time.Sub\<close> saturates; \<^verbatim>\<open>Time.UnixNano\<close> wraps around.\<close>

definition time_Sub :: "gotime \<Rightarrow> gotime \<Rightarrow> duration" where
  "time_Sub t u = (if t - u > maxDuration then maxDuration
                   else if t - u < minDuration then minDuration else t - u)"

definition wrap64 :: "int \<Rightarrow> int" where
  "wrap64 i = sint (word_of_int i :: i64)"

definition UnixNano :: "gotime \<Rightarrow> int" where
  "UnixNano t = wrap64 t"

text \<open>Integer division and remainder of Go truncate towards zero.\<close>

definition quot :: "int \<Rightarrow> int \<Rightarrow> int" where
  "quot a b = sgn a * sgn b * (\<bar>a\<bar> div \<bar>b\<bar>)"

definition rem :: "int \<Rightarrow> int \<Rightarrow> int" where
  "rem a b = sgn a * (\<bar>a\<bar> mod \<bar>b\<bar>)"

lemma wrap64_id: "- (2 ^ 63) \<le> i \<Longrightarrow> i < 2 ^ 63 \<Longrightarrow> wrap64 i = i"
  by (simp add: wrap64_def signed_of_int signed_take_bit_int_eq_self)

lemma quot_rem: "quot a b * b + rem a b = a"
proof -
  have "quot a b * b = sgn a * ((\<bar>a\<bar> div \<bar>b\<bar>) * (sgn b * b))"
    by (simp add: quot_def algebra_simps)
  also have "sgn b * b = \<bar>b\<bar>" by (simp add: abs_sgn mult.commute)
  finally have "quot a b * b + rem a b = sgn a * ((\<bar>a\<bar> div \<bar>b\<bar>) * \<bar>b\<bar> + \<bar>a\<bar> mod \<bar>b\<bar>)"
    by (simp only: rem_def distrib_left)
  then show ?thesis by (simp add: sgn_mult_abs)
qed

lemma quot_pos: "0 \<le> a \<Longrightarrow> 0 < b \<Longrightarrow> quot a b = a div b"
  by (cases "a = 0") (simp_all add: quot_def)

lemma rem_pos: "0 \<le> a \<Longrightarrow> 0 < b \<Longrightarrow> rem a b = a mod b"
  by (cases "a = 0") (simp_all add: rem_def)

lemma rem_bound: "0 < b \<Longrightarrow> \<bar>rem a b\<bar> < b"
  by (simp add: rem_def abs_mult abs_sgn_eq)

text \<open>Reading an element of a slice: out of range it panics.\<close>

definition elem_at :: "'a list \<Rightarrow> nat \<Rightarrow> 'a option" where
  "elem_at xs i = (if i < length xs then Some (xs ! i) else None)"

section \<open>Floating point\<close>

text \<open>The operations on \<^verbatim>\<open>float64\<close> that the detector and the statistics use.\<close>

record 'f float_ops =
  f_of_u64 :: "u64 \<Rightarrow> 'f"
  f_of_int :: "int \<Rightarrow> 'f"
  f_add :: "'f \<Rightarrow> 'f \<Rightarrow> 'f"
  f_sub :: "'f \<Rightarrow> 'f \<Rightarrow> 'f"
  f_mul :: "'f \<Rightarrow> 'f \<Rightarrow> 'f"
  f_div :: "'f \<Rightarrow> 'f \<Rightarrow> 'f"
  f_less :: "'f \<Rightarrow> 'f \<Rightarrow> bool"
  f_le :: "'f \<Rightarrow> 'f \<Rightarrow> bool"
  f_eq :: "'f \<Rightarrow> 'f \<Rightarrow> bool"
  f_max :: "'f \<Rightarrow> 'f \<Rightarrow> 'f"
  f_seconds :: "duration \<Rightarrow> 'f"
  f_pow :: "'f \<Rightarrow> 'f \<Rightarrow> 'f"
  f_decay :: 'f
  f_half :: 'f
  f_neg :: "'f \<Rightarrow> 'f"
  f_string :: "'f \<Rightarrow> string"

abbreviation f_zero :: "'f float_ops \<Rightarrow> 'f" where
  "f_zero F \<equiv> f_of_int F 0"

text \<open>One instance of these operations: exact arithmetic on the real numbers.\<close>

definition real_ops :: "real float_ops" where
  "real_ops = \<lparr>f_of_u64 = (\<lambda>v. real (unat v)), f_of_int = real_of_int, f_add = (+), f_sub = (-), f_mul = (*),
     f_div = (/), f_less = (<), f_le = (\<le>), f_eq = (=), f_max = max, f_seconds = (\<lambda>d. real_of_int d / 1000000000),
     f_pow = (powr), f_decay = 108 / 100, f_half = 1 / 2, f_neg = uminus,
     f_string = (\<lambda>x. itoa (round x))\<rparr>"

text \<open>
  The order of the operations: what IEEE 754 gives on numbers, with the monotonicity of
  rounding. No operand here is infinite or NaN: a weight is below \<^verbatim>\<open>2^48\<close>.
\<close>

locale float_laws =
  fixes F :: "'f float_ops"
  assumes le_refl: "f_le F a a"
    and le_trans: "f_le F a b \<Longrightarrow> f_le F b c \<Longrightarrow> f_le F a c"
    and less_not_le: "f_less F a b \<longleftrightarrow> \<not> f_le F b a"
    and less_le: "f_less F a b \<Longrightarrow> f_le F a b"
    and add_mono: "f_le F a b \<Longrightarrow> f_le F (f_add F a w) (f_add F b w)"
    and add_nonneg: "f_le F (f_zero F) a \<Longrightarrow> f_le F (f_zero F) w \<Longrightarrow> f_le F w (f_add F a w)"
    and add_grows: "f_le F (f_zero F) w \<Longrightarrow> f_le F a (f_add F a w)"
    and sub_le: "f_le F (f_zero F) w \<Longrightarrow> f_le F (f_sub F a w) a"
    and neg_sub_le: "f_le F (f_zero F) a \<Longrightarrow> f_le F (f_neg F (f_sub F a w)) w"
    and neg_less: "f_less F a (f_zero F) \<Longrightarrow> f_less F (f_zero F) (f_neg F a)"
    and mul_le: "f_le F (f_zero F) a \<Longrightarrow> f_less F (f_zero F) q \<Longrightarrow> f_less F q (f_of_int F 1) \<Longrightarrow> f_le F (f_mul F a q) a"
    and one_pos: "f_less F (f_zero F) (f_of_int F 1)"
begin

lemma not_less: "\<not> f_less F a b \<longleftrightarrow> f_le F b a"
  by (simp add: less_not_le)

lemma less_trans: "f_less F a b \<Longrightarrow> f_le F b c \<Longrightarrow> f_less F a c"
  using le_trans less_not_le by blast

end

interpretation real_laws: float_laws real_ops
  by unfold_locales (auto simp: real_ops_def mult_left_le)

section \<open>Samples, events and rates\<close>

record Sample =
  s_At :: gotime
  s_Family :: fs_family
  s_Src :: addr
  s_Dst :: addr
  s_Proto :: u8
  s_SrcPort :: u16
  s_DstPort :: u16
  s_PacketLen :: u16
  s_TCPFlags :: u8
  s_ICMPType :: u8
  s_ICMPCode :: u8
  s_IngressIf :: string
  s_SampleRate :: u32

definition Sample_zero :: Sample where
  "Sample_zero = \<lparr>s_At = Time_zero, s_Family = FamilyIPv4, s_Src = Addr_zero, s_Dst = Addr_zero,
     s_Proto = 0, s_SrcPort = 0, s_DstPort = 0, s_PacketLen = 0, s_TCPFlags = 0,
     s_ICMPType = 0, s_ICMPCode = 0, s_IngressIf = '''', s_SampleRate = 0\<rparr>"

record 'f Event =
  ev_ID :: string
  ev_RuleName :: string
  ev_InstanceKey :: string
  ev_Description :: string
  ev_TTL :: duration
  ev_Refresh :: bool
  ev_ObservedPPS :: 'f
  ev_Rule :: fs_rule

record 'f Rates =
  RXPPS :: 'f
  TXPPS :: 'f
  RXBPS :: 'f
  TXBPS :: 'f
  SWDropPPS :: 'f
  HWDropPPS :: 'f

section \<open>Descriptors\<close>

record descriptor =
  d_family :: fs_family
  d_proto :: u8
  d_protoWild :: bool
  d_src :: addr
  d_dst :: addr
  d_srcPortLo :: u16
  d_srcPortHi :: u16
  d_dstPortLo :: u16
  d_dstPortHi :: u16
  d_icmpType :: u8
  d_icmpCode :: u8
  d_icmpTypeWild :: bool
  d_icmpCodeWild :: bool

definition family_byte :: "fs_family \<Rightarrow> u8" where
  "family_byte f = (if f = FamilyIPv6 then 1 else 0)"

definition boolByte :: "bool \<Rightarrow> u8" where
  "boolByte b = (if b then 1 else 0)"

text \<open>The bytes of a word, most significant first (\<^verbatim>\<open>As4\<close>, \<^verbatim>\<open>As16\<close>).\<close>

definition be_bytes :: "nat \<Rightarrow> 'a :: len word \<Rightarrow> u8 list" where
  "be_bytes n w = map (\<lambda>i. ucast (drop_bit (8 * (n - 1 - i)) w)) [0..<n]"

text \<open>\<^verbatim>\<open>As16\<close> maps an IPv4 address into \<^verbatim>\<open>::ffff:0:0/96\<close>; it is zero for the zero address.\<close>

fun As16 :: "addr \<Rightarrow> u8 list" where
  "As16 Addr_zero = replicate 16 0"
| "As16 (Addr4 x) = replicate 10 0 @ [0xff, 0xff] @ be_bytes 4 x"
| "As16 (Addr6 x) = be_bytes 16 x"

definition fnv_mix :: "u64 \<Rightarrow> u8 \<Rightarrow> u64" where
  "fnv_mix h b = (h XOR ucast b) * 1099511628211"

definition hash_bytes :: "descriptor \<Rightarrow> u8 list" where
  "hash_bytes d =
     [family_byte (d_family d), d_proto d, boolByte (d_protoWild d)] @
     concat (map (\<lambda>a. if addr_IsValid a then As16 a else replicate 16 0) [d_src d, d_dst d]) @
     concat (map (\<lambda>p. [ucast p, ucast (drop_bit 8 p)]) [d_srcPortLo d, d_srcPortHi d, d_dstPortLo d, d_dstPortHi d]) @
     [d_icmpType d, d_icmpCode d, boolByte (d_icmpTypeWild d), boolByte (d_icmpCodeWild d)]"

definition descriptor_hash :: "descriptor \<Rightarrow> u64" where
  "descriptor_hash d = foldl fnv_mix 1469598103934665603 (hash_bytes d)"

section \<open>Metrics, aggregations and rings\<close>

datatype metricKind =
    metricPPS | metricBPS
  | metricIfaceRXPPS | metricIfaceTXPPS | metricIfaceRXBPS | metricIfaceTXBPS
  | metricIfaceSWDropPPS | metricIfaceHWDropPPS
  | metricTotalRXPPS | metricTotalTXPPS | metricTotalRXBPS | metricTotalTXBPS
  | metricTotalSWDropPPS | metricTotalHWDropPPS

text \<open>The constants are numbered in the order of their declaration (\<^verbatim>\<open>iota\<close>), and compared so.\<close>

primrec metric_code :: "metricKind \<Rightarrow> nat" where
  "metric_code metricPPS = 0" | "metric_code metricBPS = 1"
| "metric_code metricIfaceRXPPS = 2" | "metric_code metricIfaceTXPPS = 3"
| "metric_code metricIfaceRXBPS = 4" | "metric_code metricIfaceTXBPS = 5"
| "metric_code metricIfaceSWDropPPS = 6" | "metric_code metricIfaceHWDropPPS = 7"
| "metric_code metricTotalRXPPS = 8" | "metric_code metricTotalTXPPS = 9"
| "metric_code metricTotalRXBPS = 10" | "metric_code metricTotalTXBPS = 11"
| "metric_code metricTotalSWDropPPS = 12" | "metric_code metricTotalHWDropPPS = 13"

lemma metric_code_inject: "metric_code a = metric_code b \<longleftrightarrow> a = b"
  by (cases a; cases b) simp_all

instantiation metricKind :: linorder
begin

definition less_eq_metricKind :: "metricKind \<Rightarrow> metricKind \<Rightarrow> bool" where
  "less_eq_metricKind a b \<longleftrightarrow> metric_code a \<le> metric_code b"

definition less_metricKind :: "metricKind \<Rightarrow> metricKind \<Rightarrow> bool" where
  "less_metricKind a b \<longleftrightarrow> metric_code a < metric_code b"

instance
  by standard (auto simp: less_eq_metricKind_def less_metricKind_def metric_code_inject)

end

definition isStats :: "metricKind \<Rightarrow> bool" where
  "isStats m \<longleftrightarrow> m \<ge> metricIfaceRXPPS"

definition isTotal :: "metricKind \<Rightarrow> bool" where
  "isTotal m \<longleftrightarrow> m \<ge> metricTotalRXPPS"

fun selectRate :: "'f float_ops \<Rightarrow> metricKind \<Rightarrow> 'f Rates \<Rightarrow> 'f" where
  "selectRate F m r =
     (if m \<in> {metricIfaceRXPPS, metricTotalRXPPS} then RXPPS r
      else if m \<in> {metricIfaceTXPPS, metricTotalTXPPS} then TXPPS r
      else if m \<in> {metricIfaceRXBPS, metricTotalRXBPS} then RXBPS r
      else if m \<in> {metricIfaceTXBPS, metricTotalTXBPS} then TXBPS r
      else if m \<in> {metricIfaceSWDropPPS, metricTotalSWDropPPS} then SWDropPPS r
      else if m \<in> {metricIfaceHWDropPPS, metricTotalHWDropPPS} then HWDropPPS r
      else f_zero F)"

datatype aggKind = aggAvg | aggMax | aggSum

datatype ringKind = ringFine | ringMedium | ringCoarse

end
