(* ===== verification/LocalRules.thy ===== *)
theory LocalRules
  imports ManagerSync DetTypes
begin

text \<open>
  Package \<^verbatim>\<open>internal/localrules\<close>: the controller that turns detector events into updates for the
  manager and owns the life time of the rules it announced. What it sends to the manager and
  what it asks the BGP advertiser to do are logs of its state. \<^verbatim>\<open>send\<close> waits until the manager
  takes an update; once the context is cancelled, the \<^verbatim>\<open>select\<close> may take either branch, which
  is a choice of the environment.
\<close>

section \<open>State\<close>

record lease =
  l_rule :: fs_rule
  l_expiresAt :: gotime

record LeaseSnapshot =
  ls_EventID :: string
  ls_Family :: string
  ls_FlowSpec :: string
  ls_ExpiresAt :: gotime

record controller =
  c_updates :: "Update list"
  c_adverts :: "(fs_rule \<times> bool) list"
  c_leases :: "(string, lease) gomap"
  c_dryRun :: bool
  c_advertiser :: bool
  c_latest :: "LeaseSnapshot list option"
  c_cancelled :: bool

record ctl_env =
  range_leases :: "string list \<Rightarrow> string list"
  send_pick :: "Update \<Rightarrow> bool"

definition defaultSession :: SessionID where "defaultSession = ''detector''"
definition defaultPeer :: string where "defaultPeer = ''detector''"

definition ctl_New :: controller where
  "ctl_New = \<lparr>c_updates = [], c_adverts = [], c_leases = [], c_dryRun = False, c_advertiser = False,
     c_latest = None, c_cancelled = False\<rparr>"

definition SetDryRun :: "bool \<Rightarrow> controller \<Rightarrow> controller" where
  "SetDryRun v c = c\<lparr>c_dryRun := v\<rparr>"

definition SetAdvertiser :: "bool \<Rightarrow> controller \<Rightarrow> controller" where
  "SetAdvertiser a c = c\<lparr>c_advertiser := a\<rparr>"

section \<open>Operations\<close>

definition send :: "ctl_env \<Rightarrow> Op \<Rightarrow> fs_rule \<Rightarrow> controller \<Rightarrow> controller" where
  "send env op r c =
     (let u = \<lparr>u_Session = defaultSession, u_Op = op, u_Rule = Some r, u_Peer = defaultPeer\<rparr>
      in if c_cancelled c \<and> \<not> send_pick env u then c else c\<lparr>c_updates := c_updates c @ [u]\<rparr>)"

definition advertise :: "fs_rule \<Rightarrow> bool \<Rightarrow> controller \<Rightarrow> controller" where
  "advertise r wd c = (if c_advertiser c then c\<lparr>c_adverts := c_adverts c @ [(r, wd)]\<rparr> else c)"

definition publish :: "ctl_env \<Rightarrow> controller \<Rightarrow> controller" where
  "publish env c =
     c\<lparr>c_latest := Some (List.map_filter (\<lambda>i. map_option (\<lambda>l. \<lparr>ls_EventID = i, ls_Family = family_String (r_Family (l_rule l)),
          ls_FlowSpec = r_Raw (l_rule l), ls_ExpiresAt = l_expiresAt l\<rparr>) (map_of (c_leases c) i))
        (range_leases env (map fst (c_leases c))))\<rparr>"

definition ctl_Snapshot :: "controller \<Rightarrow> LeaseSnapshot list" where
  "ctl_Snapshot c = (case c_latest c of Some s \<Rightarrow> s | None \<Rightarrow> [])"

definition sameRule :: "fs_rule \<Rightarrow> fs_rule \<Rightarrow> bool" where
  "sameRule a b \<longleftrightarrow> r_Raw a = r_Raw b"

definition applyEvent :: "ctl_env \<Rightarrow> gotime \<Rightarrow> 'f Event \<Rightarrow> controller \<Rightarrow> controller" where
  "applyEvent env now ev c =
     (if ev_TTL ev \<le> 0 then c
      else if c_dryRun c then c
      else
        let expiresAt = now + ev_TTL ev; old = map_of (c_leases c) (ev_ID ev)
        in case old of
             Some l \<Rightarrow>
               if sameRule (l_rule l) (ev_Rule ev) then
                 (if ev_Refresh ev
                  then publish env (c\<lparr>c_leases := gput (ev_ID ev) (l\<lparr>l_expiresAt := expiresAt\<rparr>) (c_leases c)\<rparr>)
                  else c)
               else
                 let c1 = c\<lparr>c_leases := gput (ev_ID ev) \<lparr>l_rule = ev_Rule ev, l_expiresAt = expiresAt\<rparr> (c_leases c)\<rparr>;
                     c2 = advertise (l_rule l) True (send env OpWithdraw (l_rule l) c1);
                     c3 = advertise (ev_Rule ev) False (send env OpAnnounce (ev_Rule ev) c2)
                 in publish env c3
           | None \<Rightarrow>
               let c1 = c\<lparr>c_leases := gput (ev_ID ev) \<lparr>l_rule = ev_Rule ev, l_expiresAt = expiresAt\<rparr> (c_leases c)\<rparr>;
                   c2 = advertise (ev_Rule ev) False (send env OpAnnounce (ev_Rule ev) c1)
               in publish env c2)"

text \<open>Giving up one lease: the body that \<^verbatim>\<open>expire\<close> and \<^verbatim>\<open>withdrawAll\<close> share.\<close>

definition drop_lease :: "ctl_env \<Rightarrow> string \<Rightarrow> lease \<Rightarrow> controller \<Rightarrow> controller" where
  "drop_lease env i l c =
     advertise (l_rule l) True (send env OpWithdraw (l_rule l) (c\<lparr>c_leases := gdel i (c_leases c)\<rparr>))"

definition expire_step :: "ctl_env \<Rightarrow> gotime \<Rightarrow> string \<Rightarrow> controller \<times> bool \<Rightarrow> controller \<times> bool" where
  "expire_step env now i = (\<lambda>(c, changed).
     case map_of (c_leases c) i of
       None \<Rightarrow> (c, changed)
     | Some l \<Rightarrow> if now < l_expiresAt l then (c, changed) else (drop_lease env i l c, True))"

definition expire :: "ctl_env \<Rightarrow> gotime \<Rightarrow> controller \<Rightarrow> controller" where
  "expire env now c =
     (let (c', changed) = fold (expire_step env now) (range_leases env (map fst (c_leases c))) (c, False)
      in if changed then publish env c' else c')"

definition withdraw_step :: "ctl_env \<Rightarrow> string \<Rightarrow> controller \<Rightarrow> controller" where
  "withdraw_step env i c = (case map_of (c_leases c) i of None \<Rightarrow> c | Some l \<Rightarrow> drop_lease env i l c)"

definition withdrawAll :: "ctl_env \<Rightarrow> controller \<Rightarrow> controller" where
  "withdrawAll env c = publish env (fold (withdraw_step env) (range_leases env (map fst (c_leases c))) c)"

definition nextWake :: "ctl_env \<Rightarrow> gotime \<Rightarrow> (string, lease) gomap \<Rightarrow> duration" where
  "nextWake env now leases =
     (if leases = [] then hour
      else
        let nxt = foldl (\<lambda>nxt i. case map_of leases i of
                      None \<Rightarrow> nxt
                    | Some l \<Rightarrow> if IsZero nxt \<or> l_expiresAt l < nxt then l_expiresAt l else nxt)
                    Time_zero (range_leases env (map fst leases));
            d = time_Sub nxt now
        in if d > 0 then d else 1)"

text \<open>
  The inputs of the loop in \<^verbatim>\<open>Run\<close> in the order in which it takes them: an event with the time
  of the clock, the timer with the time of the clock, the end of the events, the cancellation.
\<close>

datatype 'f ctl_input = Input gotime "'f Event" | Timer gotime | Closed | Cancel

fun ctl_Run :: "ctl_env \<Rightarrow> 'f ctl_input list \<Rightarrow> controller \<Rightarrow> controller" where
  "ctl_Run env [] c = c"
| "ctl_Run env (Input now ev # is) c = ctl_Run env is (applyEvent env now ev c)"
| "ctl_Run env (Timer now # is) c = ctl_Run env is (expire env now c)"
| "ctl_Run env (Closed # is) c = withdrawAll env c"
| "ctl_Run env (Cancel # is) c = withdrawAll env (c\<lparr>c_cancelled := True\<rparr>)"

section \<open>What the manager sees\<close>

text \<open>The routes the updates sent so far amount to, in the abstract view of the manager.\<close>

definition sent_routes :: "'b mgr_env \<Rightarrow> controller \<Rightarrow> SessionID \<times> string \<Rightarrow> ACLRule option" where
  "sent_routes menv c = fold (spec_update menv) (c_updates c) Map.empty"

text \<open>The rules under lease, and the entry a lease asks for under the identity of its route.\<close>

definition rules_of :: "(string, lease) gomap \<Rightarrow> string \<Rightarrow> fs_rule option" where
  "rules_of ls i = map_option l_rule (map_of ls i)"

definition leased :: "(string, lease) gomap \<Rightarrow> string \<Rightarrow> ACLRule \<Rightarrow> bool" where
  "leased ls x a \<longleftrightarrow> (\<exists>i r. rules_of ls i = Some r \<and> r_Raw r = x \<and> Translate r = Inr a)"

lemma rules_of_simps [simp]:
  "rules_of (gput i l ls) = (rules_of ls)(i \<mapsto> l_rule l)" "rules_of (gdel i ls) = (rules_of ls)(i := None)"
  "rules_of [] = Map.empty"
  by (auto simp: rules_of_def)

text \<open>Events of different instances carry different rules, and every rule has a text.\<close>

definition clash_free :: "'f Event set \<Rightarrow> bool" where
  "clash_free E \<longleftrightarrow> (\<forall>e\<in>E. r_Raw (ev_Rule e) \<noteq> '''') \<and>
     (\<forall>e\<in>E. \<forall>e'\<in>E. ev_ID e \<noteq> ev_ID e' \<longrightarrow> r_Raw (ev_Rule e) \<noteq> r_Raw (ev_Rule e'))"

definition leases_from :: "'f Event set \<Rightarrow> (string, lease) gomap \<Rightarrow> bool" where
  "leases_from E ls \<longleftrightarrow> (\<forall>i r. rules_of ls i = Some r \<longrightarrow> (\<exists>e\<in>E. ev_ID e = i \<and> ev_Rule e = r))"

definition ctl_inv :: "'b mgr_env \<Rightarrow> 'f Event set \<Rightarrow> controller \<Rightarrow> bool" where
  "ctl_inv menv E c \<longleftrightarrow> \<not> c_cancelled c \<and> leases_from E (c_leases c) \<and>
     (\<forall>s i a. sent_routes menv c (s, i) = Some a \<longleftrightarrow> s = defaultSession \<and> leased (c_leases c) i a)"

lemma publish_simps [simp]:
  "c_leases (publish env c) = c_leases c" "c_updates (publish env c) = c_updates c"
  "c_cancelled (publish env c) = c_cancelled c" "sent_routes menv (publish env c) = sent_routes menv c"
  "c_adverts (publish env c) = c_adverts c" "c_advertiser (publish env c) = c_advertiser c"
  by (simp_all add: publish_def sent_routes_def)

lemma advertise_simps [simp]:
  "c_leases (advertise r w c) = c_leases c" "c_updates (advertise r w c) = c_updates c"
  "c_cancelled (advertise r w c) = c_cancelled c" "sent_routes menv (advertise r w c) = sent_routes menv c"
  by (simp_all add: advertise_def sent_routes_def)

lemma send_simps [simp]:
  "c_leases (send env op r c) = c_leases c" "c_cancelled (send env op r c) = c_cancelled c"
  by (simp_all add: send_def Let_def)

lemma sent_send:
  assumes "\<not> c_cancelled c" and "r_Raw r \<noteq> ''''"
  shows "sent_routes menv (send env OpAnnounce r c) = (sent_routes menv c)((defaultSession, r_Raw r) :=
      (case Translate r of Inl e \<Rightarrow> None | Inr a \<Rightarrow> Some a))"
    and "sent_routes menv (send env OpWithdraw r c) = (sent_routes menv c)((defaultSession, r_Raw r) := None)"
  using assms by (simp_all add: sent_routes_def send_def Let_def routeIdentity_def)

lemma sent_leases [simp]: "sent_routes menv (c\<lparr>c_leases := ls\<rparr>) = sent_routes menv c"
  by (simp add: sent_routes_def)

text \<open>No two leases share a route.\<close>

lemma leases_inj:
  assumes "leases_from E ls" and "clash_free E" and "rules_of ls i = Some r" and "rules_of ls j = Some r'"
    and "r_Raw r = r_Raw r'"
  shows "i = j"
  using assms unfolding leases_from_def clash_free_def by metis

lemma leased_del:
  assumes "leases_from E ls" and "clash_free E" and "rules_of ls i = Some r"
  shows "leased (gdel i ls) x a \<longleftrightarrow> x \<noteq> r_Raw r \<and> leased ls x a"
proof
  assume "leased (gdel i ls) x a"
  then obtain j r' where j: "j \<noteq> i" "rules_of ls j = Some r'" "r_Raw r' = x" "Translate r' = Inr a"
    by (auto simp: leased_def split: if_splits)
  with leases_inj [OF assms j(2)] show "x \<noteq> r_Raw r \<and> leased ls x a" by (auto simp: leased_def)
next
  assume "x \<noteq> r_Raw r \<and> leased ls x a"
  then obtain j r' where "rules_of ls j = Some r'" "r_Raw r' = x" "Translate r' = Inr a" "x \<noteq> r_Raw r"
    by (auto simp: leased_def)
  with assms(3) show "leased (gdel i ls) x a" unfolding leased_def by (intro exI [of _ j]) auto
qed

lemma leased_put:
  assumes "leases_from E ls" and "clash_free E" and "e \<in> E" and "rules_of ls (ev_ID e) = None"
    and "l_rule l = ev_Rule e"
  shows "leased (gput (ev_ID e) l ls) x a \<longleftrightarrow>
    (if x = r_Raw (ev_Rule e) then Translate (ev_Rule e) = Inr a else leased ls x a)"
proof -
  have fresh: "j \<noteq> ev_ID e \<and> r_Raw r \<noteq> r_Raw (ev_Rule e)" if "rules_of ls j = Some r" for j r
    using assms(1-4) that unfolding leases_from_def clash_free_def by (metis option.distinct(1))
  show ?thesis
  proof (cases "x = r_Raw (ev_Rule e)")
    case True
    with fresh assms(5) show ?thesis by (auto simp: leased_def)
  next
    case False
    with assms(5) fresh show ?thesis unfolding leased_def by (auto split: if_splits)
  qed
qed

lemma leases_from_del: "leases_from E ls \<Longrightarrow> leases_from E (gdel i ls)"
  by (simp add: leases_from_def)

lemma leases_from_put: "leases_from E ls \<Longrightarrow> e \<in> E \<Longrightarrow> l_rule l = ev_Rule e \<Longrightarrow> leases_from E (gput (ev_ID e) l ls)"
  by (auto simp: leases_from_def)

lemma drop_lease_inv:
  assumes "ctl_inv menv E c" and "clash_free E" and "rules_of (c_leases c) i = Some (l_rule l)"
  shows "ctl_inv menv E (drop_lease env i l c)"
proof -
  have lf: "leases_from E (c_leases c)" using assms(1) by (simp add: ctl_inv_def)
  then have raw: "r_Raw (l_rule l) \<noteq> ''''" using assms(2,3) unfolding leases_from_def clash_free_def by metis
  have "\<not> c_cancelled (c\<lparr>c_leases := gdel i (c_leases c)\<rparr>)" using assms(1) by (simp add: ctl_inv_def)
  note sent = sent_send(2) [OF this raw, of menv env]
  show ?thesis
    using assms(1) leased_del [OF lf assms(2,3)] leases_from_del [OF lf]
    by (auto simp: ctl_inv_def drop_lease_def sent)
qed

lemma announce_inv:
  assumes "ctl_inv menv E c" and "clash_free E" and "e \<in> E" and "rules_of (c_leases c) (ev_ID e) = None"
    and "l_rule l = ev_Rule e"
  shows "ctl_inv menv E (advertise (ev_Rule e) False (send env OpAnnounce (ev_Rule e)
      (c\<lparr>c_leases := gput (ev_ID e) l (c_leases c)\<rparr>)))"
proof -
  have lf: "leases_from E (c_leases c)" and nc: "\<not> c_cancelled (c\<lparr>c_leases := gput (ev_ID e) l (c_leases c)\<rparr>)"
    using assms(1) by (simp_all add: ctl_inv_def)
  have raw: "r_Raw (ev_Rule e) \<noteq> ''''" using assms(2,3) unfolding clash_free_def by metis
  show ?thesis
    using assms(1) leased_put [OF lf assms(2-5)] leases_from_put [OF lf assms(3,5)] nc
    by (auto simp: ctl_inv_def sent_send(1) [OF nc raw] split: sum.splits)
qed

lemma ctl_inv_cong:
  assumes "ctl_inv menv E c" and "rules_of (c_leases c') = rules_of (c_leases c)"
    and "sent_routes menv c' = sent_routes menv c" and "c_cancelled c' = c_cancelled c"
  shows "ctl_inv menv E c'"
  using assms by (simp add: ctl_inv_def leases_from_def leased_def)

lemma publish_inv [simp]: "ctl_inv menv E (publish env c) \<longleftrightarrow> ctl_inv menv E c"
  by (simp add: ctl_inv_def)

text \<open>
  Replacing the rule of a lease is giving it up and announcing the new one; the code only
  stores the new lease first.
\<close>

lemma replace_inv:
  assumes "ctl_inv menv E c" and "clash_free E" and "e \<in> E" and "map_of (c_leases c) (ev_ID e) = Some old"
    and "l_rule l = ev_Rule e"
  shows "ctl_inv menv E (advertise (ev_Rule e) False (send env OpAnnounce (ev_Rule e)
      (advertise (l_rule old) True (send env OpWithdraw (l_rule old)
        (c\<lparr>c_leases := gput (ev_ID e) l (c_leases c)\<rparr>)))))" (is "ctl_inv menv E ?c'")
proof -
  have ro: "rules_of (c_leases c) (ev_ID e) = Some (l_rule old)" using assms(4) by (simp add: rules_of_def)
  let ?d = "drop_lease env (ev_ID e) old c"
  have d: "ctl_inv menv E ?d" by (rule drop_lease_inv [OF assms(1,2) ro])
  have "c_leases ?d = gdel (ev_ID e) (c_leases c)" by (simp add: drop_lease_def)
  then have n: "rules_of (c_leases ?d) (ev_ID e) = None" by simp
  have nc: "\<not> c_cancelled c" using assms(1) by (simp add: ctl_inv_def)
  have raw: "r_Raw (l_rule old) \<noteq> ''''" "r_Raw (ev_Rule e) \<noteq> ''''"
    using assms(1-3) ro unfolding ctl_inv_def leases_from_def clash_free_def by metis+
  show ?thesis
    by (rule ctl_inv_cong [OF announce_inv [OF d assms(2,3) n assms(5), of env]])
      (use nc raw in \<open>simp_all add: drop_lease_def sent_send\<close>)
qed

lemma applyEvent_inv:
  assumes "ctl_inv menv E c" and "clash_free E" and "e \<in> E"
  shows "ctl_inv menv E (applyEvent env now e c)"
proof (cases "map_of (c_leases c) (ev_ID e)")
  case None
  let ?l = "\<lparr>l_rule = ev_Rule e, l_expiresAt = now + ev_TTL e\<rparr>"
  have "rules_of (c_leases c) (ev_ID e) = None" using None by (simp add: rules_of_def)
  note ann = announce_inv [OF assms this, of ?l env]
  show ?thesis
    using assms(1) ctl_inv_cong [OF ann] None by (auto simp: applyEvent_def Let_def)
next
  case (Some old)
  let ?l = "\<lparr>l_rule = ev_Rule e, l_expiresAt = now + ev_TTL e\<rparr>"
  note rep = replace_inv [OF assms Some, of ?l env]
  have "rules_of (c_leases c) (ev_ID e) = Some (l_rule old)" using Some by (simp add: rules_of_def)
  then have same: "(rules_of (c_leases c))(ev_ID e \<mapsto> l_rule old) = rules_of (c_leases c)"
    by (rule fun_upd_idem)
  show ?thesis
    using assms(1) ctl_inv_cong [OF rep] ctl_inv_cong [OF assms(1)] Some same
    by (auto simp: applyEvent_def Let_def)
qed

section \<open>Expiry\<close>

definition ctl_env_ok :: "ctl_env \<Rightarrow> bool" where
  "ctl_env_ok env \<longleftrightarrow> (\<forall>ks. set (range_leases env ks) = set ks)"

lemma drop_lease_simps [simp]:
  "c_leases (drop_lease env i l c) = gdel i (c_leases c)" "c_cancelled (drop_lease env i l c) = c_cancelled c"
  by (simp_all add: drop_lease_def)

definition alive :: "gotime \<Rightarrow> lease option \<Rightarrow> lease option" where
  "alive now x = (case x of Some l \<Rightarrow> if now < l_expiresAt l then Some l else None | None \<Rightarrow> None)"

lemma fold_expire:
  "map_of (c_leases (fst (fold (expire_step env now) ks (c, ch)))) =
     (\<lambda>i. if i \<in> set ks then alive now (map_of (c_leases c) i) else map_of (c_leases c) i)"
proof (induction ks arbitrary: c ch)
  case (Cons k ks)
  obtain c1 ch1 where s: "expire_step env now k (c, ch) = (c1, ch1)" by (metis surj_pair)
  then have "map_of (c_leases c1) = (map_of (c_leases c))(k := alive now (map_of (c_leases c) k))"
    by (auto simp: expire_step_def alive_def fun_eq_iff split: option.splits if_splits)
  with s show ?case by (auto simp: Cons.IH fun_eq_iff alive_def split: option.splits)
qed simp

lemma expire_leases:
  assumes "ctl_env_ok env"
  shows "map_of (c_leases (expire env now c)) i = alive now (map_of (c_leases c) i)"
proof -
  have "alive now (map_of (c_leases c) i) = map_of (c_leases c) i" if "i \<notin> set (map fst (c_leases c))"
    using that by (metis alive_def map_of_eq_None_iff option.simps(4) set_map)
  then show ?thesis
    using fold_expire [of env now "range_leases env (map fst (c_leases c))" c False] assms
    by (auto simp: expire_def Let_def case_prod_unfold ctl_env_ok_def fun_eq_iff)
qed

lemma expire_step_inv:
  assumes "ctl_inv menv E (fst x)" and "clash_free E"
  shows "ctl_inv menv E (fst (expire_step env now i x))"
  using assms drop_lease_inv [OF assms]
  by (auto simp: expire_step_def rules_of_def case_prod_unfold split: option.split)

lemma withdraw_step_inv:
  assumes "ctl_inv menv E c" and "clash_free E"
  shows "ctl_inv menv E (withdraw_step env i c)"
  using assms drop_lease_inv [OF assms] by (auto simp: withdraw_step_def rules_of_def split: option.split)

lemma expire_inv:
  assumes "ctl_inv menv E c" and "clash_free E"
  shows "ctl_inv menv E (expire env now c)"
proof -
  have "ctl_inv menv E (fst (fold (expire_step env now) ks (c, ch)))" for ks ch
    by (rule fold_invariant [where Q = "\<lambda>_. True"]) (use assms expire_step_inv in auto)
  then show ?thesis
    unfolding expire_def Let_def case_prod_unfold by simp
qed

lemma withdrawAll_inv:
  assumes "ctl_inv menv E c" and "clash_free E"
  shows "ctl_inv menv E (withdrawAll env c)"
proof -
  have "ctl_inv menv E (fold (withdraw_step env) ks c)" for ks
    by (rule fold_invariant [where Q = "\<lambda>_. True"]) (use assms withdraw_step_inv in auto)
  then show ?thesis by (simp add: withdrawAll_def)
qed

lemma withdrawAll_leases:
  assumes "ctl_env_ok env"
  shows "map_of (c_leases (withdrawAll env c)) i = None"
proof -
  have "map_of (c_leases (fold (withdraw_step env) ks c)) =
      (\<lambda>i. if i \<in> set ks then None else map_of (c_leases c) i)" for ks
  proof (induction ks arbitrary: c)
    case (Cons k ks)
    have "map_of (c_leases (withdraw_step env k c)) = (map_of (c_leases c))(k := None)"
      by (auto simp: withdraw_step_def fun_eq_iff split: option.split)
    then show ?case by (auto simp: Cons.IH fun_eq_iff)
  qed simp
  then show ?thesis
    using assms by (auto simp: withdrawAll_def ctl_env_ok_def map_of_eq_None_iff)
qed

section \<open>The loop\<close>

fun input_events :: "'f ctl_input list \<Rightarrow> 'f Event set" where
  "input_events [] = {}"
| "input_events (Input now e # is) = insert e (input_events is)"
| "input_events (_ # is) = input_events is"

fun uncancelled :: "'f ctl_input list \<Rightarrow> bool" where
  "uncancelled [] \<longleftrightarrow> True"
| "uncancelled (Cancel # is) \<longleftrightarrow> False"
| "uncancelled (Closed # is) \<longleftrightarrow> True"
| "uncancelled (_ # is) \<longleftrightarrow> uncancelled is"

lemma ctl_New_inv: "ctl_inv menv E ctl_New"
  by (simp add: ctl_inv_def ctl_New_def leases_from_def sent_routes_def leased_def)

lemma ctl_Run_inv:
  assumes "ctl_inv menv E c" and "clash_free E" and "input_events is \<subseteq> E" and "uncancelled is"
  shows "ctl_inv menv E (ctl_Run env is c)"
  using assms
  by (induction env "is" c rule: ctl_Run.induct)
    (simp_all add: applyEvent_inv expire_inv withdrawAll_inv)

text \<open>Every update carries the rule of some event.\<close>

definition sent_ok :: "'f Event set \<Rightarrow> controller \<Rightarrow> bool" where
  "sent_ok E c \<longleftrightarrow> (\<forall>u\<in>set (c_updates c). \<exists>e\<in>E. u_Rule u = Some (ev_Rule e)) \<and> leases_from E (c_leases c)"

lemma sent_ok_send:
  "sent_ok E c \<Longrightarrow> r \<in> ev_Rule ` E \<Longrightarrow> sent_ok E (advertise r w (send env op r c))"
  by (auto simp: sent_ok_def send_def Let_def)

lemma sent_ok_publish [simp]: "sent_ok E (publish env c) \<longleftrightarrow> sent_ok E c"
  by (simp add: sent_ok_def)

lemma sent_ok_leases:
  "sent_ok E c \<Longrightarrow> leases_from E ls \<Longrightarrow> sent_ok E (c\<lparr>c_leases := ls\<rparr>)"
  by (simp add: sent_ok_def)

lemma lease_rule_from: "sent_ok E c \<Longrightarrow> map_of (c_leases c) i = Some l \<Longrightarrow> l_rule l \<in> ev_Rule ` E"
  unfolding sent_ok_def leases_from_def rules_of_def by force

lemma sent_ok_drop:
  assumes "sent_ok E c" and "map_of (c_leases c) i = Some l"
  shows "sent_ok E (drop_lease env i l c)"
  unfolding drop_lease_def
  by (rule sent_ok_send [OF sent_ok_leases lease_rule_from [OF assms]])
    (use assms(1) in \<open>auto simp: sent_ok_def leases_from_del\<close>)

lemma sent_ok_apply:
  assumes "sent_ok E c" and "e \<in> E"
  shows "sent_ok E (applyEvent env now e c)"
proof -
  let ?l = "\<lparr>l_rule = ev_Rule e, l_expiresAt = now + ev_TTL e\<rparr>"
  have put: "sent_ok E (c\<lparr>c_leases := gput (ev_ID e) ?l (c_leases c)\<rparr>)"
    using assms by (intro sent_ok_leases leases_from_put) (simp_all add: sent_ok_def)
  have refresh: "sent_ok E (c\<lparr>c_leases := gput (ev_ID e) (l\<lparr>l_expiresAt := t\<rparr>) (c_leases c)\<rparr>)"
    if "map_of (c_leases c) (ev_ID e) = Some l" for l t
    using assms(1) that by (intro sent_ok_leases) (auto simp: sent_ok_def leases_from_def rules_of_def)
  show ?thesis
    using assms put refresh lease_rule_from [OF assms(1)]
    by (auto simp: applyEvent_def Let_def intro!: sent_ok_send split: option.split)
qed

lemma sent_ok_Run:
  assumes "sent_ok E c" and "input_events is \<subseteq> E"
  shows "sent_ok E (ctl_Run env is c)"
proof -
  have step: "sent_ok E (fst (expire_step env now i x))" if "sent_ok E (fst x)" for env now i x
    using that by (auto simp: expire_step_def case_prod_unfold sent_ok_drop split: option.split)
  have ex: "sent_ok E (expire env now c)" if "sent_ok E c" for env now c
  proof -
    have "sent_ok E (fst (fold (expire_step env now) ks (c, ch)))" for ks ch
      by (rule fold_invariant [where Q = "\<lambda>_. True"]) (use that step in auto)
    then show ?thesis by (simp add: expire_def Let_def case_prod_unfold)
  qed
  have wd: "sent_ok E (withdrawAll env c)" if "sent_ok E c" for env c
  proof -
    have "sent_ok E (fold (withdraw_step env) ks c)" for ks
      by (rule fold_invariant [where Q = "\<lambda>_. True"])
        (use that in \<open>auto simp: withdraw_step_def sent_ok_drop split: option.split\<close>)
    then show ?thesis by (simp add: withdrawAll_def)
  qed
  have cancel: "sent_ok E (c\<lparr>c_cancelled := True\<rparr>) \<longleftrightarrow> sent_ok E c" for c by (simp add: sent_ok_def)
  show ?thesis
    using assms
    by (induction env "is" c rule: ctl_Run.induct) (simp_all add: sent_ok_apply ex wd cancel)
qed

section \<open>The timer\<close>

definition expiries :: "(string, lease) gomap \<Rightarrow> gotime set" where
  "expiries ls = l_expiresAt ` ran (map_of ls)"

lemma set_map_filter: "set (List.map_filter f xs) = {y. \<exists>x\<in>set xs. f x = Some y}"
  by (induction xs) (auto simp: map_filter_simps split: option.splits)

lemma wake_list:
  assumes "x \<noteq> Time_zero" and "Time_zero \<notin> set ts"
  shows "foldl (\<lambda>nxt t. if IsZero nxt \<or> t < nxt then t else nxt) x ts = Min (insert x (set ts))"
  using assms
proof (induction ts arbitrary: x)
  case (Cons t ts)
  have "Min (insert (if t < x then t else x) (set ts)) = Min (insert x (insert t (set ts)))"
    by (cases "ts = []") (auto simp: min_def)
  with Cons show ?case by (simp add: IsZero_def)
qed simp

lemma wake_fold:
  assumes "\<And>i l. map_of ls i = Some l \<Longrightarrow> l_expiresAt l \<noteq> Time_zero"
    and "ts = List.map_filter (\<lambda>i. map_option l_expiresAt (map_of ls i)) ks" and "ts \<noteq> []"
  shows "foldl (\<lambda>nxt i. case map_of ls i of None \<Rightarrow> nxt
      | Some l \<Rightarrow> if IsZero nxt \<or> l_expiresAt l < nxt then l_expiresAt l else nxt) Time_zero ks = Min (set ts)"
proof -
  have "foldl (\<lambda>nxt i. case map_of ls i of None \<Rightarrow> nxt
      | Some l \<Rightarrow> if IsZero nxt \<or> l_expiresAt l < nxt then l_expiresAt l else nxt) x ks =
      foldl (\<lambda>nxt t. if IsZero nxt \<or> t < nxt then t else nxt) x
        (List.map_filter (\<lambda>i. map_option l_expiresAt (map_of ls i)) ks)" for x
    by (induction ks arbitrary: x) (auto simp: map_filter_simps split: option.split)
  moreover obtain t us where ts: "ts = t # us" using assms(3) by (cases ts) auto
  have "Time_zero \<notin> set ts"
    using assms(1) unfolding assms(2) by (auto simp: set_map_filter)
  then have "foldl (\<lambda>nxt t. if IsZero nxt \<or> t < nxt then t else nxt) Time_zero ts = Min (set ts)"
    using wake_list [of t us] by (simp add: ts IsZero_def)
  ultimately show ?thesis using assms(2) by simp
qed

lemma nextWake_eq:
  assumes "ctl_env_ok env" and "ls \<noteq> []" and "\<And>i l. map_of ls i = Some l \<Longrightarrow> l_expiresAt l \<noteq> Time_zero"
    and "Min (expiries ls) - now < 2 ^ 63"
  shows "nextWake env now ls = max 1 (Min (expiries ls) - now)"
proof -
  let ?ks = "range_leases env (map fst ls)"
  define ts where "ts = List.map_filter (\<lambda>i. map_option l_expiresAt (map_of ls i)) ?ks"
  have "set ?ks = fst ` set ls" using assms(1) by (simp add: ctl_env_ok_def)
  then have "set ts = {t. \<exists>i\<in>fst ` set ls. map_option l_expiresAt (map_of ls i) = Some t}"
    by (simp only: ts_def set_map_filter)
  also have "\<dots> = expiries ls"
  proof -
    have "i \<in> fst ` set ls" if "map_of ls i = Some l" for i l
      using that by (metis domI dom_map_of_conv_image_fst)
    then show ?thesis by (fastforce simp: expiries_def ran_def)
  qed
  finally have T: "set ts = expiries ls" .
  obtain k v rest where "ls = (k, v) # rest" using assms(2) by (cases ls) auto
  then have "expiries ls \<noteq> {}" by (auto simp: expiries_def ran_def)
  then have "ts \<noteq> []" using T by auto
  note wake = wake_fold [OF assms(3) ts_def this]
  have "time_Sub (Min (expiries ls)) now = Min (expiries ls) - now \<or>
      time_Sub (Min (expiries ls)) now = minDuration \<and> Min (expiries ls) - now < minDuration"
    using assms(4) by (auto simp: time_Sub_def maxDuration_def)
  then show ?thesis
    using assms(2) by (auto simp: nextWake_def Let_def wake T minDuration_def)
qed

end
