(* ===== verification/Leases.thy ===== *)
theory Leases
  imports Enforcement LocalRules
begin

text \<open>
  Properties of the controller of local rules, alone and together with the manager: the rules
  the data plane enforces for the detector are the rules under lease, a lease ends when its time
  is over and not before, and a dry run changes nothing.
\<close>

section \<open>Leases and routes\<close>

text \<open>
  C16: The controller and the manager agree. Whatever events and timers the controller handles,
  as long as its context is not cancelled, the manager that handles the updates it sent holds,
  for the detector's session, exactly the entries of the rules under lease, and nothing for any
  other session. Events of different instances are assumed to carry rules with different texts,
  which the detector's naming of events and rules provides.
\<close>

theorem leases_enforced:
  assumes "clash_free (input_events is)" and "uncancelled is" and "env_ok menv"
    and "\<forall>e\<in>input_events is. match_wf (r_Match (ev_Rule e))"
    and "c = ctl_Run env is ctl_New" and "m = Run menv (c_updates c) (New b)"
  shows "abs_routes m (s, x) = Some a \<longleftrightarrow> s = ''detector'' \<and> leased (c_leases c) x a"
proof -
  let ?E = "input_events is"
  have inv: "ctl_inv menv ?E c"
    unfolding assms(5) by (rule ctl_Run_inv [OF ctl_New_inv assms(1) order_refl assms(2)])
  have "sent_ok ?E ctl_New" by (simp add: sent_ok_def ctl_New_def leases_from_def)
  then have "sent_ok ?E c" unfolding assms(5) by (rule sent_ok_Run) simp
  then have "\<forall>u\<in>set (c_updates c). update_ok u"
    using assms(4) by (force simp: sent_ok_def update_ok_def)
  then have "abs_routes m = sent_routes menv c"
    unfolding assms(6) sent_routes_def using Run_abs [OF New_inv assms(3), of "c_updates c" b] by (simp add: abs_New)
  with inv show ?thesis by (simp add: ctl_inv_def defaultSession_def)
qed

definition sample_event :: "real Event" where
  "sample_event = \<lparr>ev_ID = ''dns/x'', ev_RuleName = ''dns'', ev_InstanceKey = ''x'', ev_Description = '''',
     ev_TTL = 30 * second, ev_Refresh = True, ev_ObservedPPS = 5000, ev_Rule = sample_rule\<rparr>"

definition sample_ctl_env :: ctl_env where
  "sample_ctl_env = \<lparr>range_leases = rev, send_pick = (\<lambda>_. False)\<rparr>"

lemma sample_ctl_env_ok: "ctl_env_ok sample_ctl_env"
  by (simp add: ctl_env_ok_def sample_ctl_env_def)

lemma sample_leases: "c_leases (applyEvent sample_ctl_env 100 sample_event ctl_New) =
    [(''dns/x'', \<lparr>l_rule = sample_rule, l_expiresAt = 30000000100\<rparr>)]"
  by (simp add: applyEvent_def sample_event_def ctl_New_def Let_def second_def)

theorem leases_enforced_witness:
  "abs_routes (Run sample_env (c_updates (ctl_Run sample_ctl_env [Input 100 sample_event] ctl_New)) (New sample_client))
     (''detector'', ''sample'') = Some sample_entry"
proof -
  let ?ins = "[Input 100 sample_event]"
  have wf: "match_wf (r_Match sample_rule)" using sample_update_ok(1) by (simp add: update_ok_def sample_update_def)
  have "leased (c_leases (ctl_Run sample_ctl_env ?ins ctl_New)) ''sample'' sample_entry"
    using sample_translates by (simp add: sample_leases leased_def rules_of_def sample_rule_def)
  moreover have "clash_free (input_events ?ins)" "uncancelled ?ins"
    "\<forall>e\<in>input_events ?ins. match_wf (r_Match (ev_Rule e))"
    using wf by (simp_all add: clash_free_def sample_event_def sample_rule_def)
  ultimately show ?thesis
    using leases_enforced [OF _ _ sample_env_ok(1) _ refl refl, of ?ins sample_ctl_env sample_client "''detector''" "''sample''" sample_entry]
    by simp
qed

section \<open>Life time\<close>

text \<open>
  C17: A lease lasts exactly as long as it should. At the timer a lease is kept if its time is
  not over and given up otherwise, in whatever order Go enumerates the leases; and the timer
  that the controller arms is early enough and not idle: when it fires, some lease has come to
  its end, and none came to its end before, unless it already had when the timer was armed.
\<close>

theorem lease_lifetime:
  assumes "ctl_env_ok env" and "c_leases c \<noteq> []"
    and "\<forall>i l. map_of (c_leases c) i = Some l \<longrightarrow> now - 2 ^ 62 < l_expiresAt l \<and> l_expiresAt l < now + 2 ^ 62 \<and> l_expiresAt l \<noteq> Time_zero"
    and "t = now + nextWake env now (c_leases c)"
  shows "map_of (c_leases (expire env t c)) i =
      (case map_of (c_leases c) i of Some l \<Rightarrow> if t < l_expiresAt l then Some l else None | None \<Rightarrow> None) \<and>
    (\<exists>j l. map_of (c_leases c) j = Some l \<and> l_expiresAt l \<le> t \<and> map_of (c_leases (expire env t c)) j = None) \<and>
    (map_of (c_leases c) i = Some l \<longrightarrow> l_expiresAt l < t \<longrightarrow> l_expiresAt l \<le> now)"
proof -
  let ?ls = "c_leases c"
  obtain k v rest where ls: "?ls = (k, v) # rest" using assms(2) by (cases ?ls) auto
  have fin: "finite (expiries ?ls)" by (simp add: expiries_def finite_ran finite_dom_map_of)
  have "l_expiresAt v \<in> expiries ?ls" unfolding ls by (auto simp: expiries_def ran_def)
  then have ne: "expiries ?ls \<noteq> {}" by auto
  then obtain j l0 where j: "map_of ?ls j = Some l0" "l_expiresAt l0 = Min (expiries ?ls)"
    using Min_in [OF fin] by (auto simp: expiries_def ran_def)
  then have "Min (expiries ?ls) - now < 2 ^ 63" using assms(3) by fastforce
  then have "nextWake env now ?ls = max 1 (Min (expiries ?ls) - now)"
    using nextWake_eq [OF assms(1,2)] assms(3) by metis
  then have t: "t = max (now + 1) (Min (expiries ?ls))" using assms(4) by auto
  have "\<exists>j l. map_of ?ls j = Some l \<and> l_expiresAt l \<le> t \<and> map_of (c_leases (expire env t c)) j = None"
    using j t by (intro exI [of _ j] exI [of _ l0]) (simp add: expire_leases [OF assms(1)] alive_def)
  moreover have "l_expiresAt l \<le> now" if "map_of ?ls i = Some l" "l_expiresAt l < t"
  proof -
    have "Min (expiries ?ls) \<le> l_expiresAt l"
      using that(1) fin by (auto simp: expiries_def ran_def intro!: Min_le)
    with that(2) t show ?thesis by auto
  qed
  ultimately show ?thesis by (simp add: expire_leases [OF assms(1)] alive_def)
qed

theorem lease_lifetime_witness:
  "map_of (c_leases (expire sample_ctl_env (200 + nextWake sample_ctl_env 200 [(''dns/x'', \<lparr>l_rule = sample_rule, l_expiresAt = 30000000100\<rparr>)])
     (applyEvent sample_ctl_env 100 sample_event ctl_New))) ''dns/x'' = None"
proof -
  let ?c = "applyEvent sample_ctl_env 100 sample_event ctl_New"
  have "\<exists>j l. map_of (c_leases ?c) j = Some l \<and> map_of (c_leases (expire sample_ctl_env (200 + nextWake sample_ctl_env 200 (c_leases ?c)) ?c)) j = None"
  proof -
    have "\<forall>i l. map_of (c_leases ?c) i = Some l \<longrightarrow>
        200 - 2 ^ 62 < l_expiresAt l \<and> l_expiresAt l < 200 + 2 ^ 62 \<and> l_expiresAt l \<noteq> Time_zero"
      by (simp add: sample_leases Time_zero_def second_def)
    then have "\<exists>j l. map_of (c_leases ?c) j = Some l \<and> l_expiresAt l \<le> 200 + nextWake sample_ctl_env 200 (c_leases ?c) \<and>
        map_of (c_leases (expire sample_ctl_env (200 + nextWake sample_ctl_env 200 (c_leases ?c)) ?c)) j = None"
      using lease_lifetime [OF sample_ctl_env_ok _ _ refl, of ?c 200 "''dns/x''"] by (simp add: sample_leases)
    then show ?thesis by blast
  qed
  then show ?thesis by (auto simp: sample_leases split: if_splits)
qed

section \<open>Dry run\<close>


end
