(* ===== verification/Packet.thy ===== *)
theory Packet
  imports DetTypes "HOL-Library.Monad_Syntax"
begin

text \<open>
  Package \<^verbatim>\<open>internal/packet\<close>: decoding a sampled packet header. A run-time panic of Go, an index
  or a slice out of range, is the value \<open>None\<close> of the option monad, and the theorems show that
  it does not occur; a function that returns a value and \<^verbatim>\<open>ok\<close> returns an option inside it. A
  slice expression is checked against the length of the slice, which is at most its capacity.
\<close>

section \<open>Slices that can panic\<close>

type_synonym bytes = "u8 list"

definition idx :: "bytes \<Rightarrow> nat \<Rightarrow> u8 option" where
  "idx b i = (if i < length b then Some (b ! i) else None)"

definition slice :: "bytes \<Rightarrow> nat \<Rightarrow> nat \<Rightarrow> bytes option" where
  "slice b i j = (if i \<le> j \<and> j \<le> length b then Some (take (j - i) (drop i b)) else None)"

abbreviation slice_from :: "bytes \<Rightarrow> nat \<Rightarrow> bytes option" where
  "slice_from b i \<equiv> slice b i (length b)"

definition be_word :: "bytes \<Rightarrow> 'a :: len word" where
  "be_word b = foldl (\<lambda>a x. push_bit 8 a OR ucast x) 0 b"

text \<open>\<^verbatim>\<open>binary.BigEndian\<close> reads the first bytes of a slice and panics on a shorter one.\<close>

definition Uint16 :: "bytes \<Rightarrow> u16 option" where
  "Uint16 b = (if 2 \<le> length b then Some (be_word (take 2 b)) else None)"

definition Uint32 :: "bytes \<Rightarrow> u32 option" where
  "Uint32 b = (if 4 \<le> length b then Some (be_word (take 4 b)) else None)"

definition u16_at :: "bytes \<Rightarrow> nat \<Rightarrow> u16 option" where
  "u16_at b i = do { s \<leftarrow> slice b i (i + 2); Uint16 s }"

section \<open>Constants\<close>

definition etherTypeIPv4 :: u16 where "etherTypeIPv4 = 0x0800"
definition etherTypeIPv6 :: u16 where "etherTypeIPv6 = 0x86dd"
definition etherTypeVLAN :: u16 where "etherTypeVLAN = 0x8100"

definition extHopByHop :: u8 where "extHopByHop = 0"
definition extRouting :: u8 where "extRouting = 43"
definition extFragment :: u8 where "extFragment = 44"
definition extAH :: u8 where "extAH = 51"
definition extDestOpts :: u8 where "extDestOpts = 60"
definition extMobility :: u8 where "extMobility = 135"

section \<open>Decoding\<close>

definition ClampU16 :: "u32 \<Rightarrow> u16" where
  "ClampU16 v = (if v > 0xffff then 0xffff else ucast v)"

definition fillPorts :: "Sample \<Rightarrow> bytes \<Rightarrow> Sample option" where
  "fillPorts s payload =
     (if s_Proto s = protoTCP then
        (if length payload < 14 then Some s
         else do {
           sp \<leftarrow> u16_at payload 0;
           dp \<leftarrow> u16_at payload 2;
           fl \<leftarrow> idx payload 13;
           Some (s\<lparr>s_SrcPort := sp, s_DstPort := dp, s_TCPFlags := fl\<rparr>)
         })
      else if s_Proto s = protoUDP then
        (if length payload < 4 then Some s
         else do {
           sp \<leftarrow> u16_at payload 0;
           dp \<leftarrow> u16_at payload 2;
           Some (s\<lparr>s_SrcPort := sp, s_DstPort := dp\<rparr>)
         })
      else if s_Proto s = protoICMP \<or> s_Proto s = protoICMPv6 then
        (if length payload < 2 then Some s
         else do {
           t \<leftarrow> idx payload 0;
           c \<leftarrow> idx payload 1;
           Some (s\<lparr>s_ICMPType := t, s_ICMPCode := c\<rparr>)
         })
      else Some s)"

definition DecodeIPv4 :: "bytes \<Rightarrow> Sample option option" where
  "DecodeIPv4 b =
     (if length b < 20 then Some None
      else do {
        b0 \<leftarrow> idx b 0;
        if drop_bit 4 b0 \<noteq> 4 then Some None
        else
          let ihl = unat (b0 AND 0x0f) * 4
          in if ihl < 20 \<or> length b < ihl then Some None
             else do {
               totalLen \<leftarrow> u16_at b 2;
               proto \<leftarrow> idx b 9;
               src \<leftarrow> slice b 12 16;
               dst \<leftarrow> slice b 16 20;
               let s = Sample_zero\<lparr>s_Family := FamilyIPv4, s_Src := Addr4 (be_word src),
                         s_Dst := Addr4 (be_word dst), s_Proto := proto, s_PacketLen := totalLen\<rparr>;
               frag \<leftarrow> u16_at b 6;
               if frag AND 0x1fff = 0 then do {
                 payload \<leftarrow> slice_from b ihl;
                 s' \<leftarrow> fillPorts s payload;
                 Some (Some s')
               } else Some (Some s)
             }
      })"

text \<open>
  One \<^verbatim>\<open>switch\<close> of \<^verbatim>\<open>skipIPv6ExtHeaders\<close>: the length of the extension header, or the values
  the function returns, the protocol and the bytes of the transport header (\<open>None\<close> for \<^verbatim>\<open>nil\<close>).
\<close>

definition ext_hdr :: "u8 \<Rightarrow> bytes \<Rightarrow> (nat + u8 \<times> bytes option) option" where
  "ext_hdr nxt rest =
     (if nxt \<in> {extHopByHop, extRouting, extDestOpts, extMobility} then
        (if length rest < 2 then Some (Inr (nxt, None))
         else do { l \<leftarrow> idx rest 1; Some (Inl ((unat l + 1) * 8)) })
      else if nxt = extFragment then
        (if length rest < 8 then Some (Inr (nxt, None))
         else do {
           off \<leftarrow> u16_at rest 2;
           if drop_bit 3 off \<noteq> 0 then do { n \<leftarrow> idx rest 0; Some (Inr (n, None)) }
           else Some (Inl 8)
         })
      else if nxt = extAH then
        (if length rest < 2 then Some (Inr (nxt, None))
         else do { l \<leftarrow> idx rest 1; Some (Inl ((unat l + 2) * 4)) })
      else Some (Inr (nxt, Some rest)))"

text \<open>The loop; the first argument counts the iterations that are left.\<close>

fun ext_loop :: "nat \<Rightarrow> u8 \<Rightarrow> bytes \<Rightarrow> (u8 \<times> bytes option) option" where
  "ext_loop 0 nxt rest = Some (nxt, Some rest)"
| "ext_loop (Suc i) nxt rest = do {
     h \<leftarrow> ext_hdr nxt rest;
     case h of
       Inr r \<Rightarrow> Some r
     | Inl hdrLen \<Rightarrow>
         if hdrLen \<le> 0 \<or> length rest < hdrLen then Some (nxt, None)
         else do { n \<leftarrow> idx rest 0; r \<leftarrow> slice_from rest hdrLen; ext_loop i n r }
   }"

definition skipIPv6ExtHeaders :: "u8 \<Rightarrow> bytes \<Rightarrow> (u8 \<times> bytes option) option" where
  "skipIPv6ExtHeaders nxt rest = ext_loop 8 nxt rest"

definition DecodeIPv6 :: "bytes \<Rightarrow> Sample option option" where
  "DecodeIPv6 b =
     (if length b < 40 then Some None
      else do {
        b0 \<leftarrow> idx b 0;
        if drop_bit 4 b0 \<noteq> 6 then Some None
        else do {
          payloadLen \<leftarrow> u16_at b 4;
          srcBytes \<leftarrow> slice b 8 24;
          dstBytes \<leftarrow> slice b 24 40;
          nh \<leftarrow> idx b 6;
          rest \<leftarrow> slice_from b 40;
          (proto, l4) \<leftarrow> skipIPv6ExtHeaders nh rest;
          let s = Sample_zero\<lparr>s_Family := FamilyIPv6, s_Src := Addr6 (be_word srcBytes),
                    s_Dst := Addr6 (be_word dstBytes), s_Proto := proto,
                    s_PacketLen := ClampU16 (ucast payloadLen + 40)\<rparr>;
          s' \<leftarrow> fillPorts s (case l4 of None \<Rightarrow> [] | Some p \<Rightarrow> p);
          Some (Some s')
        }
      })"

text \<open>The loop over VLAN tags: the type and the offset behind them, or \<open>None\<close> when it is cut off.\<close>

function vlan_loop :: "bytes \<Rightarrow> u16 \<Rightarrow> nat \<Rightarrow> (u16 \<times> nat) option option" where
  "vlan_loop b ety off =
     (if ety = etherTypeVLAN then
        (if length b < off + 4 then Some None
         else do { ety' \<leftarrow> u16_at b (off + 2); vlan_loop b ety' (off + 4) })
      else Some (Some (ety, off)))"
  by pat_completeness auto
termination by (relation "measure (\<lambda>(b, ety, off). length b - off)") auto

declare vlan_loop.simps [simp del]

definition DecodeEthernet :: "bytes \<Rightarrow> Sample option option" where
  "DecodeEthernet b =
     (if length b < 14 then Some None
      else do {
        ety0 \<leftarrow> u16_at b 12;
        r \<leftarrow> vlan_loop b ety0 14;
        case r of
          None \<Rightarrow> Some None
        | Some (ety, off) \<Rightarrow>
            if ety = etherTypeIPv4 then do { p \<leftarrow> slice_from b off; DecodeIPv4 p }
            else if ety = etherTypeIPv6 then do { p \<leftarrow> slice_from b off; DecodeIPv6 p }
            else Some None
      })"

definition FromEthernet :: "bytes \<Rightarrow> gotime \<Rightarrow> u32 \<Rightarrow> string \<Rightarrow> Sample option option" where
  "FromEthernet b t sampleRate ingressIf = do {
     r \<leftarrow> DecodeEthernet b;
     Some (map_option (\<lambda>s. s\<lparr>s_At := t, s_IngressIf := ingressIf,
                            s_SampleRate := (if sampleRate = 0 then 1 else sampleRate)\<rparr>) r)
   }"

section \<open>No run-time panic\<close>

lemma bind_ok: "(\<exists>y. m = Some y) \<Longrightarrow> (\<And>x. m = Some x \<Longrightarrow> f x \<noteq> None) \<Longrightarrow> m \<bind> f \<noteq> None"
  by auto

lemma idx_ok [simp]: "i < length b \<Longrightarrow> idx b i = Some (b ! i)"
  by (simp add: idx_def)

lemma slice_ok [simp]: "i \<le> j \<Longrightarrow> j \<le> length b \<Longrightarrow> slice b i j = Some (take (j - i) (drop i b))"
  by (simp add: slice_def)

lemma u16_at_ok [simp]: "i + 2 \<le> length b \<Longrightarrow> u16_at b i = Some (be_word (take 2 (drop i b)))"
  by (simp add: u16_at_def Uint16_def)

lemma idx_0 [simp]: "b \<noteq> [] \<Longrightarrow> idx b 0 = Some (b ! 0)"
  by (simp add: idx_def)

lemma fillPorts_total: "\<exists>s'. fillPorts s p = Some s'"
  by (cases "p = []") (auto simp: fillPorts_def)

lemma DecodeIPv4_total: "\<exists>r. DecodeIPv4 b = Some r"
proof -
  obtain f where f: "\<And>s p. fillPorts s p = Some (f s p)" using fillPorts_total by metis
  show ?thesis
    by (cases "b = []") (auto simp: DecodeIPv4_def Let_def f)
qed

lemma ext_hdr_total: "\<exists>h. ext_hdr nxt rest = Some h"
  by (cases "rest = []") (auto simp: ext_hdr_def)

lemma ext_loop_total: "\<exists>r. ext_loop i nxt rest = Some r"
proof (induction i arbitrary: nxt rest)
  case (Suc i)
  obtain h where h: "ext_hdr nxt rest = Some h" using ext_hdr_total by blast
  show ?case
  proof (cases h)
    case (Inl hdrLen)
    show ?thesis
    proof (cases "hdrLen \<le> 0 \<or> length rest < hdrLen")
      case False
      then have "rest \<noteq> []" by auto
      with False h Inl Suc.IH show ?thesis by auto
    qed (simp add: h Inl)
  qed (simp add: h)
qed simp

lemma DecodeIPv6_total: "\<exists>r. DecodeIPv6 b = Some r"
proof -
  obtain f where f: "\<And>s p. fillPorts s p = Some (f s p)" using fillPorts_total by metis
  obtain g where g: "\<And>n r. skipIPv6ExtHeaders n r = Some (g n r)"
    unfolding skipIPv6ExtHeaders_def using ext_loop_total by metis
  show ?thesis
    by (cases "b = []") (auto simp: DecodeIPv6_def Let_def f g split: prod.splits)
qed

lemma vlan_loop_total: "off \<le> length b \<Longrightarrow>
   vlan_loop b ety off = Some None \<or> (\<exists>t off'. vlan_loop b ety off = Some (Some (t, off')) \<and> off' \<le> length b)"
proof (induction b ety off rule: vlan_loop.induct)
  case (1 b ety off)
  show ?case
  proof (cases "ety = etherTypeVLAN \<and> off + 4 \<le> length b")
    case True
    with 1 show ?thesis by (simp add: vlan_loop.simps [of b etherTypeVLAN off])
  next
    case False
    with "1.prems" show ?thesis by (auto simp: vlan_loop.simps [of b ety off])
  qed
qed

lemma DecodeEthernet_total: "\<exists>r. DecodeEthernet b = Some r"
proof (cases "length b < 14")
  case False
  then show ?thesis
    using vlan_loop_total [of 14 b "be_word (take 2 (drop 12 b))"]
      DecodeIPv4_total DecodeIPv6_total
    by (auto simp: DecodeEthernet_def)
qed (simp add: DecodeEthernet_def)

section \<open>Big-endian words\<close>

lemma be_word_snoc: "be_word (bs @ [x]) = push_bit 8 (be_word bs) OR ucast x"
  by (simp add: be_word_def)

lemma bit_be_word:
  "bit (be_word bs :: 'a :: len word) k \<longleftrightarrow>
     k < LENGTH('a) \<and> k < 8 * length bs \<and> bit (bs ! (length bs - 1 - k div 8)) (k mod 8)"
proof (induction bs arbitrary: k rule: rev_induct)
  case Nil
  then show ?case by (simp add: be_word_def)
next
  case (snoc x bs)
  show ?case
  proof (cases "k < 8")
    case True
    then show ?thesis by (auto simp: be_word_snoc bit_simps nth_append)
  next
    case False
    then obtain j where j: "k = j + 8" using le_add_diff_inverse2 by (metis not_less)
    then have "k div 8 = Suc (j div 8)" and "k mod 8 = j mod 8" by simp_all
    moreover have "\<not> bit x k" using False bit_imp_le_length [of x k] by auto
    ultimately show ?thesis
      using False snoc.IH [of j] j
      by (auto simp: be_word_snoc bit_push_bit_iff bit_or_iff bit_ucast_iff nth_append)
  qed
qed

lemma length_be_bytes [simp]: "length (be_bytes n w) = n"
  by (simp add: be_bytes_def)

lemma be_word_be_bytes:
  fixes w :: "'a :: len word"
  assumes "LENGTH('a) = 8 * n"
  shows "be_word (be_bytes n w) = w"
proof (rule bit_word_eqI)
  fix k assume k: "k < LENGTH('a)"
  then have "k div 8 < n" using assms by auto
  then have "8 * (n - 1 - (n - 1 - k div 8)) + k mod 8 = k" by simp
  moreover have "k mod 8 < LENGTH(8)" by simp
  ultimately show "bit (be_word (be_bytes n w) :: 'a word) k = bit w k"
    using k assms \<open>k div 8 < n\<close> by (simp add: bit_be_word be_bytes_def bit_simps add.commute)
qed

lemma be_word_u16 [simp]: "be_word (be_bytes 2 (w :: u16)) = w"
  and be_word_u32 [simp]: "be_word (be_bytes 4 (x :: u32)) = x"
  and be_word_u128 [simp]: "be_word (be_bytes 16 (y :: 128 word)) = y"
  by (simp_all add: be_word_be_bytes)

section \<open>A reference encoder\<close>

text \<open>
  The layout of the headers, from the standards: Ethernet with IEEE 802.1Q tags, IPv4 with
  options, IPv6 with extension headers, and the transport headers.
\<close>

datatype l4 =
    TCP (tcp_src: u16) (tcp_dst: u16) (tcp_mid: bytes) (tcp_flags: u8) (tcp_rest: bytes)
  | UDP (udp_src: u16) (udp_dst: u16) (udp_rest: bytes)
  | ICMP (icmp_type: u8) (icmp_code: u8) (icmp_rest: bytes)

fun enc_l4 :: "l4 \<Rightarrow> bytes" where
  "enc_l4 (TCP sp dp mid fl rest) = be_bytes 2 sp @ be_bytes 2 dp @ mid @ [fl] @ rest"
| "enc_l4 (UDP sp dp rest) = be_bytes 2 sp @ be_bytes 2 dp @ rest"
| "enc_l4 (ICMP t c rest) = [t, c] @ rest"

text \<open>Sequence, acknowledgement and data offset of TCP lie between the ports and the flags.\<close>

fun l4_ok :: "u8 \<Rightarrow> l4 \<Rightarrow> bool" where
  "l4_ok p (TCP sp dp mid fl rest) \<longleftrightarrow> p = protoTCP \<and> length mid = 9"
| "l4_ok p (UDP sp dp rest) \<longleftrightarrow> p = protoUDP"
| "l4_ok p (ICMP t c rest) \<longleftrightarrow> p = protoICMP \<or> p = protoICMPv6"

fun with_l4 :: "l4 \<Rightarrow> Sample \<Rightarrow> Sample" where
  "with_l4 (TCP sp dp mid fl rest) s = s\<lparr>s_SrcPort := sp, s_DstPort := dp, s_TCPFlags := fl\<rparr>"
| "with_l4 (UDP sp dp rest) s = s\<lparr>s_SrcPort := sp, s_DstPort := dp\<rparr>"
| "with_l4 (ICMP t c rest) s = s\<lparr>s_ICMPType := t, s_ICMPCode := c\<rparr>"

lemmas proto_defs = protoTCP_def protoUDP_def protoICMP_def protoICMPv6_def

lemma proto_distinct [simp]:
  "protoTCP \<noteq> protoUDP" "protoUDP \<noteq> protoTCP" "protoICMP \<noteq> protoTCP" "protoICMP \<noteq> protoUDP"
  "protoICMPv6 \<noteq> protoTCP" "protoICMPv6 \<noteq> protoUDP" "protoTCP \<noteq> protoICMP" "protoTCP \<noteq> protoICMPv6"
  "protoUDP \<noteq> protoICMP" "protoUDP \<noteq> protoICMPv6"
  by (simp_all add: proto_defs)

lemma fillPorts_enc: "l4_ok (s_Proto s) l \<Longrightarrow> fillPorts s (enc_l4 l) = Some (with_l4 l s)"
proof (cases l)
  case (TCP sp dp mid fl rest)
  assume ok: "l4_ok (s_Proto s) l"
  have "(xs @ ys @ zs @ fl # rest) ! 13 = fl" if "length xs = 2" "length ys = 2" "length zs = 9" for xs ys zs
    using that by (simp add: nth_append)
  then have "(be_bytes 2 sp @ be_bytes 2 dp @ mid @ fl # rest) ! 13 = fl" using ok TCP by simp
  with ok TCP show ?thesis by (simp add: fillPorts_def)
next
  case (UDP sp dp rest)
  assume "l4_ok (s_Proto s) l"
  with UDP show ?thesis by (simp add: fillPorts_def)
next
  case (ICMP t c rest)
  assume "l4_ok (s_Proto s) l"
  then consider "s_Proto s = protoICMP" | "s_Proto s = protoICMPv6" using ICMP by auto
  then show ?thesis using ICMP by cases (simp_all add: fillPorts_def)
qed

record ipv4_header =
  h4_tos :: u8
  h4_len :: u16
  h4_id :: u16
  h4_frag :: u16
  h4_ttl :: u8
  h4_proto :: u8
  h4_sum :: u16
  h4_src :: u32
  h4_dst :: u32
  h4_opts :: bytes

definition enc_ipv4 :: "ipv4_header \<Rightarrow> bytes \<Rightarrow> bytes" where
  "enc_ipv4 h payload =
     [0x40 OR word_of_nat (5 + length (h4_opts h) div 4), h4_tos h] @ be_bytes 2 (h4_len h) @
     be_bytes 2 (h4_id h) @ be_bytes 2 (h4_frag h) @ [h4_ttl h, h4_proto h] @ be_bytes 2 (h4_sum h) @
     be_bytes 4 (h4_src h) @ be_bytes 4 (h4_dst h) @ h4_opts h @ payload"

definition ipv4_ok :: "ipv4_header \<Rightarrow> bool" where
  "ipv4_ok h \<longleftrightarrow> 4 dvd length (h4_opts h) \<and> length (h4_opts h) \<le> 40"

definition ipv4_sample :: "ipv4_header \<Rightarrow> Sample" where
  "ipv4_sample h = Sample_zero\<lparr>s_Family := FamilyIPv4, s_Src := Addr4 (h4_src h),
     s_Dst := Addr4 (h4_dst h), s_Proto := h4_proto h, s_PacketLen := h4_len h\<rparr>"

lemma nibble4:
  assumes "n < 16"
  shows "drop_bit 4 ((0x40 :: u8) OR word_of_nat n) = 4" "unat (((0x40 :: u8) OR word_of_nat n) AND 0x0f) = n"
  using less_16_cases [OF assms] by auto

lemma drop_be_bytes [simp]: "drop n (be_bytes n w) = []" "take n (be_bytes n w) = be_bytes n w"
  by simp_all

lemma DecodeIPv4_enc:
  assumes "ipv4_ok h"
  shows "DecodeIPv4 (enc_ipv4 h payload) =
    (if h4_frag h AND 0x1fff = 0 then map_option Some (fillPorts (ipv4_sample h) payload)
     else Some (Some (ipv4_sample h)))"
proof -
  let ?b = "enc_ipv4 h payload"
  let ?n = "5 + length (h4_opts h) div 4"
  from assms have n: "?n < 16" "?n * 4 = length (h4_opts h) + 20"
    by (auto simp: ipv4_ok_def dvd_def)
  have len: "length ?b = length (h4_opts h) + 20 + length payload" by (simp add: enc_ipv4_def)
  have b0: "?b ! 0 = 0x40 OR word_of_nat ?n" by (simp add: enc_ipv4_def)
  have fields: "take 2 (drop 2 ?b) = be_bytes 2 (h4_len h)" "?b ! 9 = h4_proto h"
    "take 4 (drop 12 ?b) = be_bytes 4 (h4_src h)" "take 4 (drop 16 ?b) = be_bytes 4 (h4_dst h)"
    "take 2 (drop 6 ?b) = be_bytes 2 (h4_frag h)"
    by (simp_all add: enc_ipv4_def nth_append)
  have rest: "drop (length (h4_opts h) + 20) ?b = payload"
    unfolding drop_drop [symmetric] by (simp add: enc_ipv4_def)
  have first: "drop_bit 4 (?b ! 0) = 4" "unat (?b ! 0 AND 0x0f) = ?n"
    unfolding b0 by (rule nibble4 [OF n(1)])+
  have ne: "?b \<noteq> []" by (simp add: enc_ipv4_def)
  have ihl: "unat (?b ! 0 AND 0x0f) * 4 = length (h4_opts h) + 20" unfolding first by (rule n(2))
  show ?thesis
    unfolding DecodeIPv4_def Let_def
    by (simp add: len fields rest first(1) ihl ne ipv4_sample_def bind_map_option map_option_case
        split: option.split)
qed

section \<open>Extension headers\<close>

text \<open>
  An extension header that is no fragment carries its length, a fragment header is eight bytes
  long. The first fragment has offset zero.
\<close>

datatype ext6 =
    ExtOpts u8 u8 bytes
  | ExtFrag u8 u16 bytes
  | ExtAH u8 bytes

fun ext_num :: "ext6 \<Rightarrow> u8" where
  "ext_num (ExtOpts k l body) = k"
| "ext_num (ExtFrag res off ident) = extFragment"
| "ext_num (ExtAH l body) = extAH"

fun ext_ok :: "ext6 \<Rightarrow> bool" where
  "ext_ok (ExtOpts k l body) \<longleftrightarrow> k \<in> {extHopByHop, extRouting, extDestOpts, extMobility} \<and> length body + 2 = (unat l + 1) * 8"
| "ext_ok (ExtFrag res off ident) \<longleftrightarrow> drop_bit 3 off = 0 \<and> length ident = 4"
| "ext_ok (ExtAH l body) \<longleftrightarrow> length body + 2 = (unat l + 2) * 4"

fun enc_ext :: "u8 \<Rightarrow> ext6 \<Rightarrow> bytes" where
  "enc_ext n (ExtOpts k l body) = [n, l] @ body"
| "enc_ext n (ExtFrag res off ident) = [n, res] @ be_bytes 2 off @ ident"
| "enc_ext n (ExtAH l body) = [n, l] @ body"

text \<open>A chain of headers in front of a transport header: its first number and its bytes.\<close>

fun enc_chain :: "ext6 list \<Rightarrow> u8 \<Rightarrow> bytes \<Rightarrow> u8 \<times> bytes" where
  "enc_chain [] p payload = (p, payload)"
| "enc_chain (e # es) p payload =
     (let (n, rest) = enc_chain es p payload in (ext_num e, enc_ext n e @ rest))"

definition is_ext :: "u8 \<Rightarrow> bool" where
  "is_ext n \<longleftrightarrow> n \<in> {extHopByHop, extRouting, extDestOpts, extMobility, extFragment, extAH}"

lemmas ext_defs = extHopByHop_def extRouting_def extDestOpts_def extMobility_def extFragment_def extAH_def

lemma ext_distinct [simp]:
  "extFragment \<noteq> extHopByHop" "extFragment \<noteq> extRouting" "extFragment \<noteq> extDestOpts"
  "extFragment \<noteq> extMobility" "extAH \<noteq> extHopByHop" "extAH \<noteq> extRouting" "extAH \<noteq> extDestOpts"
  "extAH \<noteq> extMobility" "extAH \<noteq> extFragment"
  by (simp_all add: ext_defs)

lemma ext_hdr_enc:
  assumes "ext_ok e"
  shows "ext_hdr (ext_num e) (enc_ext n e @ rest) = Some (Inl (length (enc_ext n e)))"
  using assms by (cases e) (auto simp: ext_hdr_def)

lemma enc_ext_props: "enc_ext n e \<noteq> []" "enc_ext n e ! 0 = n" "(enc_ext n e @ rest) ! 0 = n"
  by (cases e; simp)+

lemma ext_loop_step:
  assumes "ext_ok e"
  shows "ext_loop (Suc i) (ext_num e) (enc_ext n e @ rest) = ext_loop i n rest"
  using enc_ext_props [of n e] by (simp add: ext_hdr_enc [OF assms])

lemma ext_loop_stop: "\<not> is_ext n \<Longrightarrow> ext_loop i n rest = Some (n, Some rest)"
  by (cases i) (simp_all add: is_ext_def ext_hdr_def)

lemma ext_loop_chain:
  assumes "list_all ext_ok es" and "length es \<le> i" and "\<not> is_ext p"
  shows "ext_loop i (fst (enc_chain es p payload)) (snd (enc_chain es p payload)) = Some (p, Some payload)"
  using assms
proof (induction es arbitrary: i)
  case Nil
  then show ?case by (simp add: ext_loop_stop)
next
  case (Cons e es)
  then obtain j where "i = Suc j" by (cases i) auto
  with Cons show ?case
    by (simp add: ext_loop_step case_prod_unfold Let_def del: ext_loop.simps)
qed

record ipv6_header =
  h6_class :: "u8 \<times> u8 \<times> u8 \<times> u8"
  h6_len :: u16
  h6_hops :: u8
  h6_src :: "128 word"
  h6_dst :: "128 word"

text \<open>The first four bytes hold the version, the traffic class and the flow label.\<close>

definition enc_ipv6 :: "ipv6_header \<Rightarrow> ext6 list \<Rightarrow> u8 \<Rightarrow> bytes \<Rightarrow> bytes" where
  "enc_ipv6 h es p payload =
     (let (a, b, c, d) = h6_class h; (n, rest) = enc_chain es p payload
      in [0x60 OR (a AND 0x0f), b, c, d] @ be_bytes 2 (h6_len h) @ [n, h6_hops h] @
         be_bytes 16 (h6_src h) @ be_bytes 16 (h6_dst h) @ rest)"

definition ipv6_sample :: "ipv6_header \<Rightarrow> u8 \<Rightarrow> Sample" where
  "ipv6_sample h p = Sample_zero\<lparr>s_Family := FamilyIPv6, s_Src := Addr6 (h6_src h),
     s_Dst := Addr6 (h6_dst h), s_Proto := p, s_PacketLen := ClampU16 (ucast (h6_len h) + 40)\<rparr>"

lemma nibble6: "drop_bit 4 ((0x60 :: u8) OR (a AND 0x0f)) = 6"
proof (rule bit_word_eqI)
  fix n assume "n < LENGTH(8)"
  then have "n \<in> {0, 1, 2, 3, 4, 5, 6, 7}" by (simp, presburger)
  then show "bit (drop_bit 4 ((0x60 :: u8) OR (a AND 0x0f))) n = bit (6 :: u8) n"
    by (auto simp: bit_simps)
qed

lemma DecodeIPv6_enc:
  assumes "list_all ext_ok es" and "length es \<le> 8" and "\<not> is_ext p"
  shows "DecodeIPv6 (enc_ipv6 h es p payload) = map_option Some (fillPorts (ipv6_sample h p) payload)"
proof -
  let ?b = "enc_ipv6 h es p payload"
  obtain a b c d where cl: "h6_class h = (a, b, c, d)" by (cases "h6_class h") auto
  obtain n rest where ch: "enc_chain es p payload = (n, rest)" by (cases "enc_chain es p payload") auto
  have len: "length ?b = 40 + length rest" by (simp add: enc_ipv6_def cl ch)
  have b0: "drop_bit 4 (?b ! 0) = 6" by (simp add: enc_ipv6_def cl ch nibble6)
  have fields: "take 2 (drop 4 ?b) = be_bytes 2 (h6_len h)" "?b ! 6 = n"
    "take 16 (drop 8 ?b) = be_bytes 16 (h6_src h)" "take 16 (drop 24 ?b) = be_bytes 16 (h6_dst h)"
    "drop 40 ?b = rest"
    by (simp_all add: enc_ipv6_def cl ch nth_append)
  have skip: "skipIPv6ExtHeaders n rest = Some (p, Some payload)"
    using ext_loop_chain [OF assms, of payload] by (simp add: skipIPv6ExtHeaders_def ch)
  show ?thesis
    by (simp add: DecodeIPv6_def len fields b0 skip ipv6_sample_def Let_def
        bind_map_option map_option_case split: option.split)
qed

section \<open>Ethernet frames\<close>

definition enc_tag :: "u16 \<Rightarrow> bytes" where
  "enc_tag tci = be_bytes 2 etherTypeVLAN @ be_bytes 2 tci"

definition enc_eth :: "bytes \<Rightarrow> u16 list \<Rightarrow> u16 \<Rightarrow> bytes \<Rightarrow> bytes" where
  "enc_eth macs tags ety payload = macs @ concat (map enc_tag tags) @ be_bytes 2 ety @ payload"

text \<open>The same bytes seen from behind the first type: that type, and what follows it.\<close>

fun tag_rest :: "u16 list \<Rightarrow> u16 \<Rightarrow> u16 \<times> bytes" where
  "tag_rest [] ety = (ety, [])"
| "tag_rest (tci # tags) ety =
     (etherTypeVLAN, be_bytes 2 tci @ be_bytes 2 (fst (tag_rest tags ety)) @ snd (tag_rest tags ety))"

lemma tag_rest_bytes:
  "concat (map enc_tag tags) @ be_bytes 2 ety = be_bytes 2 (fst (tag_rest tags ety)) @ snd (tag_rest tags ety)"
  by (induction tags) (simp_all add: enc_tag_def)

lemma vlan_loop_tags:
  assumes "ety \<noteq> etherTypeVLAN"
  shows "vlan_loop (pre @ snd (tag_rest tags ety) @ payload) (fst (tag_rest tags ety)) (length pre) =
    Some (Some (ety, length pre + length (snd (tag_rest tags ety))))"
proof (induction tags arbitrary: pre)
  case Nil
  with assms show ?case by (simp add: vlan_loop.simps)
next
  case (Cons tci tags)
  let ?pre = "pre @ be_bytes 2 tci @ be_bytes 2 (fst (tag_rest tags ety))"
  show ?case
    using Cons.IH [of ?pre] by (subst vlan_loop.simps) (simp add: add.commute add.left_commute)
qed

lemma DecodeEthernet_at:
  assumes "vlan_loop b t 14 = Some (Some (ety, off))" and "u16_at b 12 = Some t"
    and "\<not> length b < 14" and "slice_from b off = Some payload"
  shows "DecodeEthernet b =
    (if ety = etherTypeIPv4 then DecodeIPv4 payload
     else if ety = etherTypeIPv6 then DecodeIPv6 payload else Some None)"
  using assms by (simp add: DecodeEthernet_def)

lemma DecodeEthernet_enc:
  assumes "length macs = 12" and "ety \<noteq> etherTypeVLAN"
  shows "DecodeEthernet (enc_eth macs tags ety payload) =
    (if ety = etherTypeIPv4 then DecodeIPv4 payload
     else if ety = etherTypeIPv6 then DecodeIPv6 payload else Some None)"
proof -
  let ?b = "enc_eth macs tags ety payload"
  let ?t = "fst (tag_rest tags ety)" and ?r = "snd (tag_rest tags ety)"
  have b: "?b = (macs @ be_bytes 2 ?t) @ ?r @ payload"
    using tag_rest_bytes [of tags ety] by (simp add: enc_eth_def)
  have "vlan_loop ?b ?t 14 = Some (Some (ety, 14 + length ?r))"
    unfolding b using vlan_loop_tags [OF assms(2), of "macs @ be_bytes 2 ?t" tags payload] assms(1) by simp
  moreover have "u16_at ?b 12 = Some ?t" and "\<not> length ?b < 14" and "slice_from ?b (14 + length ?r) = Some payload"
    using assms(1) by (simp_all add: b)
  ultimately show ?thesis by (intro DecodeEthernet_at)
qed

end
