(* ===== verification/SFlow.thy ===== *)
theory SFlow
  imports Packet
begin

text \<open>
  Package \<^verbatim>\<open>internal/sflow\<close>: decoding sFlow version 5 datagrams (decode.go), and the decoding of
  one PSAMPLE message of \<^verbatim>\<open>internal/psample\<close>. As in the packet decoder the outer option is a
  run-time panic; an error the code returns is an \<open>Inl\<close> inside it.
\<close>

section \<open>The reader\<close>

record reader =
  rd_b :: bytes
  rd_n :: nat

definition rd_left :: "reader \<Rightarrow> int" where
  "rd_left r = int (length (rd_b r)) - int (rd_n r)"

definition adv :: "reader \<Rightarrow> nat \<Rightarrow> reader" where
  "adv r n = r\<lparr>rd_n := rd_n r + n\<rparr>"

definition rd_u32 :: "reader \<Rightarrow> (u32 option \<times> reader) option" where
  "rd_u32 r =
     (if rd_left r < 4 then Some (None, r)
      else do { s \<leftarrow> slice (rd_b r) (rd_n r) (rd_n r + 4); v \<leftarrow> Uint32 s; Some (Some v, adv r 4) })"

definition rd_bytes :: "reader \<Rightarrow> int \<Rightarrow> (bytes option \<times> reader) option" where
  "rd_bytes r n =
     (if n < 0 \<or> rd_left r < n then Some (None, r)
      else do { v \<leftarrow> slice (rd_b r) (rd_n r) (rd_n r + nat n); Some (Some v, adv r (nat n)) })"

definition rd_take :: "reader \<Rightarrow> int \<Rightarrow> (bytes \<times> reader) option" where
  "rd_take r n = do { (v, r') \<leftarrow> rd_bytes r n; Some (case v of None \<Rightarrow> [] | Some b \<Rightarrow> b, r') }"

definition rd_skip :: "reader \<Rightarrow> int \<Rightarrow> (bool \<times> reader) option" where
  "rd_skip r n = do { (v, r') \<leftarrow> rd_bytes r n; Some (v \<noteq> None, r') }"

definition pad4 :: "int \<Rightarrow> int" where
  "pad4 n = rem (4 - rem n 4) 4"

text \<open>A step that returns an error unless it reads a value.\<close>

definition need :: "('a option \<times> reader) option \<Rightarrow> string \<Rightarrow> ('a \<Rightarrow> reader \<Rightarrow> (verr + 'b) option) \<Rightarrow> (verr + 'b) option" where
  "need m e k = do {
     (v, r) \<leftarrow> m;
     case v of None \<Rightarrow> Some (Inl (Errorf (msg e))) | Some x \<Rightarrow> k x r
   }"

section \<open>Decoding\<close>

definition datagramVersion5 :: u32 where "datagramVersion5 = 5"
definition sampleFlowSample :: u32 where "sampleFlowSample = 1"
definition sampleExpandedFlowSample :: u32 where "sampleExpandedFlowSample = 3"
definition recordRawPacketHeader :: u32 where "recordRawPacketHeader = 1"
definition headerEthernetISO8023 :: u32 where "headerEthernetISO8023 = 1"
definition headerIPv4 :: u32 where "headerIPv4 = 11"
definition headerIPv6 :: u32 where "headerIPv6 = 12"

definition readAgent :: "reader \<Rightarrow> (addr option \<times> reader) option" where
  "readAgent r = do {
     (t, r1) \<leftarrow> rd_u32 r;
     case t of
       None \<Rightarrow> Some (None, r1)
     | Some ty \<Rightarrow>
         if ty = 1 then do {
           (b, r2) \<leftarrow> rd_bytes r1 4;
           Some (map_option (\<lambda>x. Addr4 (be_word x)) b, r2)
         } else if ty = 2 then do {
           (b, r2) \<leftarrow> rd_bytes r1 16;
           Some (map_option (\<lambda>x. Addr6 (be_word x)) b, r2)
         } else Some (None, r1)
   }"

definition ifIndexName :: "u32 \<Rightarrow> string" where
  "ifIndexName v = (if v = 0 \<or> v = 0x3fffffff then ''''
                    else ''ifindex:'' @ dec (unat (v AND 0x3fffffff)))"

definition stamp :: "gotime \<Rightarrow> u32 \<Rightarrow> u32 \<Rightarrow> string \<Rightarrow> Sample \<Rightarrow> Sample" where
  "stamp now frameLen sampleRate inputIf s =
     s\<lparr>s_At := now, s_PacketLen := ClampU16 frameLen, s_IngressIf := inputIf,
       s_SampleRate := (if sampleRate = 0 then 1 else sampleRate)\<rparr>"

definition decode_header :: "u32 \<Rightarrow> bytes \<Rightarrow> Sample option option" where
  "decode_header headerProtocol header =
     (if headerProtocol = headerEthernetISO8023 then DecodeEthernet header
      else if headerProtocol = headerIPv4 then DecodeIPv4 header
      else if headerProtocol = headerIPv6 then DecodeIPv6 header
      else Some None)"

definition decodeRawHeader :: "bytes \<Rightarrow> gotime \<Rightarrow> u32 \<Rightarrow> string \<Rightarrow> Sample option option" where
  "decodeRawHeader data now sampleRate inputIf = do {
     (hp, r1) \<leftarrow> rd_u32 \<lparr>rd_b = data, rd_n = 0\<rparr>;
     case hp of None \<Rightarrow> Some None | Some headerProtocol \<Rightarrow> do {
     (fl, r2) \<leftarrow> rd_u32 r1;
     case fl of None \<Rightarrow> Some None | Some frameLen \<Rightarrow> do {
     (st, r3) \<leftarrow> rd_u32 r2;
     case st of None \<Rightarrow> Some None | Some stripped \<Rightarrow> do {
     (hl, r4) \<leftarrow> rd_u32 r3;
     case hl of None \<Rightarrow> Some None | Some headerLen \<Rightarrow>
       if int (unat headerLen) > rd_left r4 then Some None
       else do {
         (header, r5) \<leftarrow> rd_take r4 (int (unat headerLen));
         s \<leftarrow> decode_header headerProtocol header;
         Some (map_option (stamp now frameLen sampleRate inputIf) s)
       }}}}
   }"

fun record_loop :: "nat \<Rightarrow> gotime \<Rightarrow> u32 \<Rightarrow> string \<Rightarrow> reader \<Rightarrow> Sample list \<Rightarrow> (verr + Sample list) option" where
  "record_loop 0 now rate inp r out = Some (Inr out)"
| "record_loop (Suc k) now rate inp r out =
     need (rd_u32 r) ''short flow record type'' (\<lambda>recordFormat r1.
     need (rd_u32 r1) ''short flow record payload'' (\<lambda>l r2.
     if int (unat l) > rd_left r2 then Some (Inl (Errorf (msg ''short flow record payload'')))
     else do {
       (payload, r3) \<leftarrow> rd_take r2 (int (unat l));
       (ok, r4) \<leftarrow> rd_skip r3 (pad4 (int (unat l)));
       if \<not> ok then Some (Inl (Errorf (msg ''short flow record padding'')))
       else if recordFormat AND 0xfff \<noteq> recordRawPacketHeader then record_loop k now rate inp r4 out
       else do {
         s \<leftarrow> decodeRawHeader payload now rate inp;
         record_loop k now rate inp r4 (case s of None \<Rightarrow> out | Some x \<Rightarrow> out @ [x])
       }
     }))"

definition decode_records :: "gotime \<Rightarrow> u32 \<Rightarrow> string \<Rightarrow> reader \<Rightarrow> (verr + Sample list) option" where
  "decode_records now rate inp r =
     need (rd_u32 r) ''short flow sample record count'' (\<lambda>records r1. record_loop (unat records) now rate inp r1 [])"

definition decodeSample :: "u32 \<Rightarrow> bytes \<Rightarrow> gotime \<Rightarrow> (verr + Sample list) option" where
  "decodeSample format data now =
     (let r = \<lparr>rd_b = data, rd_n = 0\<rparr>
      in if format = sampleFlowSample then
           need (rd_u32 r) ''short flow sample sequence'' (\<lambda>_ r.
           need (rd_u32 r) ''short flow sample source id'' (\<lambda>_ r.
           need (rd_u32 r) ''short flow sample rate'' (\<lambda>sampleRate r.
           need (rd_u32 r) ''short flow sample pool'' (\<lambda>_ r.
           need (rd_u32 r) ''short flow sample drops'' (\<lambda>_ r.
           need (rd_u32 r) ''short flow sample input'' (\<lambda>inp r.
           need (rd_u32 r) ''short flow sample output'' (\<lambda>_ r.
           decode_records now sampleRate (ifIndexName inp) r)))))))
         else if format = sampleExpandedFlowSample then
           need (rd_u32 r) ''short expanded flow sample sequence'' (\<lambda>_ r.
           need (rd_u32 r) ''short expanded flow sample source id class'' (\<lambda>_ r.
           need (rd_u32 r) ''short expanded flow sample source id index'' (\<lambda>_ r.
           need (rd_u32 r) ''short expanded flow sample rate'' (\<lambda>sampleRate r.
           need (rd_u32 r) ''short expanded flow sample pool'' (\<lambda>_ r.
           need (rd_u32 r) ''short expanded flow sample drops'' (\<lambda>_ r.
           need (rd_u32 r) ''short expanded flow sample input format'' (\<lambda>_ r.
           need (rd_u32 r) ''short expanded flow sample input value'' (\<lambda>inp r.
           need (rd_u32 r) ''short expanded flow sample output format'' (\<lambda>_ r.
           need (rd_u32 r) ''short expanded flow sample output value'' (\<lambda>_ r.
           decode_records now sampleRate (ifIndexName inp) r))))))))))
         else Some (Inr []))"

fun sample_loop :: "nat \<Rightarrow> gotime \<Rightarrow> reader \<Rightarrow> Sample list \<Rightarrow> (verr + Sample list) option" where
  "sample_loop 0 now r samples = Some (Inr samples)"
| "sample_loop (Suc k) now r samples =
     need (rd_u32 r) ''short sflow sample type'' (\<lambda>format r1.
     need (rd_u32 r1) ''short sflow sample payload'' (\<lambda>l r2.
     if int (unat l) > rd_left r2 then Some (Inl (Errorf (msg ''short sflow sample payload'')))
     else do {
       (payload, r3) \<leftarrow> rd_take r2 (int (unat l));
       (ok, r4) \<leftarrow> rd_skip r3 (pad4 (int (unat l)));
       if \<not> ok then Some (Inl (Errorf (msg ''short sflow sample padding'')))
       else do {
         decoded \<leftarrow> decodeSample (format AND 0xfff) payload now;
         case decoded of
           Inl e \<Rightarrow> Some (Inl e)
         | Inr ss \<Rightarrow> sample_loop k now r4 (samples @ ss)
       }
     }))"

definition Decode :: "bytes \<Rightarrow> gotime \<Rightarrow> (verr + Sample list) option" where
  "Decode data now =
     need (rd_u32 \<lparr>rd_b = data, rd_n = 0\<rparr>) ''short sflow datagram'' (\<lambda>version r.
     if version \<noteq> datagramVersion5
     then Some (Inl (Errorf (Sprintf ''unsupported sflow version %d'' [FInt (uint version)])))
     else
       need (readAgent r) ''short sflow agent address'' (\<lambda>_ r.
       need (rd_u32 r) ''short sflow sub-agent id'' (\<lambda>_ r.
       need (rd_u32 r) ''short sflow sequence'' (\<lambda>_ r.
       need (rd_u32 r) ''short sflow uptime'' (\<lambda>_ r.
       need (rd_u32 r) ''short sflow sample count'' (\<lambda>n r.
       sample_loop (unat n) now r []))))))"

section \<open>What a read does\<close>

definition rd_rest :: "reader \<Rightarrow> bytes" where
  "rd_rest r = drop (rd_n r) (rd_b r)"

definition rd_ok :: "reader \<Rightarrow> bool" where
  "rd_ok r \<longleftrightarrow> rd_n r \<le> length (rd_b r)"

lemma rd_left_rest: "rd_ok r \<Longrightarrow> rd_left r = int (length (rd_rest r))"
  by (simp add: rd_left_def rd_rest_def rd_ok_def)

lemma rd_rest_adv [simp]: "rd_rest (adv r n) = drop n (rd_rest r)"
  by (simp add: rd_rest_def adv_def add.commute)

lemma rd_ok_adv [simp]: "rd_ok r \<Longrightarrow> rd_ok (adv r n) \<longleftrightarrow> n \<le> length (rd_rest r)"
  by (auto simp: rd_ok_def adv_def rd_rest_def)

lemma adv_adv: "adv (adv r m) n = adv r (m + n)"
  by (simp add: adv_def)

lemma rd_ok_init [simp]: "rd_ok \<lparr>rd_b = data, rd_n = 0\<rparr>" "rd_rest \<lparr>rd_b = data, rd_n = 0\<rparr> = data"
  by (simp_all add: rd_ok_def rd_rest_def)

lemma rd_u32_eq: "rd_ok r \<Longrightarrow> rd_u32 r =
    Some (if length (rd_rest r) < 4 then (None, r) else (Some (be_word (take 4 (rd_rest r))), adv r 4))"
  by (auto simp: rd_u32_def rd_left_rest Uint32_def slice_def rd_rest_def rd_ok_def)

lemma rd_bytes_eq: "rd_ok r \<Longrightarrow> rd_bytes r (int n) =
    Some (if length (rd_rest r) < n then (None, r) else (Some (take n (rd_rest r)), adv r n))"
  by (auto simp: rd_bytes_def rd_left_rest slice_def rd_rest_def rd_ok_def)

lemma rd_take_eq: "rd_ok r \<Longrightarrow> n \<le> length (rd_rest r) \<Longrightarrow> rd_take r (int n) = Some (take n (rd_rest r), adv r n)"
  by (simp add: rd_take_def rd_bytes_eq)

lemma rd_skip_eq: "rd_ok r \<Longrightarrow> rd_skip r (int n) =
    Some (if length (rd_rest r) < n then (False, r) else (True, adv r n))"
  by (simp add: rd_skip_def rd_bytes_eq)

lemma pad4_nat: "pad4 (int n) = int ((4 - n mod 4) mod 4)"
proof -
  have "rem (int n) 4 = int (n mod 4)" by (simp add: rem_pos zmod_int)
  moreover have "0 \<le> 4 - int (n mod 4)" by simp
  ultimately show ?thesis by (simp add: pad4_def rem_pos zmod_int of_nat_diff)
qed

text \<open>
  Reading a value either fails with the error, or consumes four bytes; the rule turns a
  property of the rest of the decoder into one of the whole.
\<close>

lemma need_u32:
  assumes "rd_ok r"
  shows "need (rd_u32 r) e k =
    (if length (rd_rest r) < 4 then Some (Inl (Errorf (msg e)))
     else k (be_word (take 4 (rd_rest r))) (adv r 4))"
  by (simp add: need_def rd_u32_eq [OF assms])

text \<open>
  The loops over samples and over records have the same envelope: a format, a length, a padded
  payload. \<open>envelope\<close> is what it leaves for the body: the format, the payload, the reader behind
  the padding.
\<close>

lemma envelope:
  assumes "rd_ok r"
  shows "need (rd_u32 r) e1 (\<lambda>f r1. need (rd_u32 r1) e2 (\<lambda>l r2.
      if int (unat l) > rd_left r2 then Some (Inl (Errorf (msg e2)))
      else do {
        (payload, r3) \<leftarrow> rd_take r2 (int (unat l));
        (ok, r4) \<leftarrow> rd_skip r3 (pad4 (int (unat l)));
        if \<not> ok then Some (Inl (Errorf (msg e3))) else body f payload r4
      })) =
    (let f = be_word (take 4 (rd_rest r)); b = drop 8 (rd_rest r);
         n = unat (be_word (take 4 (drop 4 (rd_rest r))) :: u32); p = (4 - n mod 4) mod 4
     in if length (rd_rest r) < 4 then Some (Inl (Errorf (msg e1)))
        else if length (rd_rest r) < 8 \<or> length b < n then Some (Inl (Errorf (msg e2)))
        else if length b < n + p then Some (Inl (Errorf (msg e3)))
        else body f (take n b) (adv r (8 + n + p)))"
proof (cases "length (rd_rest r) < 8")
  case True
  with assms show ?thesis by (auto simp: need_u32 Let_def)
next
  case False
  let ?l = "be_word (take 4 (drop 4 (rd_rest r))) :: u32"
  define r2 where "r2 = adv (adv r 4) 4"
  define n where "n = unat ?l"
  define p where "p = (4 - n mod 4) mod 4"
  from False assms have r2: "rd_ok r2" "rd_rest r2 = drop 8 (rd_rest r)"
    by (simp_all add: r2_def)
  have n: "int (unat ?l) = int n" by (simp add: n_def)
  have skip: "rd_skip (adv r2 n) (pad4 (int n)) =
      Some (if length (rd_rest r2) < n + p then (False, adv r2 n) else (True, adv r (8 + n + p)))"
    if "n \<le> length (rd_rest r2)"
  proof -
    have "adv (adv r2 n) p = adv r (8 + n + p)" by (simp add: r2_def adv_def)
    moreover have "pad4 (int n) = int p" by (simp add: pad4_nat p_def)
    moreover have "length (rd_rest (adv r2 n)) < p \<longleftrightarrow> length (rd_rest r2) < n + p" using that by auto
    ultimately show ?thesis using that r2(1) rd_skip_eq [of "adv r2 n" p] by simp
  qed
  have inner: "(if int (unat ?l) > rd_left r2 then Some (Inl (Errorf (msg e2)))
      else do {
        (payload, r3) \<leftarrow> rd_take r2 (int (unat ?l));
        (ok, r4) \<leftarrow> rd_skip r3 (pad4 (int (unat ?l)));
        if \<not> ok then Some (Inl (Errorf (msg e3))) else body f payload r4
      }) =
      (if length (rd_rest r2) < n then Some (Inl (Errorf (msg e2)))
       else if length (rd_rest r2) < n + p then Some (Inl (Errorf (msg e3)))
       else body f (take n (rd_rest r2)) (adv r (8 + n + p)))" for f
    unfolding n rd_left_rest [OF r2(1)]
    by (cases "length (rd_rest r2) < n") (simp_all add: rd_take_eq r2(1) skip)
  have ok4: "rd_ok (adv r 4)" and l4: "take 4 (rd_rest (adv r 4)) = take 4 (drop 4 (rd_rest r))"
    and long: "\<not> length (rd_rest r) < 4" "\<not> length (rd_rest (adv r 4)) < 4"
    using False assms by simp_all
  show ?thesis
    unfolding need_u32 [OF assms] need_u32 [OF ok4] if_not_P [OF long(1)] if_not_P [OF long(2)] l4
    unfolding r2_def [symmetric] inner
    using False long by (simp add: Let_def flip: n_def p_def r2(2))
qed

section \<open>No panic, and no more samples than bytes\<close>

text \<open>
  A decoder is sound when it returns, an error or samples, and the samples are paid for by the
  bytes: 44 of them carry the smallest sample, an IPv4 header in a raw header record.
\<close>

definition sound :: "nat \<Rightarrow> (verr + Sample list) option \<Rightarrow> bool" where
  "sound b m \<longleftrightarrow> (\<exists>x. m = Some x \<and> (\<forall>res. x = Inr res \<longrightarrow> 44 * length res \<le> b))"

lemma sound_simps [simp]:
  "sound b (Some (Inl e))" "sound b (Some (Inr res)) \<longleftrightarrow> 44 * length res \<le> b"
  by (simp_all add: sound_def)

lemma sound_mono: "sound b m \<Longrightarrow> b \<le> c \<Longrightarrow> sound c m"
  by (auto simp: sound_def)

lemma need_sound [inv_intros]:
  assumes "rd_ok r" and "\<And>v r'. rd_ok r' \<Longrightarrow> length (rd_rest r') + 4 \<le> length (rd_rest r) \<Longrightarrow> sound b (k v r')"
  shows "sound b (need (rd_u32 r) e k)"
  using assms by (simp add: need_u32)

lemma DecodeIP_long:
  "DecodeIPv4 b = Some (Some s) \<Longrightarrow> 20 \<le> length b" "DecodeIPv6 b = Some (Some s) \<Longrightarrow> 20 \<le> length b"
  by (simp_all add: DecodeIPv4_def DecodeIPv6_def split: if_splits)

lemma slice_from_bind:
  assumes "slice_from b off \<bind> g = Some y"
  obtains p where "g p = Some y" and "length p \<le> length b"
  using assms by (cases "slice_from b off") (auto simp: slice_def split: if_splits)

lemma DecodeEthernet_long:
  assumes "DecodeEthernet b = Some (Some s)"
  shows "20 \<le> length b"
proof (cases "length b < 14")
  case False
  then obtain r where r: "vlan_loop b (be_word (take 2 (drop 12 b))) 14 = Some r"
    using vlan_loop_total [of 14 b "be_word (take 2 (drop 12 b))"] by auto
  with assms False have "\<exists>off. slice_from b off \<bind> DecodeIPv4 = Some (Some s) \<or>
      slice_from b off \<bind> DecodeIPv6 = Some (Some s)"
    by (auto simp: DecodeEthernet_def split: option.splits if_splits)
  then show ?thesis by (auto elim!: slice_from_bind dest!: DecodeIP_long)
qed (use assms in \<open>simp add: DecodeEthernet_def\<close>)

lemma decode_header_total: "\<exists>r. decode_header hp h = Some r"
  using DecodeEthernet_total DecodeIPv4_total DecodeIPv6_total by (simp add: decode_header_def)

lemma decode_header_long: "decode_header hp h = Some (Some s) \<Longrightarrow> 20 \<le> length h"
  by (auto simp: decode_header_def dest: DecodeEthernet_long DecodeIP_long split: if_splits)

lemma decodeRawHeader_eq:
  "decodeRawHeader data now rate inp =
     (let n = unat (be_word (take 4 (drop 12 data)) :: u32)
      in if length data < 16 + n then Some None
         else map_option (map_option (stamp now (be_word (take 4 (drop 4 data))) rate inp))
                (decode_header (be_word (take 4 data)) (take n (drop 16 data))))"
proof -
  have bind: "m \<bind> (\<lambda>s. Some (g s)) = map_option g m" for m :: "'a option" and g :: "'a \<Rightarrow> 'b"
    by (cases m) simp_all
  consider "length data < 4" | "4 \<le> length data" "length data < 8" | "8 \<le> length data" "length data < 12"
    | "12 \<le> length data" "length data < 16" | "16 \<le> length data" by linarith
  then show ?thesis
    by cases (auto simp: decodeRawHeader_def rd_u32_eq rd_left_rest rd_take_eq bind Let_def not_less
        simp del: of_nat_unat)
qed

lemma decodeRawHeader_sound:
  "decodeRawHeader data now rate inp = Some None \<or>
   (\<exists>s. decodeRawHeader data now rate inp = Some (Some s) \<and> 36 \<le> length data)"
proof -
  let ?n = "unat (be_word (take 4 (drop 12 data)) :: u32)"
  obtain h where h: "decode_header (be_word (take 4 data)) (take ?n (drop 16 data)) = Some h"
    using decode_header_total by blast
  show ?thesis
  proof (cases h)
    case None
    with h show ?thesis by (simp add: decodeRawHeader_eq Let_def)
  next
    case (Some s)
    with h decode_header_long have "20 \<le> ?n" "20 \<le> length data - 16" by fastforce+
    with h Some show ?thesis by (simp add: decodeRawHeader_eq Let_def)
  qed
qed

lemma envelope_sound:
  assumes "rd_ok r"
    and "\<And>f payload r'. rd_ok r' \<Longrightarrow> length payload + length (rd_rest r') + 8 \<le> length (rd_rest r) \<Longrightarrow>
      sound b (body f payload r')"
  shows "sound b (need (rd_u32 r) e1 (\<lambda>f r1. need (rd_u32 r1) e2 (\<lambda>l r2.
      if int (unat l) > rd_left r2 then Some (Inl (Errorf (msg e2)))
      else do {
        (payload, r3) \<leftarrow> rd_take r2 (int (unat l));
        (ok, r4) \<leftarrow> rd_skip r3 (pad4 (int (unat l)));
        if \<not> ok then Some (Inl (Errorf (msg e3))) else body f payload r4
      })))"
  unfolding envelope [OF assms(1)] Let_def using assms by auto

lemma record_loop_sound:
  "rd_ok r \<Longrightarrow> sound (44 * length out + length (rd_rest r)) (record_loop k now rate inp r out)"
proof (induction k arbitrary: r out)
  case (Suc k)
  show ?case
    unfolding record_loop.simps
  proof (rule envelope_sound [OF Suc.prems])
    fix f :: u32 and payload :: bytes and r'
    assume r': "rd_ok r'" "length payload + length (rd_rest r') + 8 \<le> length (rd_rest r)"
    note IH = sound_mono [OF Suc.IH [OF r'(1)]]
    show "sound (44 * length out + length (rd_rest r))
      (if f AND 0xfff \<noteq> recordRawPacketHeader then record_loop k now rate inp r' out
       else do {
         s \<leftarrow> decodeRawHeader payload now rate inp;
         record_loop k now rate inp r' (case s of None \<Rightarrow> out | Some x \<Rightarrow> out @ [x])
       })"
      using decodeRawHeader_sound [of payload now rate inp] r'(2) by (auto intro!: IH)
  qed
qed simp

lemma decode_records_sound [inv_intros]:
  "rd_ok r \<Longrightarrow> length (rd_rest r) \<le> b \<Longrightarrow> sound b (decode_records now rate inp r)"
  unfolding decode_records_def
  by (rule need_sound) (auto intro: sound_mono [OF record_loop_sound])

lemma decodeSample_sound: "sound (length data) (decodeSample f data now)"
  unfolding decodeSample_def Let_def by (auto intro!: inv_intros)

lemma sample_loop_sound:
  "rd_ok r \<Longrightarrow> sound (44 * length samples + length (rd_rest r)) (sample_loop k now r samples)"
proof (induction k arbitrary: r samples)
  case (Suc k)
  show ?case
    unfolding sample_loop.simps
  proof (rule envelope_sound [OF Suc.prems])
    fix f :: u32 and payload :: bytes and r'
    assume r': "rd_ok r'" "length payload + length (rd_rest r') + 8 \<le> length (rd_rest r)"
    note IH = sound_mono [OF Suc.IH [OF r'(1)]]
    show "sound (44 * length samples + length (rd_rest r))
      (do {
         decoded \<leftarrow> decodeSample (f AND 0xfff) payload now;
         case decoded of Inl e \<Rightarrow> Some (Inl e) | Inr ss \<Rightarrow> sample_loop k now r' (samples @ ss)
       })"
      using decodeSample_sound [of payload "f AND 0xfff" now] r'(2)
      by (auto simp: sound_def [of "length payload"] intro!: IH split: sum.split)
  qed
qed simp

lemma readAgent_ok:
  assumes "rd_ok r"
  shows "\<exists>a r'. readAgent r = Some (a, r') \<and> rd_ok r' \<and> length (rd_rest r') \<le> length (rd_rest r)"
  using assms rd_bytes_eq [of "adv r 4" 4] rd_bytes_eq [of "adv r 4" 16]
  by (auto simp: readAgent_def rd_u32_eq)

lemma Decode_sound: "sound (length data) (Decode data now)"
proof -
  have agent: "sound b (need (readAgent r) e k)"
    if "rd_ok r" and "\<And>a r'. rd_ok r' \<Longrightarrow> length (rd_rest r') \<le> length (rd_rest r) \<Longrightarrow> sound b (k a r')"
    for b r e and k :: "addr \<Rightarrow> reader \<Rightarrow> _"
    using readAgent_ok [OF that(1)] that(2) by (auto simp: need_def split: option.split)
  have loop: "sound b (sample_loop k now r [])" if "rd_ok r" "length (rd_rest r) \<le> b" for b r k
    using sound_mono [OF sample_loop_sound [OF that(1)]] that(2) by simp
  show ?thesis
    unfolding Decode_def by (auto intro!: inv_intros agent loop)
qed

section \<open>A reference encoder\<close>

text \<open>The layout of a datagram, from the sFlow version 5 specification.\<close>

abbreviation enc_u32 :: "u32 \<Rightarrow> bytes" where
  "enc_u32 \<equiv> be_bytes 4"

definition enc_envelope :: "u32 \<Rightarrow> bytes \<Rightarrow> bytes" where
  "enc_envelope f payload = enc_u32 f @ enc_u32 (word_of_nat (length payload)) @ payload @
     replicate ((4 - length payload mod 4) mod 4) 0"

datatype flow_record =
    RawRecord (rr_protocol: u32) (rr_frameLen: u32) (rr_stripped: u32) (rr_header: bytes) (rr_pad: bytes)
  | OtherRecord u32 bytes

fun record_payload :: "flow_record \<Rightarrow> bytes" where
  "record_payload (RawRecord hp fl st h pad) =
     enc_u32 hp @ enc_u32 fl @ enc_u32 st @ enc_u32 (word_of_nat (length h)) @ h @ pad"
| "record_payload (OtherRecord f b) = b"

fun record_format :: "flow_record \<Rightarrow> u32" where
  "record_format (RawRecord hp fl st h pad) = recordRawPacketHeader"
| "record_format (OtherRecord f b) = f"

fun record_ok :: "flow_record \<Rightarrow> bool" where
  "record_ok (RawRecord hp fl st h pad) \<longleftrightarrow> length h + length pad + 16 < 2 ^ 32"
| "record_ok (OtherRecord f b) \<longleftrightarrow> f AND 0xfff \<noteq> recordRawPacketHeader \<and> length b < 2 ^ 32"

definition enc_record :: "flow_record \<Rightarrow> bytes" where
  "enc_record c = enc_envelope (record_format c) (record_payload c)"

text \<open>What a record contributes: the sampled packet, if its header decodes.\<close>

fun record_samples :: "gotime \<Rightarrow> u32 \<Rightarrow> string \<Rightarrow> flow_record \<Rightarrow> Sample list" where
  "record_samples now rate inp (RawRecord hp fl st h pad) =
     (case decode_header hp h of Some (Some s) \<Rightarrow> [stamp now fl rate inp s] | _ \<Rightarrow> [])"
| "record_samples now rate inp (OtherRecord f b) = []"

datatype sflow_sample =
    FlowSample u32 u32 u32 u32 u32 u32 u32 "flow_record list"
  | ExpandedSample u32 u32 u32 u32 u32 u32 u32 u32 u32 u32 "flow_record list"
  | OtherSample u32 bytes

definition enc_records :: "flow_record list \<Rightarrow> bytes" where
  "enc_records cs = enc_u32 (word_of_nat (length cs)) @ concat (map enc_record cs)"

fun sample_payload :: "sflow_sample \<Rightarrow> bytes" where
  "sample_payload (FlowSample sq src rate pool drops inp outp cs) =
     enc_u32 sq @ enc_u32 src @ enc_u32 rate @ enc_u32 pool @ enc_u32 drops @ enc_u32 inp @ enc_u32 outp @ enc_records cs"
| "sample_payload (ExpandedSample sq cls src rate pool drops ifm inp ofm outp cs) =
     enc_u32 sq @ enc_u32 cls @ enc_u32 src @ enc_u32 rate @ enc_u32 pool @ enc_u32 drops @ enc_u32 ifm @
     enc_u32 inp @ enc_u32 ofm @ enc_u32 outp @ enc_records cs"
| "sample_payload (OtherSample f b) = b"

fun sample_format :: "sflow_sample \<Rightarrow> u32" where
  "sample_format (FlowSample _ _ _ _ _ _ _ _) = sampleFlowSample"
| "sample_format (ExpandedSample _ _ _ _ _ _ _ _ _ _ _) = sampleExpandedFlowSample"
| "sample_format (OtherSample f b) = f"

fun sample_ok :: "sflow_sample \<Rightarrow> bool" where
  "sample_ok (OtherSample f b) \<longleftrightarrow>
     f AND 0xfff \<notin> {sampleFlowSample, sampleExpandedFlowSample} \<and> length b < 2 ^ 32"
| "sample_ok (FlowSample sq src rate pool drops inp outp cs) \<longleftrightarrow> list_all record_ok cs \<and>
     length cs < 2 ^ 32 \<and> length (sample_payload (FlowSample sq src rate pool drops inp outp cs)) < 2 ^ 32"
| "sample_ok (ExpandedSample sq cls src rate pool drops ifm inp ofm outp cs) \<longleftrightarrow> list_all record_ok cs \<and>
     length cs < 2 ^ 32 \<and>
     length (sample_payload (ExpandedSample sq cls src rate pool drops ifm inp ofm outp cs)) < 2 ^ 32"

fun sample_samples :: "gotime \<Rightarrow> sflow_sample \<Rightarrow> Sample list" where
  "sample_samples now (FlowSample sq src rate pool drops inp outp cs) =
     concat (map (record_samples now rate (ifIndexName inp)) cs)"
| "sample_samples now (ExpandedSample sq cls src rate pool drops ifm inp ofm outp cs) =
     concat (map (record_samples now rate (ifIndexName inp)) cs)"
| "sample_samples now (OtherSample f b) = []"

definition enc_agent :: "addr \<Rightarrow> bytes" where
  "enc_agent a = (case a of Addr4 x \<Rightarrow> enc_u32 1 @ be_bytes 4 x | Addr6 x \<Rightarrow> enc_u32 2 @ be_bytes 16 x | Addr_zero \<Rightarrow> [])"

definition enc_datagram :: "addr \<Rightarrow> u32 \<Rightarrow> u32 \<Rightarrow> u32 \<Rightarrow> sflow_sample list \<Rightarrow> bytes" where
  "enc_datagram agent sub sq up ss =
     enc_u32 datagramVersion5 @ enc_agent agent @ enc_u32 sub @ enc_u32 sq @ enc_u32 up @
     enc_u32 (word_of_nat (length ss)) @ concat (map (\<lambda>s. enc_envelope (sample_format s) (sample_payload s)) ss)"

lemma unat_u32 [simp]: "n < 2 ^ 32 \<Longrightarrow> unat (word_of_nat n :: u32) = n"
  by (simp add: unat_word_of_nat)

lemma length_envelope [simp]:
  "length (enc_envelope f payload) = 8 + length payload + (4 - length payload mod 4) mod 4"
  by (simp add: enc_envelope_def)

lemma envelope_enc:
  assumes "rd_ok r" and "rd_rest r = enc_envelope f payload @ t" and "length payload < 2 ^ 32"
  shows "need (rd_u32 r) e1 (\<lambda>f r1. need (rd_u32 r1) e2 (\<lambda>l r2.
      if int (unat l) > rd_left r2 then Some (Inl (Errorf (msg e2)))
      else do {
        (payload, r3) \<leftarrow> rd_take r2 (int (unat l));
        (ok, r4) \<leftarrow> rd_skip r3 (pad4 (int (unat l)));
        if \<not> ok then Some (Inl (Errorf (msg e3))) else body f payload r4
      })) = body f payload (adv r (length (enc_envelope f payload)))"
  unfolding envelope [OF assms(1)] Let_def using assms(2,3)
  by (simp add: enc_envelope_def add.assoc)

lemma decodeRawHeader_enc:
  assumes "record_ok (RawRecord hp fl st h pad)"
  shows "decodeRawHeader (record_payload (RawRecord hp fl st h pad)) now rate inp =
    map_option (map_option (stamp now fl rate inp)) (decode_header hp h)"
  using assms by (simp add: decodeRawHeader_eq)

lemma record_loop_enc:
  assumes "list_all record_ok cs" and "rd_ok r" and "rd_rest r = concat (map enc_record cs) @ t"
  shows "record_loop (length cs) now rate inp r out =
    Some (Inr (out @ concat (map (record_samples now rate inp) cs)))"
  using assms
proof (induction cs arbitrary: r out)
  case (Cons c cs)
  let ?r = "adv r (length (enc_record c))"
  have ok: "record_ok c" "list_all record_ok cs" using Cons.prems(1) by simp_all
  have rest: "rd_rest r = enc_record c @ concat (map enc_record cs) @ t" using Cons.prems(3) by simp
  have len: "length (record_payload c) < 2 ^ 32" using ok(1) by (cases c) simp_all
  have "rd_ok ?r" "rd_rest ?r = concat (map enc_record cs) @ t"
    using Cons.prems(2) rest by simp_all
  note IH = Cons.IH [OF ok(2) this]
  have step: "record_loop (length (c # cs)) now rate inp r out =
      (if record_format c AND 0xfff \<noteq> recordRawPacketHeader then record_loop (length cs) now rate inp ?r out
       else do {
         s \<leftarrow> decodeRawHeader (record_payload c) now rate inp;
         record_loop (length cs) now rate inp ?r (case s of None \<Rightarrow> out | Some x \<Rightarrow> out @ [x])
       })"
    unfolding length_Cons record_loop.simps enc_record_def
    by (rule envelope_enc [OF Cons.prems(2) rest [unfolded enc_record_def] len])
  show ?case
  proof (cases c)
    case (RawRecord hp fl st h pad)
    obtain y where y: "decode_header hp h = Some y" using decode_header_total by blast
    have "decodeRawHeader (record_payload c) now rate inp = Some (map_option (stamp now fl rate inp) y)"
      using decodeRawHeader_enc [of hp fl st h pad] ok(1) RawRecord y by simp
    moreover have "record_samples now rate inp c = (case y of None \<Rightarrow> [] | Some s \<Rightarrow> [stamp now fl rate inp s])"
      using RawRecord y by (simp split: option.split)
    ultimately show ?thesis
      using IH RawRecord unfolding step
      by (cases y) (simp_all add: recordRawPacketHeader_def del: record_payload.simps record_samples.simps)
  next
    case (OtherRecord f b)
    with ok(1) IH show ?thesis unfolding step by simp
  qed
qed simp

lemma decode_records_enc:
  assumes "list_all record_ok cs" and "length cs < 2 ^ 32" and "rd_ok r" and "rd_rest r = enc_records cs"
  shows "decode_records now rate inp r = Some (Inr (concat (map (record_samples now rate inp) cs)))"
  using assms record_loop_enc [of cs "adv r 4" "[]" now rate inp "[]"]
  by (simp add: decode_records_def need_u32 enc_records_def)

lemma decodeSample_enc:
  assumes "sample_ok s"
  shows "decodeSample (sample_format s AND 0xfff) (sample_payload s) now = Some (Inr (sample_samples now s))"
proof (cases s)
  case (FlowSample sq src rate pool drops inp outp cs)
  with assms show ?thesis
    by (simp add: decodeSample_def sampleFlowSample_def sampleExpandedFlowSample_def need_u32 decode_records_enc)
next
  case (ExpandedSample sq cls src rate pool drops ifm inp ofm outp cs)
  with assms show ?thesis
    by (simp add: decodeSample_def sampleFlowSample_def sampleExpandedFlowSample_def need_u32 decode_records_enc)
next
  case (OtherSample f b)
  with assms show ?thesis by (simp add: decodeSample_def)
qed

lemma sample_loop_enc:
  assumes "list_all sample_ok ss" and "rd_ok r"
    and "rd_rest r = concat (map (\<lambda>s. enc_envelope (sample_format s) (sample_payload s)) ss) @ t"
  shows "sample_loop (length ss) now r acc = Some (Inr (acc @ concat (map (sample_samples now) ss)))"
  using assms
proof (induction ss arbitrary: r acc)
  case (Cons s ss)
  let ?env = "\<lambda>s. enc_envelope (sample_format s) (sample_payload s)"
  let ?r = "adv r (length (?env s))"
  have ok: "sample_ok s" "list_all sample_ok ss" using Cons.prems(1) by simp_all
  have rest: "rd_rest r = ?env s @ concat (map ?env ss) @ t" using Cons.prems(3) by simp
  have len: "length (sample_payload s) < 2 ^ 32" using ok(1) by (cases s) simp_all
  have "rd_ok ?r" "rd_rest ?r = concat (map ?env ss) @ t"
    using Cons.prems(2) rest by (simp_all del: length_envelope)
  note IH = Cons.IH [OF ok(2) this]
  have step: "sample_loop (length (s # ss)) now r acc =
      do {
        decoded \<leftarrow> decodeSample (sample_format s AND 0xfff) (sample_payload s) now;
        case decoded of Inl e \<Rightarrow> Some (Inl e) | Inr xs \<Rightarrow> sample_loop (length ss) now ?r (acc @ xs)
      }"
    unfolding length_Cons sample_loop.simps by (rule envelope_enc [OF Cons.prems(2) rest len])
  show ?case unfolding step decodeSample_enc [OF ok(1)] using IH by (simp del: length_envelope)
qed simp

lemma readAgent_enc:
  assumes "rd_ok r" and "rd_rest r = enc_agent a @ t" and "a \<noteq> Addr_zero"
  shows "readAgent r = Some (Some a, adv r (length (enc_agent a)))"
proof (cases a)
  case (Addr4 x)
  with assms rd_bytes_eq [of "adv r 4" 4] show ?thesis
    by (simp add: readAgent_def rd_u32_eq enc_agent_def adv_adv)
next
  case (Addr6 x)
  with assms rd_bytes_eq [of "adv r 4" 16] show ?thesis
    by (simp add: readAgent_def rd_u32_eq enc_agent_def adv_adv)
qed (use assms in simp)

lemma Decode_enc:
  assumes "list_all sample_ok ss" and "length ss < 2 ^ 32" and "agent \<noteq> Addr_zero"
  shows "Decode (enc_datagram agent sub sq up ss) now = Some (Inr (concat (map (sample_samples now) ss)))"
proof -
  let ?d = "enc_datagram agent sub sq up ss"
  let ?r = "adv \<lparr>rd_b = ?d, rd_n = 0\<rparr> 4"
  let ?t = "enc_u32 sub @ enc_u32 sq @ enc_u32 up @ enc_u32 (word_of_nat (length ss)) @
      concat (map (\<lambda>s. enc_envelope (sample_format s) (sample_payload s)) ss)"
  let ?a = "adv ?r (length (enc_agent agent))"
  have r: "rd_ok ?r" "rd_rest ?r = enc_agent agent @ ?t"
    by (simp_all add: enc_datagram_def)
  then have a: "rd_ok ?a" "rd_rest ?a = ?t" by simp_all
  have first: "take 4 ?d = enc_u32 datagramVersion5" "\<not> length ?d < 4" by (simp_all add: enc_datagram_def)
  have "Decode ?d now = need (readAgent ?r) ''short sflow agent address'' (\<lambda>_ r.
       need (rd_u32 r) ''short sflow sub-agent id'' (\<lambda>_ r.
       need (rd_u32 r) ''short sflow sequence'' (\<lambda>_ r.
       need (rd_u32 r) ''short sflow uptime'' (\<lambda>_ r.
       need (rd_u32 r) ''short sflow sample count'' (\<lambda>n r.
       sample_loop (unat n) now r [])))))"
    using first by (simp add: Decode_def need_u32)
  also have "\<dots> = sample_loop (length ss) now (adv (adv (adv (adv ?a 4) 4) 4) 4) []"
    using a assms(2) by (simp add: readAgent_enc [OF r assms(3)] need_def [of "Some _"] need_u32)
  also have "\<dots> = Some (Inr ([] @ concat (map (sample_samples now) ss)))"
    by (rule sample_loop_enc [OF assms(1), where t = "[]"]) (use a in simp_all)
  finally show ?thesis by simp
qed

section \<open>PSAMPLE messages (psample/collector.go)\<close>

text \<open>
  The attributes of a message as the netlink library decodes them, in their order; \<open>NlError\<close> is
  the error state of the decoder after the loop.
\<close>

datatype nl_attr = IIFIndex u32 | SampleGroup u32 | SampleRate u32 | AttrData bytes | OtherAttr | NlError

record ps_state =
  ps_data :: bytes
  ps_rate :: u32
  ps_group :: "u32 option"
  ps_ifindex :: u32
  ps_err :: bool

fun ps_step :: "ps_state \<Rightarrow> nl_attr \<Rightarrow> ps_state" where
  "ps_step st (IIFIndex v) = st\<lparr>ps_ifindex := v\<rparr>"
| "ps_step st (SampleGroup v) = st\<lparr>ps_group := Some v\<rparr>"
| "ps_step st (SampleRate v) = st\<lparr>ps_rate := v\<rparr>"
| "ps_step st (AttrData b) = st\<lparr>ps_data := b\<rparr>"
| "ps_step st OtherAttr = st"
| "ps_step st NlError = st\<lparr>ps_err := True\<rparr>"

definition ifname :: "u32 \<Rightarrow> string" where
  "ifname i = (if i = 0 then '''' else ''ifindex:'' @ dec (unat i))"

text \<open>The first argument is the configured group, the second the decoded attributes, if any.\<close>

definition psample_decode :: "u32 \<Rightarrow> nl_attr list option \<Rightarrow> gotime \<Rightarrow> Sample option option" where
  "psample_decode cgroup attrs now =
     (case attrs of
        None \<Rightarrow> Some None
      | Some as \<Rightarrow>
          let st = foldl ps_step \<lparr>ps_data = [], ps_rate = 0, ps_group = None, ps_ifindex = 0, ps_err = False\<rparr> as
          in if ps_err st \<or> ps_data st = [] then Some None
             else if cgroup \<noteq> 0 \<and> ps_group st \<noteq> None \<and> ps_group st \<noteq> Some cgroup then Some None
             else FromEthernet (ps_data st) now (ps_rate st) (ifname (ps_ifindex st)))"

text \<open>
  Both collectors name an ingress interface in the same way, up to the two bits of the sFlow
  value that carry its format.
\<close>

lemma ifname_sflow: "i AND 0x3fffffff = i \<Longrightarrow> i \<noteq> 0x3fffffff \<Longrightarrow> ifname i = ifIndexName i"
  by (simp add: ifname_def ifIndexName_def)

end
