(* ===== verification/Sampling.thy ===== *)
theory Sampling
  imports SFlow
begin

text \<open>
  Properties of the sample sources: the packet decoder, the sFlow decoder and the PSAMPLE
  decoder, on arbitrary input from the network and on well-formed input.
\<close>

section \<open>Arbitrary input\<close>

text \<open>
  C21: The sFlow decoder is safe on any datagram: it never panics, and it returns an error or at
  most one sample for every 44 bytes of the datagram, whatever counts and lengths the datagram
  claims. Every loop of the decoder ends, since its definitions are total.
\<close>

theorem sflow_decode_safe:
  "case Decode data now of
     None \<Rightarrow> False
   | Some (Inl e) \<Rightarrow> True
   | Some (Inr samples) \<Rightarrow> 44 * length samples \<le> length data"
  using Decode_sound [of data now] by (auto simp: sound_def split: option.split sum.split)

text \<open>
  C22: The packet decoders never read outside the bytes they are given: no input makes the
  decoding of an Ethernet frame, of an IPv4 or IPv6 packet, or of a PSAMPLE message panic.
\<close>

theorem packet_decoders_total:
  "DecodeEthernet b \<noteq> None \<and> DecodeIPv4 b \<noteq> None \<and> DecodeIPv6 b \<noteq> None \<and>
   FromEthernet b now rate ifn \<noteq> None \<and> psample_decode g attrs now \<noteq> None"
proof -
  have eth: "DecodeEthernet x \<noteq> None" for x using DecodeEthernet_total [of x] by auto
  have frame: "FromEthernet x t r i \<noteq> None" for x t r i
    using DecodeEthernet_total [of x] by (auto simp: FromEthernet_def)
  have "psample_decode g attrs now \<noteq> None"
    using frame by (auto simp: psample_decode_def Let_def split: option.split)
  with eth frame DecodeIPv4_total [of b] DecodeIPv6_total [of b] show ?thesis by auto
qed

section \<open>Well-formed input\<close>

text \<open>
  C24: An Ethernet frame with any number of VLAN tags that carries an IPv4 packet with any
  options decodes to the fields of its headers. The transport header is read only from the
  first fragment; any other fragment yields a sample without ports.
\<close>

theorem ipv4_frame_roundtrip:
  assumes "length macs = 12" and "ipv4_ok h" and "l4_ok (h4_proto h) l"
  shows "DecodeEthernet (enc_eth macs tags etherTypeIPv4 (enc_ipv4 h (enc_l4 l))) =
    Some (Some (if h4_frag h AND 0x1fff = 0 then with_l4 l (ipv4_sample h) else ipv4_sample h))"
proof -
  have "s_Proto (ipv4_sample h) = h4_proto h" by (simp add: ipv4_sample_def)
  then have "fillPorts (ipv4_sample h) (enc_l4 l) = Some (with_l4 l (ipv4_sample h))"
    using assms(3) by (simp add: fillPorts_enc)
  moreover have "etherTypeIPv4 \<noteq> etherTypeVLAN" by (simp add: etherTypeIPv4_def etherTypeVLAN_def)
  ultimately show ?thesis
    using assms(1,2) by (simp add: DecodeEthernet_enc DecodeIPv4_enc)
qed

definition sample_h4 :: ipv4_header where
  "sample_h4 = \<lparr>h4_tos = 0, h4_len = 60, h4_id = 7, h4_frag = 0x4000, h4_ttl = 64, h4_proto = protoUDP,
     h4_sum = 0, h4_src = 0xC0000201, h4_dst = 0x0A000001, h4_opts = [1, 1, 1, 0]\<rparr>"

theorem ipv4_frame_roundtrip_witness:
  "DecodeEthernet (enc_eth (replicate 12 0) [100, 200] etherTypeIPv4 (enc_ipv4 sample_h4 (enc_l4 (UDP 53 4242 [])))) =
   Some (Some \<lparr>s_At = Time_zero, s_Family = FamilyIPv4, s_Src = Addr4 0xC0000201, s_Dst = Addr4 0x0A000001,
     s_Proto = protoUDP, s_SrcPort = 53, s_DstPort = 4242, s_PacketLen = 60, s_TCPFlags = 0,
     s_ICMPType = 0, s_ICMPCode = 0, s_IngressIf = '''', s_SampleRate = 0\<rparr>)"
proof -
  have "ipv4_ok sample_h4" and "l4_ok (h4_proto sample_h4) (UDP 53 4242 [])"
    by (simp_all add: ipv4_ok_def sample_h4_def numeral_eq_Suc)
  from ipv4_frame_roundtrip [OF _ this, of "replicate 12 0" "[100, 200]"] show ?thesis
    by (simp add: ipv4_sample_def sample_h4_def Sample_zero_def)
qed

text \<open>
  C25: An IPv6 packet behind at most eight extension headers (options, routing, mobility,
  authentication, first fragments) decodes to its upper-layer protocol and to the fields of the
  transport header.
\<close>

theorem ipv6_chain_roundtrip:
  assumes "list_all ext_ok es" and "length es \<le> 8" and "l4_ok p l"
  shows "DecodeIPv6 (enc_ipv6 h es p (enc_l4 l)) = Some (Some (with_l4 l (ipv6_sample h p)))"
proof -
  have "\<not> is_ext p" using assms(3) by (cases l) (auto simp: is_ext_def ext_defs proto_defs)
  moreover have "s_Proto (ipv6_sample h p) = p" by (simp add: ipv6_sample_def)
  ultimately show ?thesis using assms by (simp add: DecodeIPv6_enc fillPorts_enc)
qed

definition sample_h6 :: ipv6_header where
  "sample_h6 = \<lparr>h6_class = (0, 0, 0, 0), h6_len = 100, h6_hops = 64,
     h6_src = 0x20010db8000000000000000000000001, h6_dst = 0x20010db8000000000000000000000002\<rparr>"

definition sample_exts :: "ext6 list" where
  "sample_exts = [ExtOpts extHopByHop 0 [0, 0, 0, 0, 0, 0], ExtFrag 0 1 [0, 0, 0, 9]]"

theorem ipv6_chain_roundtrip_witness:
  "DecodeIPv6 (enc_ipv6 sample_h6 sample_exts protoTCP (enc_l4 (TCP 443 1024 (replicate 9 0) 2 []))) =
   Some (Some \<lparr>s_At = Time_zero, s_Family = FamilyIPv6, s_Src = Addr6 0x20010db8000000000000000000000001,
     s_Dst = Addr6 0x20010db8000000000000000000000002, s_Proto = protoTCP, s_SrcPort = 443, s_DstPort = 1024,
     s_PacketLen = 140, s_TCPFlags = 2, s_ICMPType = 0, s_ICMPCode = 0, s_IngressIf = '''', s_SampleRate = 0\<rparr>)"
proof -
  have "list_all ext_ok sample_exts" and "length sample_exts \<le> 8" and "l4_ok protoTCP (TCP 443 1024 (replicate 9 0) 2 [])"
    by (simp_all add: sample_exts_def)
  from ipv6_chain_roundtrip [OF this, of sample_h6] show ?thesis
    by (simp add: ipv6_sample_def sample_h6_def Sample_zero_def ClampU16_def)
qed


definition sample_flow :: sflow_sample where
  "sample_flow = FlowSample 1 2 1000 0 0 3 4
     [OtherRecord 1001 [0], RawRecord headerIPv4 90 0 (enc_ipv4 sample_h4 (enc_l4 (UDP 53 4242 []))) []]"


end
