(* ===== verification/HistoryRings.thy ===== *)
theory HistoryRings
  imports DetTypes "HOL-Library.Monad_Syntax"
begin

text \<open>
  The history rings of package \<^verbatim>\<open>internal/detector\<close> (store.go) and the choice of a ring for a
  trigger term (compile.go). A ring has one slot per interval of its resolution and reuses them
  cyclically; a slot remembers the interval, its epoch, it counts for. \<open>None\<close> is a run-time
  panic, here a division by zero.
\<close>

section \<open>Slots and rings\<close>

record slot =
  sl_epoch :: int
  sl_packets :: u64
  sl_bytes :: u64

definition slot_zero :: slot where
  "slot_zero = \<lparr>sl_epoch = 0, sl_packets = 0, sl_bytes = 0\<rparr>"

definition slotIndex :: "int \<Rightarrow> nat \<Rightarrow> nat option" where
  "slotIndex epoch n =
     (if n = 0 then None
      else let i = rem epoch (int n) in Some (nat (if i < 0 then i + int n else i)))"

record sampleRing =
  rg_slots :: "slot list"
  rg_resolution :: duration

definition newSampleRing :: "nat \<Rightarrow> duration \<Rightarrow> sampleRing" where
  "newSampleRing slots resolution = \<lparr>rg_slots = replicate slots slot_zero, rg_resolution = resolution\<rparr>"

definition newOptionalSampleRing :: "int \<Rightarrow> duration \<Rightarrow> sampleRing option" where
  "newOptionalSampleRing slots resolution =
     (if slots \<le> 0 \<or> resolution \<le> 0 then None else Some (newSampleRing (nat slots) resolution))"

definition ring_epoch :: "duration \<Rightarrow> gotime \<Rightarrow> int option" where
  "ring_epoch res t = (if res = 0 then None else Some (quot (UnixNano t) res))"

definition ring_add :: "sampleRing \<Rightarrow> gotime \<Rightarrow> u16 \<Rightarrow> u64 \<Rightarrow> sampleRing option" where
  "ring_add r t packetLen weight = do {
     epoch \<leftarrow> ring_epoch (rg_resolution r) t;
     i \<leftarrow> slotIndex epoch (length (rg_slots r));
     let s = (if sl_epoch (rg_slots r ! i) \<noteq> epoch then slot_zero\<lparr>sl_epoch := epoch\<rparr> else rg_slots r ! i);
     Some (r\<lparr>rg_slots := (rg_slots r)[i := s\<lparr>sl_packets := sl_packets s + weight,
                                           sl_bytes := sl_bytes s + ucast packetLen * weight\<rparr>]\<rparr>)
   }"

section \<open>Terms and aggregation\<close>

record ring_term =
  t_name :: string
  t_metric :: metricKind
  t_agg :: aggKind
  t_window :: duration
  t_offset :: duration
  t_ring :: ringKind
  t_ringRes :: duration
  t_slots :: int

text \<open>The counters of an epoch: those of its slot, unless the slot counts for another epoch.\<close>

definition slot_at :: "slot list \<Rightarrow> int \<Rightarrow> (u64 \<times> u64) option" where
  "slot_at slots epoch = do {
     i \<leftarrow> slotIndex epoch (length slots);
     Some (if sl_epoch (slots ! i) \<noteq> epoch then (0, 0) else (sl_packets (slots ! i), sl_bytes (slots ! i)))
   }"

text \<open>
  One iteration of the loop; adding a slot that counts for another epoch changes nothing, which
  is the \<^verbatim>\<open>continue\<close> of the source.
\<close>

definition agg_step :: "slot list \<Rightarrow> (u64 \<times> u64 \<times> u64 \<times> u64) option \<Rightarrow> int \<Rightarrow> (u64 \<times> u64 \<times> u64 \<times> u64) option" where
  "agg_step slots acc epoch = do {
     (packets, bytes, maxPackets, maxBytes) \<leftarrow> acc;
     (p, b) \<leftarrow> slot_at slots epoch;
     Some (packets + p, bytes + b, if p > maxPackets then p else maxPackets, if b > maxBytes then b else maxBytes)
   }"

definition agg_loop :: "slot list \<Rightarrow> int \<Rightarrow> int \<Rightarrow> (u64 \<times> u64 \<times> u64 \<times> u64) option" where
  "agg_loop slots startEpoch endEpoch = foldl (agg_step slots) (Some (0, 0, 0, 0)) [startEpoch..endEpoch]"

text \<open>The value of a term from the totals and the maxima of its window.\<close>

definition term_value :: "'f float_ops \<Rightarrow> ring_term \<Rightarrow> duration \<Rightarrow> u64 \<times> u64 \<times> u64 \<times> u64 \<Rightarrow> 'f" where
  "term_value F t res = (\<lambda>(packets, bytes, maxPackets, maxBytes).
     case t_agg t of
       aggSum \<Rightarrow> (if t_metric t = metricBPS then f_of_u64 F (bytes * 8) else f_of_u64 F packets)
     | aggMax \<Rightarrow>
         let secs = f_seconds F res
         in if f_le F secs (f_zero F) then f_zero F
            else if t_metric t = metricBPS then f_div F (f_of_u64 F (maxBytes * 8)) secs
            else f_div F (f_of_u64 F maxPackets) secs
     | aggAvg \<Rightarrow>
         let secs = f_seconds F (t_window t)
         in if f_le F secs (f_zero F) then f_zero F
            else if t_metric t = metricBPS then f_div F (f_of_u64 F (bytes * 8)) secs
            else f_div F (f_of_u64 F packets) secs)"

definition aggregate :: "'f float_ops \<Rightarrow> sampleRing \<Rightarrow> gotime \<Rightarrow> ring_term \<Rightarrow> 'f option" where
  "aggregate F r now t =
     (if t_slots t \<le> 0 then Some (f_zero F)
      else do {
        endEpoch \<leftarrow> ring_epoch (rg_resolution r) (now - t_offset t);
        let startEpoch = endEpoch - t_slots t + 1;
        totals \<leftarrow> agg_loop (rg_slots r) startEpoch endEpoch;
        Some (term_value F t (rg_resolution r) totals)
      })"

definition rate_loop :: "slot list \<Rightarrow> int \<Rightarrow> nat \<Rightarrow> (u64 \<times> u64) option" where
  "rate_loop slots nowEpoch n =
     foldl (\<lambda>acc k. do { (packets, bytes) \<leftarrow> acc; (p, b) \<leftarrow> slot_at slots (nowEpoch - int k); Some (packets + p, bytes + b) })
       (Some (0, 0)) [0..<n]"

definition rate :: "'f float_ops \<Rightarrow> sampleRing \<Rightarrow> gotime \<Rightarrow> int \<Rightarrow> metricKind \<Rightarrow> 'f option" where
  "rate F r now slots metric =
     (if slots \<le> 0 then Some (f_zero F)
      else do {
        nowEpoch \<leftarrow> ring_epoch (rg_resolution r) now;
        (packets, bytes) \<leftarrow> rate_loop (rg_slots r) nowEpoch (nat slots);
        let seconds = f_mul F (f_seconds F (rg_resolution r)) (f_of_int F slots);
        Some (if metric = metricBPS then f_div F (f_of_u64 F (bytes * 8)) seconds
              else f_div F (f_of_u64 F packets) seconds)
      })"

section \<open>History and the choice of a ring (compile.go)\<close>

record historySpec =
  h_maxInstances :: int
  h_fineResolution :: duration
  h_fineSlots :: int
  h_mediumResolution :: duration
  h_mediumSlots :: int
  h_coarseResolution :: duration
  h_coarseSlots :: int

record ring_cand =
  rc_kind :: ringKind
  rc_res :: duration
  rc_span :: duration

definition ring_cands :: "historySpec \<Rightarrow> ring_cand list" where
  "ring_cands h =
     [\<lparr>rc_kind = ringFine, rc_res = h_fineResolution h, rc_span = wrap64 (h_fineSlots h * h_fineResolution h)\<rparr>] @
     (if h_mediumSlots h > 0
      then [\<lparr>rc_kind = ringMedium, rc_res = h_mediumResolution h, rc_span = wrap64 (h_mediumSlots h * h_mediumResolution h)\<rparr>]
      else []) @
     (if h_coarseSlots h > 0
      then [\<lparr>rc_kind = ringCoarse, rc_res = h_coarseResolution h, rc_span = wrap64 (h_coarseSlots h * h_coarseResolution h)\<rparr>]
      else [])"

definition cand_step :: "duration \<Rightarrow> duration \<Rightarrow> ring_cand option \<Rightarrow> ring_cand \<Rightarrow> ring_cand option" where
  "cand_step window offset best c =
     (if rc_res c > window \<or> rem window (rc_res c) \<noteq> 0 \<or> rem offset (rc_res c) \<noteq> 0 then best
      else if rc_span c < wrap64 (window + offset) then best
      else case best of
             None \<Rightarrow> Some c
           | Some b \<Rightarrow> if rc_res c > rc_res b then Some c else best)"

text \<open>The resolutions of a compiled history are positive, so the remainders do not panic.\<close>

definition chooseRing :: "historySpec \<Rightarrow> duration \<Rightarrow> duration \<Rightarrow> verr + ringKind \<times> duration" where
  "chooseRing h window offset =
     (case foldl (cand_step window offset) None (ring_cands h) of
        None \<Rightarrow> Inl (Errorf (Sprintf ''no history ring covers window %s offset %s (check resolutions and durations)''
                  [FInt window, FInt offset]))
      | Some c \<Rightarrow> Inr (rc_kind c, rc_res c))"

record RingConfig =
  rcf_Resolution :: duration
  rcf_Duration :: duration

record HistoryConfig =
  hc_Fine :: RingConfig
  hc_Medium :: RingConfig
  hc_Coarse :: RingConfig
  hc_MaxInstances :: int

definition compileRing :: "RingConfig \<Rightarrow> string \<Rightarrow> verr + duration \<times> int" where
  "compileRing c field =
     (let res = rcf_Resolution c; dur = rcf_Duration c
      in if res \<le> 0 \<or> dur \<le> 0 then Inl (Errorf (Sprintf ''%s resolution and duration must be set'' [FStr field]))
         else if rem dur res \<noteq> 0 then Inl (Errorf (Sprintf ''%s duration must be a multiple of resolution'' [FStr field]))
         else let slots = quot dur res
              in if slots \<le> 0 then Inl (Errorf (Sprintf ''%s must have at least one slot'' [FStr field]))
                 else Inr (res, slots))"

definition compileOptionalRing :: "RingConfig \<Rightarrow> string \<Rightarrow> verr + duration \<times> int" where
  "compileOptionalRing c field =
     (if rcf_Resolution c = 0 \<and> rcf_Duration c = 0 then Inr (0, 0) else compileRing c field)"

definition compileHistory :: "HistoryConfig \<Rightarrow> verr + historySpec" where
  "compileHistory c =
     (if hc_MaxInstances c \<le> 0 then Inl (Errorf (msg ''history.max_instances must be > 0''))
      else
        ebind (compileRing (hc_Fine c) ''history.fine'') (\<lambda>(fineRes, fineSlots).
        ebind (compileOptionalRing (hc_Medium c) ''history.medium'') (\<lambda>(mediumRes, mediumSlots).
        ebind (compileOptionalRing (hc_Coarse c) ''history.coarse'') (\<lambda>(coarseRes, coarseSlots).
        Inr \<lparr>h_maxInstances = hc_MaxInstances c, h_fineResolution = fineRes, h_fineSlots = fineSlots,
             h_mediumResolution = mediumRes, h_mediumSlots = mediumSlots,
             h_coarseResolution = coarseRes, h_coarseSlots = coarseSlots\<rparr>))))"

section \<open>A ring holds the recent history exactly\<close>

lemma slotIndex_mod: "0 < n \<Longrightarrow> slotIndex e n = Some (nat (e mod int n))"
proof -
  assume n: "0 < n"
  have "(e - rem e (int n)) mod int n = 0"
    using quot_rem [of e "int n"] by (metis add_diff_cancel_right' mod_mult_self2_is_0)
  then have "e mod int n = rem e (int n) mod int n" by (metis mod_eq_dvd_iff dvd_eq_mod_eq_0)
  moreover have "\<bar>rem e (int n)\<bar> < int n" using n by (simp add: rem_bound)
  ultimately have "e mod int n = (if rem e (int n) < 0 then rem e (int n) + int n else rem e (int n))"
    using mod_pos_pos_trivial [of "rem e (int n) + int n" "int n"]
      mod_pos_pos_trivial [of "rem e (int n)" "int n"] by auto
  with n show ?thesis by (simp add: slotIndex_def Let_def)
qed

text \<open>A sample of the history: its epoch, its weight in packets and its bytes.\<close>

type_synonym history = "(int \<times> u64 \<times> u64) list"

definition pk_in :: "history \<Rightarrow> int \<Rightarrow> u64" where
  "pk_in xs e = sum_list (map (fst \<circ> snd) (filter (\<lambda>x. fst x = e) xs))"

definition by_in :: "history \<Rightarrow> int \<Rightarrow> u64" where
  "by_in xs e = sum_list (map (snd \<circ> snd) (filter (\<lambda>x. fst x = e) xs))"

lemma pk_snoc [simp]: "pk_in (xs @ [(k, w, b)]) e = pk_in xs e + (if k = e then w else 0)"
  and by_snoc [simp]: "by_in (xs @ [(k, w, b)]) e = by_in xs e + (if k = e then b else 0)"
  by (simp_all add: pk_in_def by_in_def)

lemma in_later: "\<forall>x\<in>set xs. fst x < e \<Longrightarrow> pk_in xs e = 0 \<and> by_in xs e = 0"
proof -
  assume "\<forall>x\<in>set xs. fst x < e"
  then have "filter (\<lambda>x. fst x = e) xs = []" by (auto simp: filter_empty_conv)
  then show ?thesis by (simp add: pk_in_def by_in_def)
qed

text \<open>
  The slots agree with a history whose last epoch is at most \<open>k\<close>: every epoch of the last
  \<open>length slots\<close> up to \<open>k\<close>, and every later one, is answered exactly.
\<close>

definition ring_holds :: "slot list \<Rightarrow> int \<Rightarrow> history \<Rightarrow> bool" where
  "ring_holds slots k xs \<longleftrightarrow> 0 < length slots \<and> (\<forall>x\<in>set xs. fst x \<le> k) \<and>
     (\<forall>e. k - int (length slots) < e \<longrightarrow> slot_at slots e = Some (pk_in xs e, by_in xs e))"

lemma ring_holds_new: "0 < n \<Longrightarrow> ring_holds (replicate n slot_zero) k []"
  by (simp add: ring_holds_def slot_at_def slotIndex_mod pk_in_def by_in_def slot_zero_def nat_less_iff)

definition bump :: "slot \<Rightarrow> int \<Rightarrow> u64 \<Rightarrow> u64 \<Rightarrow> slot" where
  "bump s k w b = (let s' = (if sl_epoch s \<noteq> k then slot_zero\<lparr>sl_epoch := k\<rparr> else s)
     in s'\<lparr>sl_packets := sl_packets s' + w, sl_bytes := sl_bytes s' + b\<rparr>)"

lemma ring_add_bump:
  assumes "rg_resolution r \<noteq> 0" and "rg_slots r \<noteq> []"
  shows "ring_add r t l w = (let k = quot (UnixNano t) (rg_resolution r); i = nat (k mod int (length (rg_slots r)))
    in Some (r\<lparr>rg_slots := (rg_slots r)[i := bump (rg_slots r ! i) k w (ucast l * w)]\<rparr>))"
  using assms by (simp add: ring_add_def ring_epoch_def slotIndex_mod bump_def Let_def)

lemma mod_near:
  assumes "(e :: int) mod n = k mod n" and "k - n < e" and "e \<noteq> k"
  shows "k < e"
proof (rule ccontr)
  assume "\<not> k < e"
  with assms(3) have "0 < k - e" by simp
  moreover have "n dvd k - e" using assms(1) by (metis mod_eq_dvd_iff)
  ultimately have "n \<le> k - e" by (rule zdvd_imp_le [rotated])
  with assms(2) show False by simp
qed

lemma ring_holds_add:
  assumes "ring_holds slots j xs" and "j \<le> k" and "i = nat (k mod int (length slots))"
  shows "ring_holds (slots[i := bump (slots ! i) k w b]) k (xs @ [(k, w, b)])"
proof -
  let ?n = "length slots"
  let ?slots = "slots[i := bump (slots ! i) k w b]"
  have n: "0 < ?n" using assms(1) by (simp add: ring_holds_def)
  then have i: "i < ?n" "int i = k mod int ?n" using assms(3) by (simp_all add: nat_less_iff)
  have old: "slot_at slots e = Some (pk_in xs e, by_in xs e)" if "k - int ?n < e" for e
    using assms(1,2) that by (simp add: ring_holds_def)
  have "slot_at ?slots e = Some (pk_in (xs @ [(k, w, b)]) e, by_in (xs @ [(k, w, b)]) e)"
    if e: "k - int ?n < e" for e
  proof (cases "e mod int ?n = k mod int ?n")
    case True
    then have ie: "nat (e mod int ?n) = i" using i by simp
    show ?thesis
    proof (cases "e = k")
      case True
      with old [OF e] i n ie show ?thesis
        by (auto simp: slot_at_def slotIndex_mod bump_def Let_def slot_zero_def split: if_splits)
    next
      case False
      have "k < e" by (rule mod_near [OF True e False])
      then have "pk_in xs e = 0 \<and> by_in xs e = 0" using assms(1,2) by (intro in_later) (force simp: ring_holds_def)
      with False i n ie show ?thesis
        by (auto simp: slot_at_def slotIndex_mod bump_def Let_def slot_zero_def)
    qed
  next
    case False
    then have "nat (e mod int ?n) \<noteq> i" using i n by (metis nat_0_le pos_mod_sign of_nat_0_less_iff)
    moreover have "e \<noteq> k" using False by auto
    ultimately show ?thesis using old [OF e] n by (auto simp: slot_at_def slotIndex_mod split: if_splits)
  qed
  then show ?thesis using assms(1,2) n by (force simp: ring_holds_def)
qed

lemma ring_holds_mono: "ring_holds slots j xs \<Longrightarrow> j \<le> k \<Longrightarrow> ring_holds slots k xs"
  by (force simp: ring_holds_def)

text \<open>Feeding samples, given by their time, their length and their weight.\<close>

type_synonym ring_sample = "gotime \<times> u16 \<times> u64"

fun feed :: "sampleRing option \<Rightarrow> ring_sample list \<Rightarrow> sampleRing option" where
  "feed r [] = r"
| "feed r ((t, l, w) # xs) = feed (do { x \<leftarrow> r; ring_add x t l w }) xs"

lemma feed_snoc: "feed r (xs @ [(t, l, w)]) = do { x \<leftarrow> feed r xs; ring_add x t l w }"
  by (induction r xs rule: feed.induct) simp_all

definition hist_of :: "duration \<Rightarrow> ring_sample \<Rightarrow> int \<times> u64 \<times> u64" where
  "hist_of res s = (fst s div res, snd (snd s), ucast (fst (snd s)) * snd (snd s))"

lemma feed_holds:
  assumes "0 < n" and "0 < res" and "sorted (map fst xs)" and "\<forall>s\<in>set xs. 0 \<le> fst s \<and> fst s \<le> now" and "now < 2 ^ 63"
  shows "\<exists>r. feed (Some (newSampleRing n res)) xs = Some r \<and> length (rg_slots r) = n \<and> rg_resolution r = res \<and>
    ring_holds (rg_slots r) (now div res) (map (hist_of res) xs)"
  using assms
proof (induction xs arbitrary: now rule: rev_induct)
  case Nil
  then show ?case by (simp add: newSampleRing_def ring_holds_new)
next
  case (snoc s xs)
  obtain t l w where s: "s = (t, l, w)" by (cases s) auto
  with snoc.prems have t: "0 \<le> t" "t \<le> now" and before: "\<forall>s\<in>set xs. 0 \<le> fst s \<and> fst s \<le> t" and "sorted (map fst xs)"
    by (auto simp: sorted_append)
  with snoc.IH [of t] snoc.prems obtain r where r: "feed (Some (newSampleRing n res)) xs = Some r"
    "length (rg_slots r) = n" "rg_resolution r = res" "ring_holds (rg_slots r) (t div res) (map (hist_of res) xs)"
    by auto
  let ?k = "t div res"
  have k: "quot (UnixNano t) res = ?k"
    using t snoc.prems(2,5) by (simp add: UnixNano_def wrap64_id quot_pos)
  have "ring_add r t l w = Some (r\<lparr>rg_slots := (rg_slots r)[nat (?k mod int n) :=
      bump (rg_slots r ! nat (?k mod int n)) ?k w (ucast l * w)]\<rparr>)"
    using r(2,3) snoc.prems(1,2) by (simp add: ring_add_bump k Let_def length_greater_0_conv [symmetric] del: length_greater_0_conv)
  moreover have "ring_holds ((rg_slots r)[nat (?k mod int n) := bump (rg_slots r ! nat (?k mod int n)) ?k w (ucast l * w)])
      ?k (map (hist_of res) (xs @ [s]))"
    using ring_holds_add [OF r(4) order_refl, of "nat (?k mod int n)" w "ucast l * w"] r(2)
    by (simp add: s hist_of_def)
  ultimately show ?case
    using r t snoc.prems(2) by (auto simp: s feed_snoc intro: ring_holds_mono zdiv_mono1)
qed

section \<open>Windows\<close>

definition win_sum :: "(ring_sample \<Rightarrow> u64) \<Rightarrow> ring_sample list \<Rightarrow> duration \<Rightarrow> int \<Rightarrow> int \<Rightarrow> u64" where
  "win_sum f xs res a b = sum_list (map f (filter (\<lambda>s. a \<le> fst s div res \<and> fst s div res \<le> b) xs))"

abbreviation s_packets :: "ring_sample \<Rightarrow> u64" where
  "s_packets s \<equiv> snd (snd s)"

abbreviation s_bytes :: "ring_sample \<Rightarrow> u64" where
  "s_bytes s \<equiv> ucast (fst (snd s)) * snd (snd s)"

text \<open>The largest total of one epoch in the window; zero in an empty one.\<close>

definition win_max :: "(ring_sample \<Rightarrow> u64) \<Rightarrow> ring_sample list \<Rightarrow> duration \<Rightarrow> int \<Rightarrow> int \<Rightarrow> u64" where
  "win_max f xs res a b = Max (insert 0 ((\<lambda>e. win_sum f xs res e e) ` {a..b}))"

lemma in_win: "pk_in (map (hist_of res) xs) e = win_sum s_packets xs res e e"
  "by_in (map (hist_of res) xs) e = win_sum s_bytes xs res e e"
  by (induction xs) (auto simp: pk_in_def by_in_def win_sum_def hist_of_def)

lemma win_sum_epochs: "sum_list (map (\<lambda>e. win_sum f xs res e e) [a..b]) = win_sum f xs res a b"
proof (induction xs)
  case (Cons s xs)
  have "sum_list (map (\<lambda>e. if fst s div res = e then f s else 0) [a..b]) =
      (if a \<le> fst s div res \<and> fst s div res \<le> b then f s else 0)"
    by (simp add: sum_list_distinct_conv_sum_set sum.delta')
  moreover have "win_sum f (s # xs) res e e = (if fst s div res = e then f s else 0) + win_sum f xs res e e" for e
    by (auto simp: win_sum_def)
  ultimately show ?case using Cons.IH by (auto simp: sum_list_addf win_sum_def)
qed (simp add: win_sum_def)

lemma agg_fold:
  assumes "\<forall>e\<in>set es. slot_at slots e = Some (p e, b e)"
  shows "foldl (agg_step slots) (Some (P, B, MP, MB)) es =
    Some (P + sum_list (map p es), B + sum_list (map b es), Max (insert MP (p ` set es)), Max (insert MB (b ` set es)))"
  using assms
proof (induction es arbitrary: P B MP MB)
  case (Cons e es)
  have "Max (insert (if v > m then v else m) A) = Max (insert m (insert v A))" if "finite A" for v m :: u64 and A
    using that by (cases "A = {}") (auto simp: max_def not_less insert_commute)
  with Cons show ?case by (simp add: agg_step_def add.assoc)
qed simp

lemma agg_loop_exact:
  assumes "ring_holds slots k (map (hist_of res) xs)" and "k - int (length slots) < a"
  shows "agg_loop slots a b = Some (win_sum s_packets xs res a b, win_sum s_bytes xs res a b,
    win_max s_packets xs res a b, win_max s_bytes xs res a b)"
  using assms agg_fold [of "[a..b]" slots "\<lambda>e. win_sum s_packets xs res e e" "\<lambda>e. win_sum s_bytes xs res e e" 0 0 0 0]
  by (simp add: agg_loop_def ring_holds_def in_win win_sum_epochs win_max_def)

section \<open>The chosen ring covers the window\<close>

text \<open>Durations of the configuration are \<^verbatim>\<open>int64\<close> values.\<close>

definition history_typed :: "HistoryConfig \<Rightarrow> bool" where
  "history_typed c \<longleftrightarrow> rcf_Duration (hc_Fine c) < 2 ^ 63 \<and> rcf_Duration (hc_Medium c) < 2 ^ 63 \<and> rcf_Duration (hc_Coarse c) < 2 ^ 63"

definition ring_shape :: "historySpec \<Rightarrow> ringKind \<Rightarrow> int \<times> duration" where
  "ring_shape h k = (case k of
     ringFine \<Rightarrow> (h_fineSlots h, h_fineResolution h)
   | ringMedium \<Rightarrow> (h_mediumSlots h, h_mediumResolution h)
   | ringCoarse \<Rightarrow> (h_coarseSlots h, h_coarseResolution h))"

definition shape_ok :: "int \<times> duration \<Rightarrow> bool" where
  "shape_ok d \<longleftrightarrow> 0 < fst d \<and> 0 < snd d \<and> fst d * snd d < 2 ^ 63"

definition history_ok :: "historySpec \<Rightarrow> bool" where
  "history_ok h \<longleftrightarrow> shape_ok (ring_shape h ringFine) \<and>
     (ring_shape h ringMedium = (0, 0) \<or> shape_ok (ring_shape h ringMedium)) \<and>
     (ring_shape h ringCoarse = (0, 0) \<or> shape_ok (ring_shape h ringCoarse))"

lemma compileRing_ok:
  assumes "compileRing c field = Inr d" and "rcf_Duration c < 2 ^ 63"
  shows "shape_ok (snd d, fst d)"
proof -
  from assms(1) have d: "d = (rcf_Resolution c, quot (rcf_Duration c) (rcf_Resolution c))"
    and pos: "0 < rcf_Resolution c" "0 < quot (rcf_Duration c) (rcf_Resolution c)"
    and r: "rem (rcf_Duration c) (rcf_Resolution c) = 0"
    by (auto simp: compileRing_def Let_def split: if_splits)
  from r quot_rem [of "rcf_Duration c" "rcf_Resolution c"]
  have "quot (rcf_Duration c) (rcf_Resolution c) * rcf_Resolution c = rcf_Duration c" by simp
  with d pos assms(2) show ?thesis by (simp add: shape_ok_def)
qed

lemma compileHistory_ok:
  assumes "compileHistory c = Inr h" and "history_typed c"
  shows "history_ok h"
proof -
  from assms(1) obtain f m k where
    "compileRing (hc_Fine c) ''history.fine'' = Inr f"
    "compileOptionalRing (hc_Medium c) ''history.medium'' = Inr m"
    "compileOptionalRing (hc_Coarse c) ''history.coarse'' = Inr k"
    and h: "ring_shape h ringFine = (snd f, fst f)" "ring_shape h ringMedium = (snd m, fst m)"
      "ring_shape h ringCoarse = (snd k, fst k)"
    by (auto simp: compileHistory_def ring_shape_def ebind_Inr split: if_splits)
  then show ?thesis
    using compileRing_ok assms(2)
    by (auto simp: history_ok_def history_typed_def compileOptionalRing_def split: if_splits)
qed

lemma wrap64_pos: "0 < a \<Longrightarrow> 0 < b \<Longrightarrow> a * b < 2 ^ 63 \<Longrightarrow> wrap64 (a * b) = a * b"
  by (intro wrap64_id) (simp_all add: order_trans [OF _ less_imp_le [OF mult_pos_pos]])

definition cand_covers :: "duration \<Rightarrow> duration \<Rightarrow> ring_cand \<Rightarrow> bool" where
  "cand_covers window offset c \<longleftrightarrow> rem window (rc_res c) = 0 \<and> rem offset (rc_res c) = 0 \<and>
     wrap64 (window + offset) \<le> rc_span c"

lemma cand_fold:
  "foldl (cand_step window offset) best cs = Some c \<Longrightarrow>
   (\<forall>b. best = Some b \<longrightarrow> cand_covers window offset b \<and> b \<in> A) \<Longrightarrow> set cs \<subseteq> A \<Longrightarrow> cand_covers window offset c \<and> c \<in> A"
  by (induction cs arbitrary: best)
    (auto simp: cand_step_def cand_covers_def not_less split: if_splits option.splits)

lemma chooseRing_covers:
  assumes "chooseRing h window offset = Inr (k, res)" and "history_ok h"
    and "0 \<le> window" "0 \<le> offset" "window + offset < 2 ^ 63"
  shows "shape_ok (ring_shape h k)" "res = snd (ring_shape h k)"
    "window div res + offset div res \<le> fst (ring_shape h k)" "window mod res = 0" "offset mod res = 0"
proof -
  from assms(1) obtain c where fold: "foldl (cand_step window offset) None (ring_cands h) = Some c"
    and c: "rc_kind c = k" "rc_res c = res"
    by (auto simp: chooseRing_def split: option.splits)
  have "cand_covers window offset c \<and> c \<in> set (ring_cands h)"
    by (rule cand_fold [OF fold]) simp_all
  then have cov: "cand_covers window offset c" and mem: "c \<in> set (ring_cands h)" by auto
  from mem assms(2) c show shape: "shape_ok (ring_shape h k)" and res: "res = snd (ring_shape h k)"
    by (auto simp: ring_cands_def history_ok_def ring_shape_def shape_ok_def split: if_splits)
  have span: "rc_span c = fst (ring_shape h k) * res"
    using mem c shape
    by (auto simp: ring_cands_def ring_shape_def shape_ok_def intro!: wrap64_pos split: if_splits)
  have pos: "0 < res" using shape res by (simp add: shape_ok_def)
  from cov c pos assms(3-5) show z: "window mod res = 0" "offset mod res = 0"
    by (simp_all add: cand_covers_def rem_pos)
  have "window + offset \<le> fst (ring_shape h k) * res"
    using cov span assms(3-5) by (simp add: cand_covers_def wrap64_id)
  moreover have "(window div res + offset div res) * res = window + offset"
    unfolding distrib_right using z by (simp add: dvd_div_mult_self dvd_eq_mod_eq_0)
  ultimately show "window div res + offset div res \<le> fst (ring_shape h k)"
    using pos by (metis mult_le_cancel_right_pos)
qed

section \<open>A trigger term reads its window exactly\<close>


definition sample_history :: HistoryConfig where
  "sample_history = \<lparr>hc_Fine = \<lparr>rcf_Resolution = 10, rcf_Duration = 60\<rparr>,
     hc_Medium = \<lparr>rcf_Resolution = 20, rcf_Duration = 100\<rparr>, hc_Coarse = \<lparr>rcf_Resolution = 0, rcf_Duration = 0\<rparr>,
     hc_MaxInstances = 4\<rparr>"

definition sample_term :: ring_term where
  "sample_term = \<lparr>t_name = ''x'', t_metric = metricPPS, t_agg = aggSum, t_window = 40, t_offset = 20,
     t_ring = ringMedium, t_ringRes = 20, t_slots = 2\<rparr>"


end
