(* ===== verification/Spread.thy ===== *)
theory Spread
  imports DetTypes "HOL-Library.Monad_Syntax"
begin

text \<open>
  Diversity gates of package \<^verbatim>\<open>internal/detector\<close> (spread.go): which of \<open>n\<close> regions of a range a
  value falls into, and the sliding window that counts the distinct regions of the most recent
  samples. \<open>None\<close> is a run-time panic: an index out of range, a negative shift, a division by
  zero, \<^verbatim>\<open>As4\<close> of an address that is not IPv4.
\<close>

section \<open>Regions\<close>

datatype spreadKind = spreadSrc | spreadDst | spreadSrcPort | spreadDstPort

definition spreadMaxBuckets :: int where "spreadMaxBuckets = 20"
definition spreadMinSamples :: nat where "spreadMinSamples = 16"

record spreadField =
  sf_kind :: spreadKind
  sf_buckets :: int
  sf_minRatio :: int
  sf_ipv6 :: bool
  sf_maskBits :: int
  sf_portLo :: u32
  sf_portSize :: u32
  sf_portMod :: bool

fun spreadField_String :: "spreadKind \<Rightarrow> string" where
  "spreadField_String spreadSrc = ''src''"
| "spreadField_String spreadDst = ''dst''"
| "spreadField_String spreadSrcPort = ''src_port''"
| "spreadField_String spreadDstPort = ''dst_port''"

text \<open>Shifts of Go by a signed count: a negative count panics, a large one gives zero.\<close>

definition lsl64 :: "u64 \<Rightarrow> int \<Rightarrow> u64 option" where
  "lsl64 x n = (if n < 0 then None else Some (push_bit (nat n) x))"

definition lsr64 :: "u64 \<Rightarrow> int \<Rightarrow> u64 option" where
  "lsr64 x n = (if n < 0 then None else Some (drop_bit (nat n) x))"

fun As4 :: "addr \<Rightarrow> u32 option" where
  "As4 (Addr4 x) = Some x"
| "As4 (Addr6 x) = (if Is4In6 x then Some (ucast x) else None)"
| "As4 Addr_zero = None"

text \<open>The two halves of \<^verbatim>\<open>As16\<close> as big-endian words.\<close>

fun As16_word :: "addr \<Rightarrow> 128 word" where
  "As16_word (Addr4 x) = push_bit 32 0xffff OR ucast x"
| "As16_word (Addr6 x) = x"
| "As16_word Addr_zero = 0"

text \<open>The high word of the product (\<^verbatim>\<open>bits.Mul64\<close>).\<close>

definition Mul64_hi :: "u64 \<Rightarrow> u64 \<Rightarrow> u64" where
  "Mul64_hi x y = word_of_nat (unat x * unat y div 2 ^ 64)"

definition ipRegion :: "addr \<Rightarrow> bool \<Rightarrow> int \<Rightarrow> int \<Rightarrow> int option" where
  "ipRegion a v6 maskBits n =
     (if \<not> addr_IsValid a then Some 0
      else do {
        lj \<leftarrow>
          (if \<not> v6 then do {
             b \<leftarrow> As4 a;
             let x = (ucast b :: u64);
             let spreadBits = 32 - maskBits;
             m \<leftarrow> lsl64 1 spreadBits;
             let varying = x AND (m - 1);
             lsl64 varying (64 - spreadBits)
           } else
             let hi = ucast (drop_bit 64 (As16_word a)) :: u64; lo = ucast (As16_word a) :: u64
             in if maskBits < 64 then do {
                  h \<leftarrow> lsl64 hi maskBits;
                  if maskBits > 0 then do { l \<leftarrow> lsr64 lo (64 - maskBits); Some (h OR l) }
                  else Some h
                } else do {
                  let spreadBits = 128 - maskBits;
                  m \<leftarrow> lsl64 1 spreadBits;
                  let varying = lo AND (m - 1);
                  lsl64 varying (64 - spreadBits)
                });
        Some (sint (Mul64_hi lj (word_of_int n)))
      })"

definition portRegion :: "u16 \<Rightarrow> u32 \<Rightarrow> u32 \<Rightarrow> bool \<Rightarrow> int \<Rightarrow> int option" where
  "portRegion p lo sz md n = do {
     varying \<leftarrow>
       (if md then (if sz = 0 then None else Some (ucast p mod sz))
        else
          let v = (if ucast p < lo then lo else ucast p); d = v - lo
          in Some (if d \<ge> sz then sz - 1 else d));
     if sz \<le> word_of_int n then Some (int (unat varying))
     else if sz = 0 then None
     else Some (sint (ucast varying * word_of_int n div ucast sz :: u64))
   }"

definition bucket :: "spreadField \<Rightarrow> Sample \<Rightarrow> int option" where
  "bucket f s =
     (case sf_kind f of
        spreadSrc \<Rightarrow> ipRegion (s_Src s) (sf_ipv6 f) (sf_maskBits f) (sf_buckets f)
      | spreadDst \<Rightarrow> ipRegion (s_Dst s) (sf_ipv6 f) (sf_maskBits f) (sf_buckets f)
      | spreadSrcPort \<Rightarrow> portRegion (s_SrcPort s) (sf_portLo f) (sf_portSize f) (sf_portMod f) (sf_buckets f)
      | spreadDstPort \<Rightarrow> portRegion (s_DstPort s) (sf_portLo f) (sf_portSize f) (sf_portMod f) (sf_buckets f))"

section \<open>The estimator\<close>

record spreadEstimator =
  se_buckets :: int
  se_window :: nat
  se_ring :: "u8 list"
  se_count :: "u8 list"
  se_head :: nat
  se_filled :: nat
  se_distinct :: int

definition newSpreadEstimator :: "nat \<Rightarrow> spreadEstimator" where
  "newSpreadEstimator buckets =
     (let w = (if buckets < spreadMinSamples then spreadMinSamples else buckets)
      in \<lparr>se_buckets = int buckets, se_window = w, se_ring = replicate w 0, se_count = replicate buckets 0,
          se_head = 0, se_filled = 0, se_distinct = 0\<rparr>)"

definition ratioPct :: "spreadEstimator \<Rightarrow> int option" where
  "ratioPct e = (if se_buckets e = 0 then None else Some (quot (se_distinct e * 100) (se_buckets e)))"

text \<open>The oldest sample leaves a full window.\<close>

definition evict :: "spreadEstimator \<Rightarrow> spreadEstimator option" where
  "evict e = do {
     old \<leftarrow> elem_at (se_ring e) (se_head e);
     c \<leftarrow> elem_at (se_count e) (unat old);
     let e' = e\<lparr>se_count := (se_count e)[unat old := c - 1]\<rparr>;
     Some (if c - 1 = 0 then e'\<lparr>se_distinct := se_distinct e - 1\<rparr> else e')
   }"

definition observe :: "spreadEstimator \<Rightarrow> int \<Rightarrow> (int \<times> spreadEstimator) option" where
  "observe e region = do {
     e1 \<leftarrow> (if se_filled e = se_window e then evict e else Some (e\<lparr>se_filled := se_filled e + 1\<rparr>));
     _ \<leftarrow> elem_at (se_ring e1) (se_head e1);
     let e2 = e1\<lparr>se_ring := (se_ring e1)[se_head e1 := word_of_int region]\<rparr>;
     c \<leftarrow> (if region < 0 then None else elem_at (se_count e2) (nat region));
     let e3 = (if c = 0 then e2\<lparr>se_distinct := se_distinct e2 + 1\<rparr> else e2);
     let e4 = e3\<lparr>se_count := (se_count e3)[nat region := c + 1]\<rparr>;
     let h = se_head e4 + 1;
     let e5 = e4\<lparr>se_head := (if h = se_window e4 then 0 else h)\<rparr>;
     pct \<leftarrow> ratioPct e5;
     Some (pct, e5)
   }"

section \<open>The sliding window\<close>

text \<open>The regions of the samples in the window, oldest first.\<close>

definition recent :: "spreadEstimator \<Rightarrow> nat list" where
  "recent e = map unat (if se_filled e < se_window e then take (se_head e) (se_ring e)
                        else drop (se_head e) (se_ring e) @ take (se_head e) (se_ring e))"

definition slide :: "nat \<Rightarrow> nat list \<Rightarrow> nat \<Rightarrow> nat list" where
  "slide w xs x = (if length xs < w then xs @ [x] else tl xs @ [x])"

definition counts_ok :: "u8 list \<Rightarrow> int \<Rightarrow> nat list \<Rightarrow> bool" where
  "counts_ok cnt d xs \<longleftrightarrow> (\<forall>i < length cnt. unat (cnt ! i) = count_list xs i) \<and>
     set xs \<subseteq> {..<length cnt} \<and> d = int (card (set xs))"

definition spread_ok :: "spreadEstimator \<Rightarrow> bool" where
  "spread_ok e \<longleftrightarrow> length (se_ring e) = se_window e \<and> 0 < se_window e \<and> se_window e < 256 \<and>
     se_buckets e = int (length (se_count e)) \<and> 0 < length (se_count e) \<and> length (se_count e) \<le> se_window e \<and>
     se_head e < se_window e \<and> se_filled e \<le> se_window e \<and>
     (se_filled e < se_window e \<longrightarrow> se_head e = se_filled e) \<and>
     counts_ok (se_count e) (se_distinct e) (recent e)"

lemma counts_insert:
  assumes "counts_ok cnt d xs" and "x < length cnt" and "length xs < 255"
  shows "counts_ok (cnt[x := cnt ! x + 1]) (if cnt ! x = 0 then d + 1 else d) (xs @ [x])"
proof -
  have c: "unat (cnt ! x) = count_list xs x" using assms by (simp add: counts_ok_def)
  have "unat (cnt ! x) < 255"
    using assms(3) count_le_length [of xs x] unfolding c by (rule le_less_trans [rotated])
  then have "unat (cnt ! x + 1) = unat (cnt ! x) + 1"
    by (simp add: unat_word_ariths)
  moreover have "cnt ! x = 0 \<longleftrightarrow> x \<notin> set xs"
    using c by (metis count_list_0_iff unat_eq_zero)
  ultimately show ?thesis
    using assms c by (auto simp: counts_ok_def nth_list_update card_insert_if insert_absorb)
qed

lemma counts_evict:
  assumes "counts_ok cnt d (x # xs)"
  shows "counts_ok (cnt[x := cnt ! x - 1]) (if cnt ! x - 1 = 0 then d - 1 else d) xs" and "x < length cnt"
proof -
  show x: "x < length cnt" using assms by (simp add: counts_ok_def)
  have c: "unat (cnt ! x) = count_list xs x + 1" using assms x by (simp add: counts_ok_def)
  then have d: "unat (cnt ! x - 1) = count_list xs x"
    by (metis add_diff_cancel_right' le_add2 unat_1 unat_minus_one add_eq_0_iff_both_eq_0 one_neq_zero unat_eq_zero)
  then have "cnt ! x - 1 = 0 \<longleftrightarrow> x \<notin> set xs"
    by (metis count_list_0_iff unat_eq_zero)
  with assms d show "counts_ok (cnt[x := cnt ! x - 1]) (if cnt ! x - 1 = 0 then d - 1 else d) xs"
    by (auto simp: counts_ok_def nth_list_update card_insert_if insert_absorb)
qed

lemma take_write: "h < length xs \<Longrightarrow> take (Suc h) (xs[h := v]) = take h xs @ [v]"
  by (simp add: take_Suc_conv_app_nth)

text \<open>Writing at the head of the ring and moving on, read from the oldest entry.\<close>

lemma ring_write:
  assumes "h < length xs" and "h' = (if Suc h = length xs then 0 else Suc h)"
  shows "drop h' (xs[h := v]) @ take h' (xs[h := v]) = drop (Suc h) xs @ take h xs @ [v]"
proof (cases "Suc h = length xs")
  case True
  then have "take (Suc h) (xs[h := v]) = xs[h := v]" by simp
  with True assms take_write [OF assms(1), of v] show ?thesis by simp
next
  case False
  with assms take_write [OF assms(1), of v] show ?thesis by simp
qed

lemma length_recent: "spread_ok e \<Longrightarrow> length (recent e) = se_filled e"
  by (auto simp: recent_def spread_ok_def)

text \<open>Making room: the counters describe the window without its oldest sample if it was full.\<close>

definition room :: "spreadEstimator \<Rightarrow> nat list" where
  "room e = (if se_filled e = se_window e then tl (recent e) else recent e)"

lemma room_ok:
  assumes "spread_ok e"
  obtains e1 where "(if se_filled e = se_window e then evict e else Some (e\<lparr>se_filled := se_filled e + 1\<rparr>)) = Some e1"
    and "se_ring e1 = se_ring e" "se_head e1 = se_head e" "se_window e1 = se_window e" "se_buckets e1 = se_buckets e"
    and "se_filled e1 = (if se_filled e = se_window e then se_window e else se_filled e + 1)"
    and "length (se_count e1) = length (se_count e)"
    and "counts_ok (se_count e1) (se_distinct e1) (room e)"
proof (cases "se_filled e = se_window e")
  case True
  let ?old = "se_ring e ! se_head e"
  have h: "se_head e < length (se_ring e)" using assms by (simp add: spread_ok_def)
  then have recent: "recent e = unat ?old # room e"
    using True by (simp add: recent_def room_def Cons_nth_drop_Suc [symmetric])
  then have "counts_ok (se_count e) (se_distinct e) (unat ?old # room e)"
    using assms by (simp add: spread_ok_def)
  note ev = counts_evict [OF this]
  define c where "c = se_count e ! unat ?old - 1"
  let ?e1 = "e\<lparr>se_count := (se_count e)[unat ?old := c],
      se_distinct := (if c = 0 then se_distinct e - 1 else se_distinct e)\<rparr>"
  have "evict e = Some ?e1"
    using h ev(2) by (simp add: evict_def elem_at_def Let_def c_def)
  then show thesis using True ev(1) by (intro that [of ?e1]) (simp_all add: c_def)
next
  case False
  then show thesis
    using assms by (intro that [of "e\<lparr>se_filled := se_filled e + 1\<rparr>"]) (simp_all add: room_def spread_ok_def)
qed

lemma observe_ok:
  assumes "spread_ok e" and "0 \<le> region" and "region < se_buckets e"
  obtains e' where "observe e region = Some (int (card (set (recent e'))) * 100 div se_buckets e, e')"
    and "spread_ok e'" and "recent e' = slide (se_window e) (recent e) (nat region)"
    and "se_window e' = se_window e" and "se_buckets e' = se_buckets e"
proof -
  from room_ok [OF assms(1)] obtain e1 where e1:
    "(if se_filled e = se_window e then evict e else Some (e\<lparr>se_filled := se_filled e + 1\<rparr>)) = Some e1"
    "se_ring e1 = se_ring e" "se_head e1 = se_head e" "se_window e1 = se_window e" "se_buckets e1 = se_buckets e"
    "se_filled e1 = (if se_filled e = se_window e then se_window e else se_filled e + 1)"
    "length (se_count e1) = length (se_count e)" "counts_ok (se_count e1) (se_distinct e1) (room e)"
    by blast
  note ok = assms(1) [unfolded spread_ok_def]
  let ?x = "nat region" and ?h = "se_head e"
  let ?v = "word_of_int region :: u8"
  define c where "c = se_count e1 ! ?x"
  define h where "h = (if Suc ?h = se_window e then 0 else Suc ?h)"
  let ?e2 = "e1\<lparr>se_ring := (se_ring e)[?h := ?v]\<rparr>"
  define e' where "e' = (if c = 0 then ?e2\<lparr>se_distinct := se_distinct e1 + 1\<rparr> else ?e2)
      \<lparr>se_count := (se_count e1)[?x := c + 1], se_head := h\<rparr>"
  have x: "?x < length (se_count e1)" "region < 256" using assms ok e1(7) by simp_all
  then have v: "unat ?v = ?x" using assms(2) by (simp add: unsigned_of_int take_bit_int_eq_self)
  have len: "length (room e) < se_window e"
    using assms(1) ok by (auto simp: room_def length_recent)
  have "counts_ok (se_count e') (se_distinct e') (room e @ [?x])"
    using counts_insert [OF e1(8) x(1)] len ok by (cases "c = 0") (simp_all add: e'_def c_def)
  moreover have recent: "recent e' = room e @ [?x]"
  proof -
    have hl: "?h < length (se_ring e)" using ok by simp
    have full: "recent e' = map unat (drop (Suc ?h) (se_ring e) @ take ?h (se_ring e)) @ [?x]"
      if "se_filled e1 = se_window e"
    proof -
      have "recent e' = map unat (drop h ((se_ring e)[?h := ?v]) @ take h ((se_ring e)[?h := ?v]))"
        using that e1(4) by (simp add: recent_def e'_def)
      also have "drop h ((se_ring e)[?h := ?v]) @ take h ((se_ring e)[?h := ?v]) =
          drop (Suc ?h) (se_ring e) @ take ?h (se_ring e) @ [?v]"
        using ok by (intro ring_write [OF hl]) (simp add: h_def)
      finally show ?thesis by (simp add: v)
    qed
    show ?thesis
    proof (cases "se_filled e = se_window e")
      case True
      then show ?thesis using full e1(6) hl by (simp add: room_def recent_def Cons_nth_drop_Suc [symmetric])
    next
      case False
      then have hf: "?h = se_filled e" "se_filled e < se_window e" using ok by auto
      show ?thesis
      proof (cases "Suc ?h = se_window e")
        case True
        with False hf full e1(6) ok show ?thesis by (simp add: room_def recent_def)
      next
        case False
        with hf e1(4,6) ok take_write [OF hl, of ?v] v show ?thesis
          by (simp add: room_def recent_def e'_def h_def)
      qed
    qed
  qed
  ultimately have "spread_ok e'"
    using ok e1 by (auto simp: spread_ok_def e'_def h_def)
  moreover have "recent e' = slide (se_window e) (recent e) ?x"
    using recent assms(1) ok by (auto simp: room_def slide_def length_recent)
  moreover have "observe e region = Some (int (card (set (recent e'))) * 100 div se_buckets e, e')"
  proof -
    have "se_distinct e' = int (card (set (recent e')))"
      using \<open>spread_ok e'\<close> by (simp add: spread_ok_def counts_ok_def)
    then have ratio: "ratioPct e' = Some (int (card (set (recent e'))) * 100 div se_buckets e)"
      using ok e1(5) by (simp add: ratioPct_def quot_pos e'_def)
    have "observe e region = ratioPct e' \<bind> (\<lambda>pct. Some (pct, e'))"
      using e1 ok x assms(2)
      by (cases "c = 0"; cases "Suc ?h = se_window e")
        (simp_all add: observe_def elem_at_def Let_def e'_def h_def flip: c_def)
    then show ?thesis by (simp add: ratio)
  qed
  ultimately show thesis using that e1(4,5) by (simp add: e'_def)
qed

lemma newSpreadEstimator_ok:
  assumes "0 < n" and "n \<le> 20"
  shows "spread_ok (newSpreadEstimator n)" "recent (newSpreadEstimator n) = []"
    "se_buckets (newSpreadEstimator n) = int n"
  using assms by (auto simp: spread_ok_def newSpreadEstimator_def spreadMinSamples_def Let_def counts_ok_def recent_def)

section \<open>Sequences of samples\<close>

text \<open>Feeding a sequence of regions to an estimator.\<close>

fun observe_all :: "spreadEstimator \<Rightarrow> int list \<Rightarrow> spreadEstimator option" where
  "observe_all e [] = Some e"
| "observe_all e (r # rs) = do { (_, e') \<leftarrow> observe e r; observe_all e' rs }"

definition last_n :: "nat \<Rightarrow> 'a list \<Rightarrow> 'a list" where
  "last_n w xs = drop (length xs - w) xs"

lemma slide_last: "0 < w \<Longrightarrow> slide w (last_n w xs) x = last_n w (xs @ [x])"
  by (cases "length xs < w") (auto simp: slide_def last_n_def tl_drop drop_Suc Suc_diff_le)

lemma observe_all_ok:
  assumes "spread_ok e" and "list_all (\<lambda>r. 0 \<le> r \<and> r < se_buckets e) rs"
    and "recent e = last_n (se_window e) xs"
  obtains e' where "observe_all e rs = Some e'" and "spread_ok e'"
    and "recent e' = last_n (se_window e) (xs @ map nat rs)" and "se_buckets e' = se_buckets e"
  using assms
proof (induction rs arbitrary: e xs thesis)
  case Nil
  then show ?case by simp
next
  case (Cons r rs)
  then have r: "0 \<le> r" "r < se_buckets e" by simp_all
  from observe_ok [OF Cons.prems(2) r] obtain pct e1 where e1: "observe e r = Some (pct, e1)" "spread_ok e1"
    "recent e1 = slide (se_window e) (recent e) (nat r)" "se_window e1 = se_window e" "se_buckets e1 = se_buckets e"
    by metis
  have "0 < se_window e" using Cons.prems(2) by (simp add: spread_ok_def)
  then have "recent e1 = last_n (se_window e1) (xs @ [nat r])"
    using e1 Cons.prems(4) by (simp add: slide_last)
  with Cons.IH [of e1 "xs @ [nat r]"] e1 Cons.prems obtain e' where
    "observe_all e1 rs = Some e'" "spread_ok e'"
    "recent e' = last_n (se_window e) (xs @ map nat (r # rs))" "se_buckets e' = se_buckets e"
    by auto
  with e1 show ?case using Cons.prems(1) by simp
qed

section \<open>Bounds of the regions\<close>

text \<open>The reference: which of \<open>n\<close> equal slices of \<open>2 ^ b\<close> values the low \<open>b\<close> bits of \<open>v\<close> are in.\<close>

definition region :: "nat \<Rightarrow> nat \<Rightarrow> nat \<Rightarrow> nat" where
  "region b v n = (v mod 2 ^ b) * n div 2 ^ b"

lemma region_less: "0 < n \<Longrightarrow> region b v n < n"
  unfolding region_def by (rule less_mult_imp_div_less) (simp add: mult.commute)

lemma unat_Mul64_hi: "unat (Mul64_hi x y) = unat x * unat y div 2 ^ 64"
proof -
  have "unat x * unat y < 2 ^ 64 * 2 ^ 64"
    using unsigned_less [of x] unsigned_less [of y] by (intro mult_strict_mono') simp_all
  then have "unat x * unat y div 2 ^ 64 < 2 ^ 64" by (intro less_mult_imp_div_less) simp
  then show ?thesis by (simp add: Mul64_hi_def unat_word_of_nat)
qed

lemma Mul64_region:
  fixes v :: u64
  assumes "0 < b" "b \<le> 64" and "0 < n" "n \<le> 20"
  shows "sint (Mul64_hi (push_bit (64 - b) (take_bit b v)) (word_of_int n)) = int (region b (unat v) (nat n))"
proof -
  let ?p = "push_bit (64 - b) (take_bit b v)"
  have "unat (take_bit b v) = unat v mod 2 ^ b"
    unfolding unsigned_take_bit_eq by (rule take_bit_eq_mod)
  moreover have "(unat v mod 2 ^ b) * 2 ^ (64 - b) < 2 ^ b * 2 ^ (64 - b)" by simp
  then have "(unat v mod 2 ^ b) * 2 ^ (64 - b) < 2 ^ 64" using assms(2) by (simp flip: power_add)
  ultimately have p: "unat ?p = (unat v mod 2 ^ b) * 2 ^ (64 - b)"
    unfolding unsigned_push_bit_eq by (simp add: push_bit_eq_mult [where 'a = nat] take_bit_nat_eq_self)
  have n: "unat (word_of_int n :: u64) = nat n"
    using assms by (simp add: unsigned_of_int take_bit_int_eq_self)
  have "unat (Mul64_hi ?p (word_of_int n)) = region b (unat v) (nat n)"
  proof -
    have "(unat v mod 2 ^ b) * 2 ^ (64 - b) * nat n div 2 ^ 64 =
        (unat v mod 2 ^ b) * nat n * 2 ^ (64 - b) div (2 ^ b * 2 ^ (64 - b))"
      using assms(2) by (simp add: mult.commute mult.left_commute flip: power_add)
    then show ?thesis by (simp add: unat_Mul64_hi p n region_def)
  qed
  moreover have "region b (unat v) (nat n) < nat n" using assms by (intro region_less) simp
  ultimately have "uint (Mul64_hi ?p (word_of_int n)) = int (region b (unat v) (nat n))"
    and "int (region b (unat v) (nat n)) < 2 ^ 63"
    using assms(3,4) by (simp_all add: uint_nat del: of_nat_unat)
  then have "wrap64 (uint (Mul64_hi ?p (word_of_int n))) = int (region b (unat v) (nat n))"
    by (simp add: wrap64_id)
  then show ?thesis by (simp add: wrap64_def)
qed

lemma ipRegion_v4:
  assumes "0 \<le> m" "m < 32" and "0 < n" "n \<le> 20"
  shows "ipRegion (Addr4 x) False m n = Some (int (region (nat (32 - m)) (unat x) (nat n)))"
proof -
  have "nat (64 - (32 - m)) = 64 - nat (32 - m)" using assms by linarith
  then have "ipRegion (Addr4 x) False m n =
      Some (sint (Mul64_hi (push_bit (64 - nat (32 - m)) (take_bit (nat (32 - m)) (ucast x :: u64))) (word_of_int n)))"
    using assms by (simp add: ipRegion_def addr_IsValid_def lsl64_def Let_def take_bit_eq_mask mask_eq_exp_minus_1 push_bit_eq_mult)
  then show ?thesis
    using Mul64_region [of "nat (32 - m)" n "ucast x"] assms by (simp add: unat_ucast_up)
qed

text \<open>
  The varying part of an IPv6 address is its low \<open>128 - m\<close> bits; of these only the top 64 are
  used when there are more.
\<close>

lemma ipRegion_v6:
  assumes "0 \<le> m" "m < 128" and "0 < n" "n \<le> 20"
  shows "ipRegion (Addr6 x) True m n =
    Some (int (region (nat (min 64 (128 - m))) (unat (drop_bit (nat (max 0 (64 - m))) x)) (nat n)))"
proof (cases "m < 64")
  case True
  let ?k = "nat (64 - m)"
  let ?hi = "ucast (drop_bit 64 x) :: u64" and ?lo = "ucast x :: u64"
  have k: "0 < ?k" "?k \<le> 64" "nat m = 64 - ?k" using assms True by simp_all
  have lj: "push_bit (nat m) ?hi OR drop_bit ?k ?lo = ucast (drop_bit ?k x)"
    by (rule bit_word_eqI) (use k in \<open>auto simp: bit_simps ac_simps\<close>)
  have "drop_bit ?k ?lo = 0" if "m = 0"
    by (rule bit_word_eqI) (simp add: that bit_simps)
  with lj have "ipRegion (Addr6 x) True m n = Some (sint (Mul64_hi (ucast (drop_bit ?k x)) (word_of_int n)))"
    using True assms by (auto simp: ipRegion_def addr_IsValid_def lsl64_def lsr64_def Let_def)
  moreover have "take_bit 64 (ucast (drop_bit ?k x) :: u64) = ucast (drop_bit ?k x)"
    by (rule bit_word_eqI) (simp add: bit_take_bit_iff)
  ultimately have "ipRegion (Addr6 x) True m n = Some (int (region 64 (unat (ucast (drop_bit ?k x) :: u64)) (nat n)))"
    using Mul64_region [of 64 n "ucast (drop_bit ?k x)"] assms by simp
  moreover have "unat (ucast (drop_bit ?k x) :: u64) = unat (drop_bit ?k x) mod 2 ^ 64"
    unfolding unsigned_ucast_eq by (simp add: take_bit_eq_mod)
  ultimately show ?thesis using True by (simp add: region_def)
next
  case False
  let ?b = "nat (128 - m)"
  have b: "nat (64 - (128 - m)) = 64 - ?b" "0 < ?b" "?b \<le> 64" using assms False by linarith+
  then have "ipRegion (Addr6 x) True m n =
      Some (sint (Mul64_hi (push_bit (64 - ?b) (take_bit ?b (ucast x :: u64))) (word_of_int n)))"
    using assms False
    by (simp add: ipRegion_def addr_IsValid_def lsl64_def Let_def take_bit_eq_mask mask_eq_exp_minus_1 push_bit_eq_mult)
  moreover have "(2 :: nat) ^ ?b dvd 2 ^ 64" using b(3) by (rule le_imp_power_dvd)
  then have "unat (ucast x :: u64) mod 2 ^ ?b = unat x mod 2 ^ ?b"
    unfolding unsigned_ucast_eq by (simp add: take_bit_eq_mod mod_mod_cancel del: power_numeral)
  ultimately show ?thesis
    using Mul64_region [of ?b n "ucast x"] assms False b by (simp add: region_def)
qed

lemma portRegion_ok:
  assumes "0 < n" "n \<le> 20" and "n \<le> int (unat sz)" and "int (unat sz) \<le> n \<or> n = 20"
  shows "\<exists>k. portRegion p lo sz md n = Some k \<and> 0 \<le> k \<and> k < n"
proof -
  define v where "v = (if md then ucast p mod sz
      else let w = (if ucast p < lo then lo else ucast p) - lo in if w \<ge> sz then sz - 1 else w)"
  have "0 < int (unat sz)" using assms(1,3) by linarith
  then have sz: "sz \<noteq> 0" "0 < unat sz" by (auto simp: unat_gt_0)
  then have v: "unat v < unat sz"
    unfolding v_def Let_def by (auto simp: unat_mod not_le word_less_nat_alt unat_minus_one)
  have n: "unat (word_of_int n :: u32) = nat n" "unat (word_of_int n :: u64) = nat n"
    using assms by (simp_all add: unsigned_of_int take_bit_int_eq_self)
  have small: "sz \<le> word_of_int n \<longleftrightarrow> unat sz \<le> nat n" by (simp add: word_le_nat_alt n)
  have eq: "portRegion p lo sz md n =
      (if unat sz \<le> nat n then Some (int (unat v)) else Some (sint (ucast v * word_of_int n div ucast sz :: u64)))"
    using sz by (auto simp: portRegion_def small v_def Let_def)
  show ?thesis
  proof (cases "unat sz \<le> nat n")
    case True
    then have "portRegion p lo sz md n = Some (int (unat v))" by (simp add: eq del: of_nat_unat)
    moreover have "int (unat v) < n" using True v assms(1) by linarith
    ultimately show ?thesis by (metis of_nat_0_le_iff)
  next
    case False
    let ?q = "ucast v * word_of_int n div ucast sz :: u64"
    have "unat v < 2 ^ 32" using unsigned_less [of v] by simp
    then have "unat v * nat n < 2 ^ 32 * 21" using assms by (intro mult_strict_mono') auto
    then have "unat (ucast v * word_of_int n :: u64) = unat v * nat n"
      by (simp add: unat_word_ariths n unat_ucast_up)
    then have q: "unat ?q = unat v * nat n div unat sz"
      by (simp add: unat_div unat_ucast_up)
    have "unat v * nat n < nat n * unat sz" using v assms(1) by (simp add: mult.commute)
    then have "unat ?q < nat n" unfolding q by (intro less_mult_imp_div_less) simp
    moreover have "uint ?q = int (unat ?q)" by simp
    ultimately have "uint ?q < n" using assms(1) by linarith
    moreover from this have "uint ?q < 2 ^ 63" using assms(2) by simp
    moreover from calculation have "sint ?q = uint ?q" using wrap64_id [of "uint ?q"] uint_ge_0 [of ?q] by (simp add: wrap64_def)
    ultimately show ?thesis using eq False by simp
  qed
qed

section \<open>The estimator is a sliding window\<close>

text \<open>
  C20: The constant-time estimator implements its specification. After any sequence of regions
  it has not panicked, its eight-bit counters have not overflowed, and its percentage is the
  share of the regions that occur among the most recent samples, as many as the window holds.
\<close>

theorem spread_window_exact:
  assumes "0 < n" and "n \<le> 20" and "list_all (\<lambda>r. 0 \<le> r \<and> r < int n) rs"
  shows "do { e \<leftarrow> observe_all (newSpreadEstimator n) rs; ratioPct e } =
    Some (int (card (set (last_n (max 16 n) rs))) * 100 div int n)"
proof -
  note new = newSpreadEstimator_ok [OF assms(1,2)]
  have w: "se_window (newSpreadEstimator n) = max 16 n"
    by (simp add: newSpreadEstimator_def Let_def spreadMinSamples_def)
  from observe_all_ok [OF new(1), of rs "[]"] new assms(3) obtain e where e:
    "observe_all (newSpreadEstimator n) rs = Some e" "spread_ok e"
    "recent e = last_n (max 16 n) (map nat rs)" "se_buckets e = int n"
    by (auto simp: w last_n_def)
  have "set (last_n (max 16 n) rs) \<subseteq> {0..}"
    using assms(3) set_drop_subset unfolding last_n_def list_all_iff by fastforce
  then have "inj_on nat (set (last_n (max 16 n) rs))"
    by (meson atLeast_iff eq_nat_nat_iff inj_onI subsetD)
  moreover have "set (recent e) = nat ` set (last_n (max 16 n) rs)"
    unfolding e(3) by (simp add: last_n_def drop_map)
  ultimately have "card (set (recent e)) = card (set (last_n (max 16 n) rs))"
    by (simp add: card_image)
  with e assms(1) show ?thesis by (simp add: ratioPct_def spread_ok_def counts_ok_def quot_pos)
qed

text \<open>Four regions: seventeen samples push the first out of the window of sixteen.\<close>

theorem spread_window_exact_witness:
  "do { e \<leftarrow> observe_all (newSpreadEstimator 4) (3 # replicate 15 0 @ [1]); ratioPct e } = Some 50"
proof -
  have "last_n (max 16 4) (3 # replicate 15 0 @ [1 :: int]) = replicate 15 0 @ [1]"
    by (simp add: last_n_def)
  then show ?thesis
    using spread_window_exact [of 4 "3 # replicate 15 0 @ [1]"] by (simp add: list_all_iff insert_commute)
qed

end
