(* ===== verification/HeavyKeeper.thy ===== *)
theory HeavyKeeper
  imports DetTypes "HOL-Library.Monad_Syntax"
begin

text \<open>
  The admission sketch of package \<^verbatim>\<open>internal/detector\<close> (heavykeeper.go): rows of buckets, each
  with a fingerprint and a weight. A colliding key decays the occupant with a probability that
  falls with its weight, drawn from a private xorshift generator that is part of the state.
  \<open>None\<close> is an index out of range. The property is that a sketch never attributes more weight
  to a key than was added for it.
\<close>

unbundle bit_operations_syntax

section \<open>The sketch\<close>

definition sketchDepth :: int where "sketchDepth = 4"
definition sketchHalfLife :: duration where "sketchHalfLife = 30 * second"

definition sketchWidth :: "int \<Rightarrow> int" where
  "sketchWidth maxInstances = (let w = wrap64 (16 * maxInstances) in if w < 1024 then 1024 else w)"

record 'f hkBucket =
  hb_fp :: u64
  hb_count :: 'f

record 'f heavyKeeper =
  hk_depth :: nat
  hk_width :: nat
  hk_decay :: 'f
  hk_buckets :: "'f hkBucket list list"
  hk_rng :: u64

definition hb_zero :: "'f float_ops \<Rightarrow> 'f hkBucket" where
  "hb_zero F = \<lparr>hb_fp = 0, hb_count = f_zero F\<rparr>"

definition newHeavyKeeper :: "'f float_ops \<Rightarrow> int \<Rightarrow> int \<Rightarrow> 'f \<Rightarrow> 'f heavyKeeper" where
  "newHeavyKeeper F width depth decay =
     (let w = nat (if width < 1 then 1 else width); d = nat (if depth < 1 then 1 else depth)
      in \<lparr>hk_depth = d, hk_width = w, hk_decay = decay,
          hk_buckets = replicate d (replicate w (hb_zero F)), hk_rng = 0x2545F4914F6CDD1D\<rparr>)"

definition hk_index :: "nat \<Rightarrow> u64 \<Rightarrow> nat \<Rightarrow> nat option" where
  "hk_index width key i =
     (if width = 0 then None
      else
        let x = key XOR (of_nat (i + 1) * 0x9E3779B97F4A7C15);
            x = x XOR drop_bit 33 x;
            x = x * 0xFF51AFD7ED558CCD;
            x = x XOR drop_bit 33 x
        in Some (unat x mod width))"

text \<open>The generator and a draw: the value and the new state.\<close>

definition rngFloat :: "'f float_ops \<Rightarrow> u64 \<Rightarrow> 'f \<times> u64" where
  "rngFloat F rng =
     (let r = rng XOR push_bit 13 rng; r = r XOR drop_bit 7 r; r = r XOR push_bit 17 r
      in (f_div F (f_of_u64 F (drop_bit 11 r)) (f_of_u64 F (push_bit 53 1)), r))"

definition decayHits :: "'f float_ops \<Rightarrow> 'f \<Rightarrow> 'f \<Rightarrow> u64 \<Rightarrow> bool \<times> u64" where
  "decayHits F decay count rng =
     (let p = f_pow F decay (f_neg F count)
      in if f_le F p (f_zero F) then (False, rng)
         else if f_le F (f_of_int F 1) p then (True, rng)
         else let (x, rng') = rngFloat F rng in (f_less F x p, rng'))"

text \<open>One bucket of \<^verbatim>\<open>add\<close>.\<close>

definition add_bucket :: "'f float_ops \<Rightarrow> 'f \<Rightarrow> u64 \<Rightarrow> 'f \<Rightarrow> 'f hkBucket \<Rightarrow> u64 \<Rightarrow> 'f hkBucket \<times> u64" where
  "add_bucket F decay key weight b rng =
     (if f_le F (hb_count b) (f_zero F) then (\<lparr>hb_fp = key, hb_count = weight\<rparr>, rng)
      else if hb_fp b = key then (b\<lparr>hb_count := f_add F (hb_count b) weight\<rparr>, rng)
      else
        let (hit, rng') = decayHits F decay (hb_count b) rng; c = f_sub F (hb_count b) weight
        in (if \<not> hit then b
            else if f_less F c (f_zero F) then \<lparr>hb_fp = key, hb_count = f_neg F c\<rparr>
            else if f_eq F c (f_zero F) then hb_zero F
            else b\<lparr>hb_count := c\<rparr>, rng'))"

definition add_row :: "'f float_ops \<Rightarrow> u64 \<Rightarrow> 'f \<Rightarrow> nat \<Rightarrow> 'f heavyKeeper \<Rightarrow> 'f heavyKeeper option" where
  "add_row F key weight i h = do {
     row \<leftarrow> elem_at (hk_buckets h) i;
     j \<leftarrow> hk_index (hk_width h) key i;
     b \<leftarrow> elem_at row j;
     let (b', rng) = add_bucket F (hk_decay h) key weight b (hk_rng h);
     Some (h\<lparr>hk_buckets := (hk_buckets h)[i := row[j := b']], hk_rng := rng\<rparr>)
   }"

fun add_rows :: "'f float_ops \<Rightarrow> u64 \<Rightarrow> 'f \<Rightarrow> nat list \<Rightarrow> 'f heavyKeeper \<Rightarrow> 'f heavyKeeper option" where
  "add_rows F key weight [] h = Some h"
| "add_rows F key weight (i # is) h = do { h' \<leftarrow> add_row F key weight i h; add_rows F key weight is h' }"

definition hk_add :: "'f float_ops \<Rightarrow> 'f heavyKeeper \<Rightarrow> u64 \<Rightarrow> 'f \<Rightarrow> 'f heavyKeeper option" where
  "hk_add F h key weight = add_rows F key weight [0..<hk_depth h] h"

fun est_rows :: "'f float_ops \<Rightarrow> 'f heavyKeeper \<Rightarrow> u64 \<Rightarrow> nat list \<Rightarrow> 'f \<Rightarrow> 'f option" where
  "est_rows F h key [] best = Some best"
| "est_rows F h key (i # is) best = do {
     row \<leftarrow> elem_at (hk_buckets h) i;
     j \<leftarrow> hk_index (hk_width h) key i;
     b \<leftarrow> elem_at row j;
     est_rows F h key is (if hb_fp b = key \<and> f_less F best (hb_count b) then hb_count b else best)
   }"

definition estimate :: "'f float_ops \<Rightarrow> 'f heavyKeeper \<Rightarrow> u64 \<Rightarrow> 'f option" where
  "estimate F h key = est_rows F h key [0..<hk_depth h] (f_zero F)"

definition decay_bucket :: "'f float_ops \<Rightarrow> 'f \<Rightarrow> 'f hkBucket \<Rightarrow> 'f hkBucket" where
  "decay_bucket F factor b =
     (if f_eq F (hb_count b) (f_zero F) then b
      else
        let c = f_mul F (hb_count b) factor
        in if f_less F c (f_of_int F 1) then hb_zero F else b\<lparr>hb_count := c\<rparr>)"

definition decayAll :: "'f float_ops \<Rightarrow> 'f heavyKeeper \<Rightarrow> 'f \<Rightarrow> 'f heavyKeeper" where
  "decayAll F h factor =
     (if f_le F factor (f_zero F) \<or> f_le F (f_of_int F 1) factor then h
      else h\<lparr>hk_buckets := map (map (decay_bucket F factor)) (hk_buckets h)\<rparr>)"

section \<open>Shape\<close>

text \<open>Every row has the width and there is a row per level: no index is out of range.\<close>

definition hk_shape :: "'f heavyKeeper \<Rightarrow> bool" where
  "hk_shape h \<longleftrightarrow> 0 < hk_width h \<and> length (hk_buckets h) = hk_depth h \<and>
     list_all (\<lambda>row. length row = hk_width h) (hk_buckets h)"

lemma newHeavyKeeper_shape: "hk_shape (newHeavyKeeper F width depth decay)"
  by (simp add: hk_shape_def newHeavyKeeper_def Let_def list_all_iff)

lemma hk_index_less: "0 < w \<Longrightarrow> \<exists>j. hk_index w key i = Some j \<and> j < w"
  by (simp add: hk_index_def Let_def)

lemma shape_row: "hk_shape h \<Longrightarrow> i < hk_depth h \<Longrightarrow> length (hk_buckets h ! i) = hk_width h"
  by (simp add: hk_shape_def list_all_length)

text \<open>What \<open>add_row\<close> does: one bucket, found in range, is replaced.\<close>

lemma add_row_eq:
  assumes "hk_shape h" and "i < hk_depth h"
  obtains j b' rng where "hk_index (hk_width h) key i = Some j" and "j < hk_width h"
    and "add_bucket F (hk_decay h) key weight (hk_buckets h ! i ! j) (hk_rng h) = (b', rng)"
    and "add_row F key weight i h =
           Some (h\<lparr>hk_buckets := (hk_buckets h)[i := (hk_buckets h ! i)[j := b']], hk_rng := rng\<rparr>)"
proof -
  from assms have w: "0 < hk_width h" "i < length (hk_buckets h)" by (auto simp: hk_shape_def)
  obtain j where j: "hk_index (hk_width h) key i = Some j" "j < hk_width h"
    using hk_index_less [OF w(1)] by blast
  obtain b' rng where b: "add_bucket F (hk_decay h) key weight (hk_buckets h ! i ! j) (hk_rng h) = (b', rng)"
    by fastforce
  show thesis
    by (rule that [OF j b]) (use w j b shape_row [OF assms] in \<open>simp add: add_row_def elem_at_def\<close>)
qed

lemma add_row_shape:
  assumes "hk_shape h" and "i < hk_depth h"
  shows "\<exists>h'. add_row F key weight i h = Some h' \<and> hk_shape h' \<and> hk_depth h' = hk_depth h"
proof -
  obtain j b' rng where "add_row F key weight i h =
      Some (h\<lparr>hk_buckets := (hk_buckets h)[i := (hk_buckets h ! i)[j := b']], hk_rng := rng\<rparr>)"
    by (rule add_row_eq [OF assms, of key F weight])
  with assms shape_row [OF assms] show ?thesis
    by (auto simp: hk_shape_def list_all_length nth_list_update)
qed

section \<open>The sketch never overestimates\<close>

text \<open>Operations on a sketch, in the order of the detector, and the weight added for a key.\<close>

datatype 'f hk_op = HkAdd u64 'f | HkDecay 'f

fun hk_run :: "'f float_ops \<Rightarrow> 'f heavyKeeper \<Rightarrow> 'f hk_op list \<Rightarrow> 'f heavyKeeper option" where
  "hk_run F h [] = Some h"
| "hk_run F h (HkAdd key weight # ops) = do { h' \<leftarrow> hk_add F h key weight; hk_run F h' ops }"
| "hk_run F h (HkDecay factor # ops) = hk_run F (decayAll F h factor) ops"

definition added :: "'f float_ops \<Rightarrow> u64 \<Rightarrow> 'f \<Rightarrow> 'f hk_op \<Rightarrow> 'f" where
  "added F key t opr = (case opr of HkAdd k w \<Rightarrow> if k = key then f_add F t w else t | HkDecay q \<Rightarrow> t)"

definition total_weight :: "'f float_ops \<Rightarrow> u64 \<Rightarrow> 'f hk_op list \<Rightarrow> 'f" where
  "total_weight F key ops = foldl (added F key) (f_zero F) ops"

definition op_ok :: "'f float_ops \<Rightarrow> 'f hk_op \<Rightarrow> bool" where
  "op_ok F opr = (case opr of HkAdd k w \<Rightarrow> f_le F (f_zero F) w | HkDecay q \<Rightarrow> True)"

text \<open>A bucket within the totals of the keys: not negative, at most the total of its key.\<close>

definition bucket_le :: "'f float_ops \<Rightarrow> (u64 \<Rightarrow> 'f) \<Rightarrow> 'f hkBucket \<Rightarrow> bool" where
  "bucket_le F T b \<longleftrightarrow> f_le F (f_zero F) (hb_count b) \<and> f_le F (hb_count b) (T (hb_fp b))"

definition sketch_le :: "'f float_ops \<Rightarrow> (u64 \<Rightarrow> 'f) \<Rightarrow> 'f heavyKeeper \<Rightarrow> bool" where
  "sketch_le F T h \<longleftrightarrow> list_all (list_all (bucket_le F T)) (hk_buckets h)"

context float_laws
begin

lemma bucket_le_mono:
  "bucket_le F T b \<Longrightarrow> (\<And>k. f_le F (T k) (T' k)) \<Longrightarrow> bucket_le F T' b"
  using le_trans by (auto simp: bucket_le_def)

lemma bucket_le_zero: "(\<And>k. f_le F (f_zero F) (T k)) \<Longrightarrow> bucket_le F T (hb_zero F)"
  using le_refl by (simp add: bucket_le_def hb_zero_def)

text \<open>A bucket after an addition, against the totals that count it.\<close>

lemma add_bucket_le:
  assumes b: "bucket_le F T b" and pos: "\<And>k. f_le F (f_zero F) (T k)" and w: "f_le F (f_zero F) weight"
  shows "bucket_le F (T(key := f_add F (T key) weight)) (fst (add_bucket F decay key weight b rng))"
proof -
  let ?T = "T(key := f_add F (T key) weight)" and ?c = "f_sub F (hb_count b) weight"
  have w_le: "f_le F weight (?T key)" using add_nonneg [OF pos w] by simp
  have T_pos: "f_le F (f_zero F) (?T k)" for k
    using pos le_trans [OF w] w_le by (cases "k = key") simp_all
  have bT: "bucket_le F ?T b"
    using bucket_le_mono [OF b, of ?T] add_grows [OF w] le_refl by auto
  then have c_pos: "f_le F (f_zero F) (hb_count b)" by (simp add: bucket_le_def)
  consider (free) "f_le F (hb_count b) (f_zero F)" | (own) "\<not> f_le F (hb_count b) (f_zero F)" "hb_fp b = key"
    | (other) "\<not> f_le F (hb_count b) (f_zero F)" "hb_fp b \<noteq> key" by blast
  then show ?thesis
  proof cases
    case free
    then show ?thesis using w w_le by (simp add: add_bucket_def bucket_le_def)
  next
    case own
    with b have "f_le F (hb_count b) (T key)" by (simp add: bucket_le_def)
    from add_mono [OF this] show ?thesis
      using own le_trans [OF c_pos add_grows [OF w]] by (simp add: add_bucket_def bucket_le_def)
  next
    case other
    have "bucket_le F ?T \<lparr>hb_fp = key, hb_count = f_neg F ?c\<rparr>" if "f_less F ?c (f_zero F)"
      using less_le [OF neg_less [OF that]] le_trans [OF neg_sub_le [OF c_pos] w_le] by (simp add: bucket_le_def)
    moreover have "bucket_le F ?T (b\<lparr>hb_count := ?c\<rparr>)" if "\<not> f_less F ?c (f_zero F)"
      using that bT le_trans [OF sub_le [OF w]] by (auto simp: bucket_le_def not_less)
    ultimately show ?thesis
      using other bT bucket_le_zero [of ?T, OF T_pos]
      by (auto simp: add_bucket_def Let_def split: prod.splits)
  qed
qed

text \<open>The rows before \<open>i\<close> are within the new totals, the others within the old ones.\<close>

lemma add_rows_le:
  assumes "hk_shape h" and "i \<le> hk_depth h"
    and pos: "\<And>k. f_le F (f_zero F) (T k)" and w: "f_le F (f_zero F) weight"
    and T': "T' = T(key := f_add F (T key) weight)"
    and rows: "\<And>r. r < hk_depth h \<Longrightarrow> list_all (bucket_le F (if r < i then T' else T)) (hk_buckets h ! r)"
  shows "\<exists>h'. add_rows F key weight [i..<hk_depth h] h = Some h' \<and> hk_shape h' \<and> sketch_le F T' h'"
  using assms(1,2) rows
proof (induction "hk_depth h - i" arbitrary: i h)
  case 0
  then have "sketch_le F T' h" by (auto simp: sketch_le_def list_all_length hk_shape_def)
  with 0 show ?case by simp
next
  case (Suc n)
  then have i: "i < hk_depth h" by simp
  let ?d = "hk_depth h" and ?row = "hk_buckets h ! i"
  obtain j b' rng where j: "j < hk_width h"
    and b': "add_bucket F (hk_decay h) key weight (?row ! j) (hk_rng h) = (b', rng)"
    and eq: "add_row F key weight i h = Some (h\<lparr>hk_buckets := (hk_buckets h)[i := ?row[j := b']], hk_rng := rng\<rparr>)"
    by (rule add_row_eq [OF Suc.prems(1) i, of key F weight])
  let ?h = "h\<lparr>hk_buckets := (hk_buckets h)[i := ?row[j := b']], hk_rng := rng\<rparr>"
  have shape: "hk_shape ?h" using add_row_shape [OF Suc.prems(1) i, of F key weight] eq by simp
  have len: "length ?row = hk_width h" "i < length (hk_buckets h)"
    using shape_row [OF Suc.prems(1) i] Suc.prems(1) i by (simp_all add: hk_shape_def)
  have old: "list_all (bucket_le F T) ?row" using Suc.prems(3) [OF i] by simp
  have "bucket_le F T' b'"
    using add_bucket_le [where T = T and b = "?row ! j" and key = key and decay = "hk_decay h" and rng = "hk_rng h", OF _ pos w] old j len b' T' by (simp add: list_all_length)
  moreover have "bucket_le F T' b" if "b \<in> set ?row" for b
    using that old bucket_le_mono [of T b T'] add_grows [OF w] le_refl T' by (auto simp: list_all_iff)
  ultimately have new: "list_all (bucket_le F T') (?row[j := b'])"
    by (auto simp: list_all_iff dest!: set_update_subset_insert [THEN subsetD])
  have "\<exists>h'. add_rows F key weight [Suc i..<hk_depth ?h] ?h = Some h' \<and> hk_shape h' \<and> sketch_le F T' h'"
  proof (rule Suc.hyps(1) [OF _ shape])
    fix r assume "r < hk_depth ?h"
    then show "list_all (bucket_le F (if r < Suc i then T' else T)) (hk_buckets ?h ! r)"
      using Suc.prems(3) [of r] new len(2) by (cases "r = i") (simp_all add: less_Suc_eq split: if_splits)
  qed (use Suc.hyps(2) i in simp_all)
  with eq show ?case by (simp add: upt_conv_Cons [OF i])
qed

lemma decay_bucket_le:
  "bucket_le F T b \<Longrightarrow> (\<And>k. f_le F (f_zero F) (T k)) \<Longrightarrow> f_less F (f_zero F) q \<Longrightarrow> f_less F q (f_of_int F 1) \<Longrightarrow>
   bucket_le F T (decay_bucket F q b)"
  using bucket_le_zero [of T] le_trans [OF mul_le, of "hb_count b" q "T (hb_fp b)"]
    le_trans [OF less_le [OF one_pos]]
  by (auto simp: decay_bucket_def Let_def bucket_le_def not_less)

lemma decayAll_le:
  assumes "sketch_le F T h" and "\<And>k. f_le F (f_zero F) (T k)"
  shows "sketch_le F T (decayAll F h q)"
  using assms decay_bucket_le [where T = T and q = q, OF _ assms(2)]
  by (auto simp: sketch_le_def decayAll_def list_all_iff not_less less_not_le)

lemma total_pos: "op_ok F opr \<Longrightarrow> f_le F (f_zero F) t \<Longrightarrow> f_le F (f_zero F) (added F key t opr)"
  using le_trans [OF _ add_grows] by (auto simp: op_ok_def added_def split: hk_op.splits)

text \<open>A run of a sketch stays within the totals and never panics.\<close>

lemma hk_run_le:
  "hk_shape h \<Longrightarrow> (\<And>k. f_le F (f_zero F) (T k)) \<Longrightarrow> list_all (op_ok F) ops \<Longrightarrow> sketch_le F T h \<Longrightarrow>
   \<exists>h'. hk_run F h ops = Some h' \<and> hk_shape h' \<and> sketch_le F (\<lambda>k. foldl (added F k) (T k) ops) h'"
proof (induction ops arbitrary: h T)
  case (Cons opr ops)
  show ?case
  proof (cases opr)
    case (HkAdd key w)
    let ?T = "T(key := f_add F (T key) w)"
    have w: "f_le F (f_zero F) w" using Cons.prems(3) HkAdd by (simp add: op_ok_def)
    obtain h1 where h1: "hk_add F h key w = Some h1" "hk_shape h1" "sketch_le F ?T h1"
    proof -
      have "list_all (bucket_le F (if r < 0 then ?T else T)) (hk_buckets h ! r)" if "r < hk_depth h" for r
        using that Cons.prems(1,4) by (simp add: sketch_le_def hk_shape_def list_all_length)
      from add_rows_le [OF Cons.prems(1) le0 Cons.prems(2) w refl this] that show thesis
        unfolding hk_add_def by blast
    qed
    have "f_le F (f_zero F) (?T k)" for k
      using le_trans [OF Cons.prems(2) add_grows [OF w]] Cons.prems(2) by simp
    from Cons.IH [OF h1(2) this _ h1(3)] Cons.prems(3)
    have "\<exists>h'. hk_run F h1 ops = Some h' \<and> hk_shape h' \<and> sketch_le F (\<lambda>k. foldl (added F k) (?T k) ops) h'" by simp
    moreover have "(\<lambda>k. foldl (added F k) (?T k) ops) = (\<lambda>k. foldl (added F k) (T k) (opr # ops))"
      by (auto simp: HkAdd added_def fun_eq_iff)
    ultimately show ?thesis using h1(1) HkAdd by simp
  next
    case (HkDecay q)
    have "hk_shape (decayAll F h q)"
      using Cons.prems(1) by (auto simp: hk_shape_def decayAll_def list_all_length)
    from Cons.IH [OF this Cons.prems(2) _ decayAll_le [OF Cons.prems(4,2)]] Cons.prems(3) HkDecay
    show ?thesis by (simp add: added_def)
  qed
qed simp

lemma est_rows_le:
  assumes "hk_shape h" and "sketch_le F T h" and "set is \<subseteq> {..<hk_depth h}" and "f_le F best (T key)"
  shows "\<exists>e. est_rows F h key is best = Some e \<and> f_le F e (T key)"
  using assms(3,4)
proof (induction "is" arbitrary: best)
  case (Cons i "is")
  then have i: "i < hk_depth h" by simp
  from assms(1) i have w: "0 < hk_width h" "i < length (hk_buckets h)" by (auto simp: hk_shape_def)
  obtain j where j: "hk_index (hk_width h) key i = Some j" "j < hk_width h"
    using hk_index_less [OF w(1)] by blast
  let ?b = "hk_buckets h ! i ! j"
  have "bucket_le F T ?b"
    using assms(2) j w shape_row [OF assms(1) i] by (simp add: sketch_le_def list_all_length)
  then have "f_le F (if hb_fp ?b = key \<and> f_less F best (hb_count ?b) then hb_count ?b else best) (T key)"
    using Cons.prems(2) by (auto simp: bucket_le_def)
  from Cons.IH [OF _ this] Cons.prems(1) show ?case
    using j w shape_row [OF assms(1) i] by (simp add: elem_at_def)
qed simp

lemma hk_never_overestimates:
  assumes "list_all (op_ok F) ops"
  shows "\<exists>h e. hk_run F (newHeavyKeeper F width depth decay) ops = Some h \<and>
               estimate F h key = Some e \<and> f_le F e (total_weight F key ops)"
proof -
  let ?h = "newHeavyKeeper F width depth decay"
  have "sketch_le F (\<lambda>k. f_zero F) ?h"
    using le_refl by (auto simp: sketch_le_def newHeavyKeeper_def Let_def list_all_iff bucket_le_def hb_zero_def)
  from hk_run_le [OF newHeavyKeeper_shape le_refl assms this]
  obtain h where h: "hk_run F ?h ops = Some h" "hk_shape h" "sketch_le F (\<lambda>k. total_weight F k ops) h"
    unfolding total_weight_def by blast
  have "f_le F (f_zero F) t \<Longrightarrow> list_all (op_ok F) xs \<Longrightarrow> f_le F (f_zero F) (foldl (added F key) t xs)" for t xs
    by (induction xs arbitrary: t) (simp_all add: total_pos)
  from this [OF le_refl assms] have "f_le F (f_zero F) (total_weight F key ops)" by (simp add: total_weight_def)
  moreover have "set [0..<hk_depth h] \<subseteq> {..<hk_depth h}" by auto
  ultimately show ?thesis
    using est_rows_le [OF h(2,3)] h(1) unfolding estimate_def by blast
qed

end

text \<open>
  C26: Whatever samples and decays a new sketch sees, in whatever order, no access is out of range
  and the weight it attributes to a key is at most the sum of the weights added for that key: a
  collision can only lower an estimate.
\<close>

theorem sketch_never_overestimates:
  assumes "float_laws F" and "list_all (op_ok F) ops"
  shows "\<exists>h e. hk_run F (newHeavyKeeper F width depth decay) ops = Some h \<and>
               estimate F h key = Some e \<and> f_le F e (total_weight F key ops)"
  using assms by (rule float_laws.hk_never_overestimates)

theorem sketch_never_overestimates_witness:
  "\<exists>h e. hk_run real_ops (newHeavyKeeper real_ops 2 4 (108 / 100)) [HkAdd 7 3, HkAdd 9 5, HkDecay (1 / 2), HkAdd 7 1] = Some h \<and>
         estimate real_ops h 7 = Some e \<and> e \<le> 4"
  using sketch_never_overestimates [OF real_laws.float_laws_axioms,
      of "[HkAdd 7 3, HkAdd 9 5, HkDecay (1 / 2), HkAdd 7 1]" 2 4 "108 / 100" 7]
  by (simp add: op_ok_def total_weight_def added_def real_ops_def)

end
