(* ===== verification/Instances.thy ===== *)
theory Instances
  imports HistoryRings HeavyKeeper Spread
begin

text \<open>
  The bounded pool of instances of a detection rule (store.go): an instance holds the rings of
  one descriptor, and the pool admits a new descriptor while there is room, or in place of the
  weakest of a sample of its instances when the sketch ranks the newcomer higher. An instance is
  a value here; the code that changes an instance it got from the pool writes it back.
\<close>

section \<open>Instances\<close>

record inst =
  in_key :: descriptor
  in_keyHash :: u64
  in_fine :: sampleRing
  in_medium :: "sampleRing option"
  in_coarse :: "sampleRing option"
  in_lastSeen :: gotime
  in_lastEvent :: gotime
  in_trueSince :: gotime
  in_lastIngressIf :: string
  in_spread :: "spreadEstimator list option"

definition newInstance :: "descriptor \<Rightarrow> historySpec \<Rightarrow> gotime \<Rightarrow> inst" where
  "newInstance key h now =
     \<lparr>in_key = key, in_keyHash = descriptor_hash key,
      in_fine = newSampleRing (nat (h_fineSlots h)) (h_fineResolution h),
      in_medium = newOptionalSampleRing (h_mediumSlots h) (h_mediumResolution h),
      in_coarse = newOptionalSampleRing (h_coarseSlots h) (h_coarseResolution h),
      in_lastSeen = now, in_lastEvent = Time_zero, in_trueSince = Time_zero, in_lastIngressIf = '''',
      in_spread = None\<rparr>"

text \<open>Adding to a ring that may be absent.\<close>

definition add_optional :: "sampleRing option \<Rightarrow> gotime \<Rightarrow> u16 \<Rightarrow> u64 \<Rightarrow> sampleRing option option" where
  "add_optional r t packetLen weight =
     (case r of None \<Rightarrow> Some None | Some x \<Rightarrow> map_option Some (ring_add x t packetLen weight))"

definition inst_add :: "inst \<Rightarrow> gotime \<Rightarrow> u16 \<Rightarrow> u64 \<Rightarrow> inst option" where
  "inst_add i t packetLen weight = do {
     fine \<leftarrow> ring_add (in_fine i) t packetLen weight;
     medium \<leftarrow> add_optional (in_medium i) t packetLen weight;
     coarse \<leftarrow> add_optional (in_coarse i) t packetLen weight;
     Some (i\<lparr>in_fine := fine, in_medium := medium, in_coarse := coarse, in_lastSeen := t\<rparr>)
   }"

fun ringFor :: "inst \<Rightarrow> ringKind \<Rightarrow> sampleRing option" where
  "ringFor i ringMedium = in_medium i"
| "ringFor i ringCoarse = in_coarse i"
| "ringFor i ringFine = Some (in_fine i)"

definition shouldEmit :: "inst \<Rightarrow> gotime \<Rightarrow> duration \<Rightarrow> bool \<times> inst" where
  "shouldEmit i now interval =
     (if IsZero (in_lastEvent i) \<or> time_Sub now (in_lastEvent i) \<ge> interval
      then (True, i\<lparr>in_lastEvent := now\<rparr>) else (False, i))"

section \<open>The pool\<close>

definition admitSampleSize :: nat where "admitSampleSize = 16"

record instanceStore =
  is_max :: int
  is_history :: historySpec
  is_items :: "(descriptor, inst) gomap"

definition newInstanceStore :: "historySpec \<Rightarrow> instanceStore" where
  "newInstanceStore h = \<lparr>is_max = h_maxInstances h, is_history = h, is_items = []\<rparr>"

definition store_len :: "instanceStore \<Rightarrow> int" where
  "store_len s = int (length (is_items s))"

definition descriptor_zero :: descriptor where
  "descriptor_zero = \<lparr>d_family = FamilyIPv4, d_proto = 0, d_protoWild = False, d_src = Addr_zero, d_dst = Addr_zero,
     d_srcPortLo = 0, d_srcPortHi = 0, d_dstPortLo = 0, d_dstPortHi = 0,
     d_icmpType = 0, d_icmpCode = 0, d_icmpTypeWild = False, d_icmpCodeWild = False\<rparr>"

text \<open>The loop over the instances, in the order of the map: how many were seen, and the weakest.\<close>

fun weakest_loop :: "'f float_ops \<Rightarrow> 'f heavyKeeper \<Rightarrow> nat \<Rightarrow> descriptor \<times> 'f \<Rightarrow> (descriptor \<times> inst) list \<Rightarrow>
    (descriptor \<times> 'f \<times> nat) option" where
  "weakest_loop F sketch n (victim, least) [] = Some (victim, least, n)"
| "weakest_loop F sketch n (victim, least) ((k, i) # items) = do {
     est \<leftarrow> estimate F sketch (in_keyHash i);
     let acc = (if n = 0 \<or> f_less F est least then (k, est) else (victim, least));
     if n + 1 \<ge> admitSampleSize then Some (fst acc, snd acc, n + 1)
     else weakest_loop F sketch (n + 1) acc items
   }"

definition weakestOfSample :: "'f float_ops \<Rightarrow> instanceStore \<Rightarrow> 'f heavyKeeper \<Rightarrow> (descriptor \<times> 'f \<times> bool) option" where
  "weakestOfSample F s sketch = do {
     (victim, least, n) \<leftarrow> weakest_loop F sketch 0 (descriptor_zero, f_zero F) (is_items s);
     Some (victim, least, n > 0)
   }"

text \<open>The new pool and the instance of the key, if it has or gets one.\<close>

definition admit :: "'f float_ops \<Rightarrow> instanceStore \<Rightarrow> descriptor \<Rightarrow> 'f heavyKeeper \<Rightarrow> gotime \<Rightarrow>
    (instanceStore \<times> inst option) option" where
  "admit F s key sketch now =
     (case map_of (is_items s) key of
        Some i \<Rightarrow> Some (s, Some i)
      | None \<Rightarrow>
          let new = newInstance key (is_history s) now
          in if store_len s < is_max s then Some (s\<lparr>is_items := gput key new (is_items s)\<rparr>, Some new)
             else do {
               (victim, victimEst, ok) \<leftarrow> weakestOfSample F s sketch;
               if \<not> ok then Some (s, None)
               else do {
                 est \<leftarrow> estimate F sketch (descriptor_hash key);
                 if f_le F est victimEst then Some (s, None)
                 else Some (s\<lparr>is_items := gput key new (gdel victim (is_items s))\<rparr>, Some new)
               }
             })"

section \<open>Instances fit their history\<close>

definition ring_fits :: "sampleRing \<Rightarrow> int \<times> duration \<Rightarrow> bool" where
  "ring_fits r sh \<longleftrightarrow> shape_ok sh \<and> int (length (rg_slots r)) = fst sh \<and> rg_resolution r = snd sh"

definition opt_fits :: "sampleRing option \<Rightarrow> int \<times> duration \<Rightarrow> bool" where
  "opt_fits r sh \<longleftrightarrow> (case r of None \<Rightarrow> \<not> shape_ok sh | Some x \<Rightarrow> ring_fits x sh)"

definition inst_fits :: "historySpec \<Rightarrow> descriptor \<Rightarrow> inst \<Rightarrow> bool" where
  "inst_fits h k i \<longleftrightarrow> in_key i = k \<and> in_keyHash i = descriptor_hash k \<and>
     ring_fits (in_fine i) (ring_shape h ringFine) \<and>
     opt_fits (in_medium i) (ring_shape h ringMedium) \<and> opt_fits (in_coarse i) (ring_shape h ringCoarse)"

definition pool_ok :: "historySpec \<Rightarrow> instanceStore \<Rightarrow> bool" where
  "pool_ok h s \<longleftrightarrow> history_ok h \<and> is_history s = h \<and> is_max s = h_maxInstances h \<and>
     gwf (is_items s) \<and> store_len s \<le> max 0 (is_max s) \<and>
     list_all (\<lambda>(k, i). inst_fits h k i) (is_items s)"

lemma newOptional_fits: "sh = (0, 0) \<or> shape_ok sh \<Longrightarrow> opt_fits (newOptionalSampleRing (fst sh) (snd sh)) sh"
  by (auto simp: opt_fits_def newOptionalSampleRing_def newSampleRing_def ring_fits_def shape_ok_def)

lemma newInstance_fits: "history_ok h \<Longrightarrow> inst_fits h k (newInstance k h now)"
  using newOptional_fits [of "ring_shape h ringMedium"] newOptional_fits [of "ring_shape h ringCoarse"]
  by (auto simp: inst_fits_def newInstance_def history_ok_def ring_shape_def ring_fits_def newSampleRing_def shape_ok_def)

lemma newInstanceStore_ok: "history_ok h \<Longrightarrow> pool_ok h (newInstanceStore h)"
  by (simp add: pool_ok_def newInstanceStore_def store_len_def)

text \<open>A ring with a shape accepts every sample.\<close>

lemma ring_add_fits:
  assumes "ring_fits r sh"
  shows "\<exists>r'. ring_add r t l w = Some r' \<and> ring_fits r' sh"
proof -
  have n: "0 < length (rg_slots r)" "rg_resolution r \<noteq> 0" using assms by (auto simp: ring_fits_def shape_ok_def)
  then obtain e where "ring_epoch (rg_resolution r) t = Some e" by (simp add: ring_epoch_def)
  with slotIndex_mod [OF n(1), of e] assms show ?thesis
    by (simp add: ring_add_def ring_fits_def Let_def)
qed

lemma add_optional_fits: "opt_fits r sh \<Longrightarrow> \<exists>r'. add_optional r t l w = Some r' \<and> opt_fits r' sh"
  using ring_add_fits [of _ sh t l w] by (fastforce simp: opt_fits_def add_optional_def split: option.splits)

lemma inst_add_fits:
  assumes "inst_fits h k i"
  shows "\<exists>i'. inst_add i t l w = Some i' \<and> inst_fits h k i'"
proof -
  from assms ring_add_fits [of "in_fine i" _ t l w] add_optional_fits [of _ _ t l w]
  obtain f m c where "ring_add (in_fine i) t l w = Some f" "ring_fits f (ring_shape h ringFine)"
    "add_optional (in_medium i) t l w = Some m" "opt_fits m (ring_shape h ringMedium)"
    "add_optional (in_coarse i) t l w = Some c" "opt_fits c (ring_shape h ringCoarse)"
    unfolding inst_fits_def by metis
  with assms show ?thesis by (simp add: inst_add_def inst_fits_def)
qed

lemma set_gput_subset: "set (gput k v m) \<subseteq> insert (k, v) (set m)"
  by (induction m) auto

lemma set_gdel_subset: "set (gdel k m) \<subseteq> set m"
  by (auto simp: AList.delete_eq)

lemma length_gput: "length (gput k v m) = (if k \<in> fst ` set m then length m else Suc (length m))"
  by (induction m) auto

lemma length_gdel: "gwf m \<Longrightarrow> k \<in> fst ` set m \<Longrightarrow> Suc (length (gdel k m)) = length m"
proof -
  assume "gwf m" and "k \<in> fst ` set m"
  then have "length (map fst (gdel k m)) = length (remove1 k (map fst m))"
    by (metis delete_keys distinct_remove1_removeAll)
  with \<open>k \<in> fst ` set m\<close> show ?thesis
    by (cases m) (auto simp: length_remove1 dest: length_pos_if_in_set)
qed

lemma pool_put:
  "pool_ok h s \<Longrightarrow> k \<in> fst ` set (is_items s) \<or> store_len s < is_max s \<Longrightarrow> inst_fits h k i \<Longrightarrow>
   pool_ok h (s\<lparr>is_items := gput k i (is_items s)\<rparr>)"
  using set_gput_subset [of k i "is_items s"]
  by (auto simp: pool_ok_def store_len_def length_gput list_all_iff max_def split: if_splits)

lemma pool_replace:
  assumes "pool_ok h s" and "v \<in> fst ` set (is_items s)" and "inst_fits h k i"
  shows "pool_ok h (s\<lparr>is_items := gput k i (gdel v (is_items s))\<rparr>)"
proof -
  have len: "Suc (length (gdel v (is_items s))) = length (is_items s)"
    by (rule length_gdel [OF _ assms(2)]) (use assms(1) in \<open>simp add: pool_ok_def\<close>)
  then have "length (gput k i (gdel v (is_items s))) \<le> length (is_items s)" by (simp add: length_gput)
  with assms set_gput_subset [of k i "gdel v (is_items s)"] set_gdel_subset [of v "is_items s"] show ?thesis
    by (auto simp: pool_ok_def store_len_def list_all_iff)
qed

section \<open>Admission\<close>

text \<open>The estimate of a descriptor, which a sketch in shape always has.\<close>

definition est_of :: "'f float_ops \<Rightarrow> 'f heavyKeeper \<Rightarrow> descriptor \<Rightarrow> 'f" where
  "est_of F sketch d = the (estimate F sketch (descriptor_hash d))"

lemma est_rows_total:
  "hk_shape h \<Longrightarrow> set is \<subseteq> {..<hk_depth h} \<Longrightarrow> \<exists>e. est_rows F h key is best = Some e"
proof (induction "is" arbitrary: best)
  case (Cons i "is")
  then have w: "0 < hk_width h" "i < length (hk_buckets h)" "length (hk_buckets h ! i) = hk_width h"
    using shape_row [of h i] by (auto simp: hk_shape_def)
  with Cons hk_index_less [OF w(1), of key i] show ?case by (auto simp: elem_at_def)
qed simp

lemma estimate_est_of: "hk_shape h \<Longrightarrow> estimate F h (descriptor_hash d) = Some (est_of F h d)"
  using est_rows_total [of h "[0..<hk_depth h]" F "descriptor_hash d" "f_zero F"]
  by (auto simp: est_of_def estimate_def lessThan_atLeast0)

context float_laws
begin

text \<open>The loop keeps the least estimate of the instances it has seen.\<close>

lemma weakest_loop_least:
  assumes "hk_shape h" and "\<forall>(k, i)\<in>set items. in_keyHash i = descriptor_hash k"
    and "n = length seen" and "n < admitSampleSize"
    and "seen \<noteq> [] \<Longrightarrow> v \<in> set seen \<and> est_of F h v = e \<and> (\<forall>k\<in>set seen. f_le F e (est_of F h k))"
  shows "\<exists>v' e' n' sample. weakest_loop F h n (v, e) items = Some (v', e', n') \<and>
     sample = seen @ map fst (take (admitSampleSize - n) items) \<and> (0 < n' \<longleftrightarrow> sample \<noteq> []) \<and>
     (sample \<noteq> [] \<longrightarrow> v' \<in> set sample \<and> est_of F h v' = e' \<and> (\<forall>k\<in>set sample. f_le F e' (est_of F h k)))"
  using assms(2-5)
proof (induction items arbitrary: n v e seen)
  case (Cons x items)
  obtain k i where x: "x = (k, i)" by fastforce
  let ?est = "est_of F h k"
  define acc where "acc = (if n = 0 \<or> f_less F ?est e then (k, ?est) else (v, e))"
  have est: "estimate F h (in_keyHash i) = Some ?est"
    using Cons.prems(1) x estimate_est_of [OF assms(1)] by simp
  have acc: "fst acc \<in> set (seen @ [k]) \<and> est_of F h (fst acc) = snd acc \<and>
      (\<forall>k'\<in>set (seen @ [k]). f_le F (snd acc) (est_of F h k'))"
  proof (cases "n = 0 \<or> f_less F ?est e")
    case True
    then show ?thesis
      using Cons.prems(2,4) le_refl le_trans [OF less_le, of ?est e] by (cases "seen = []") (auto simp: acc_def)
  next
    case False
    then have "acc = (v, e)" by (simp add: acc_def)
    moreover from False have "f_le F e ?est" by (simp add: not_less)
    ultimately show ?thesis using False Cons.prems(2,4) by auto
  qed
  show ?case
  proof (cases "admitSampleSize \<le> n + 1")
    case True
    with Cons.prems(3) have "admitSampleSize - n = 1" by simp
    with True acc show ?thesis using est x by (simp add: acc_def [symmetric] Let_def)
  next
    case False
    then have "admitSampleSize - n = Suc (admitSampleSize - Suc n)" by simp
    moreover have "weakest_loop F h n (v, e) (x # items) = weakest_loop F h (n + 1) (fst acc, snd acc) items"
      using False est x by (simp add: acc_def [symmetric] Let_def)
    moreover note Cons.IH [of "n + 1" "seen @ [k]" "fst acc" "snd acc"]
    ultimately show ?thesis using Cons.prems(1,2) False acc x by simp
  qed
qed simp

lemma weakestOfSample_least:
  assumes "hk_shape sketch" and "pool_ok h s"
  shows "(\<exists>v e. weakestOfSample F s sketch = Some (v, e, True) \<and> is_items s \<noteq> [] \<and>
            v \<in> fst ` set (take admitSampleSize (is_items s)) \<and> e = est_of F sketch v \<and>
            (\<forall>k \<in> fst ` set (take admitSampleSize (is_items s)). f_le F e (est_of F sketch k))) \<or>
         (\<exists>v e. weakestOfSample F s sketch = Some (v, e, False)) \<and> is_items s = []"
proof -
  have "\<forall>(k, i)\<in>set (is_items s). in_keyHash i = descriptor_hash k"
    using assms(2) by (auto simp: pool_ok_def list_all_iff inst_fits_def)
  from weakest_loop_least [OF assms(1) this, of 0 "[]" descriptor_zero "f_zero F"]
  obtain v e n where "weakest_loop F sketch 0 (descriptor_zero, f_zero F) (is_items s) = Some (v, e, n)"
    "0 < n \<longleftrightarrow> is_items s \<noteq> []" and
    "is_items s \<noteq> [] \<longrightarrow> v \<in> fst ` set (take admitSampleSize (is_items s)) \<and> est_of F sketch v = e \<and>
       (\<forall>k \<in> fst ` set (take admitSampleSize (is_items s)). f_le F e (est_of F sketch k))"
    by (auto simp: admitSampleSize_def)
  then show ?thesis by (cases "is_items s = []") (auto simp: weakestOfSample_def)
qed

end

text \<open>
  What the admission of a key may do to a pool: a resident key changes nothing, a free place is
  used, and in a full pool the newcomer replaces the weakest of the sample exactly when it is
  ranked higher than that one.
\<close>

definition admitted :: "'f float_ops \<Rightarrow> 'f heavyKeeper \<Rightarrow> instanceStore \<Rightarrow> descriptor \<Rightarrow> gotime \<Rightarrow>
    instanceStore \<Rightarrow> inst option \<Rightarrow> bool" where
  "admitted F sketch s key now s' r \<longleftrightarrow>
     (let new = newInstance key (is_history s) now; sample = map fst (take admitSampleSize (is_items s))
      in case map_of (is_items s) key of
           Some i \<Rightarrow> s' = s \<and> r = Some i
         | None \<Rightarrow>
             if store_len s < is_max s then is_items s' = gput key new (is_items s) \<and> r = Some new
             else if list_ex (\<lambda>k. f_less F (est_of F sketch k) (est_of F sketch key)) sample then
               list_ex (\<lambda>v. list_all (\<lambda>k. f_le F (est_of F sketch v) (est_of F sketch k)) sample \<and>
                 is_items s' = gput key new (gdel v (is_items s)) \<and> r = Some new) sample
             else s' = s \<and> r = None)"

lemma admit_ok:
  assumes "float_laws F" and shape: "hk_shape sketch" and pool: "pool_ok h s"
  shows "\<exists>s' r. admit F s key sketch now = Some (s', r) \<and> pool_ok h s' \<and> admitted F sketch s key now s' r"
proof (cases "map_of (is_items s) key")
  case (Some i)
  with pool show ?thesis by (simp add: admit_def admitted_def)
next
  case None
  let ?new = "newInstance key (is_history s) now" and ?sample = "map fst (take admitSampleSize (is_items s))"
  have fits: "inst_fits h key ?new" using pool newInstance_fits by (auto simp: pool_ok_def)
  show ?thesis
  proof (cases "store_len s < is_max s")
    case True
    with None pool_put [OF pool _ fits] show ?thesis by (simp add: admit_def admitted_def Let_def)
  next
    case full: False
    from float_laws.weakestOfSample_least [OF assms(1) shape pool] show ?thesis
    proof (elim disjE exE conjE)
      fix v e
      assume w: "weakestOfSample F s sketch = Some (v, e, True)" and v: "v \<in> fst ` set (take admitSampleSize (is_items s))"
        and e: "e = est_of F sketch v"
        and least: "\<forall>k \<in> fst ` set (take admitSampleSize (is_items s)). f_le F e (est_of F sketch k)"
      have v': "v \<in> fst ` set (is_items s)" using v by (auto dest: in_set_takeD)
      have beaten: "list_ex (\<lambda>k. f_less F (est_of F sketch k) (est_of F sketch key)) ?sample \<longleftrightarrow>
          \<not> f_le F (est_of F sketch key) e"
        unfolding list_ex_iff set_map float_laws.less_not_le [OF assms(1)]
        using v least e float_laws.le_trans [OF assms(1), of "est_of F sketch key" e] by blast
      show ?thesis
        using None full w v least e beaten pool pool_replace [OF pool v' fits] estimate_est_of [OF shape, of F key]
        by (auto simp: admit_def admitted_def Let_def list_ex_iff list_all_iff)
    next
      fix v e assume "weakestOfSample F s sketch = Some (v, e, False)" "is_items s = []"
      with None full pool show ?thesis by (simp add: admit_def admitted_def)
    qed
  qed
qed

text \<open>
  C27: Admission to the pool. On a pool that fits its history, with a sketch in shape, admitting a
  descriptor does not panic and keeps the pool fitting: distinct keys, every instance under its
  own key with rings of the configured shape, and never more than the configured maximum. A
  resident descriptor keeps its instance and a free place is used; a full pool evicts an
  instance exactly when one of the sampled ones is ranked below the newcomer, and then the one
  with the least estimate of the sample.
\<close>

theorem pool_admission:
  assumes "float_laws F" and "hk_shape sketch" and "pool_ok h s"
  shows "\<exists>s' r. admit F s key sketch now = Some (s', r) \<and> pool_ok h s' \<and> admitted F sketch s key now s' r"
  using assms by (rule admit_ok)

definition small_history :: historySpec where
  "small_history = \<lparr>h_maxInstances = 1, h_fineResolution = second, h_fineSlots = 2, h_mediumResolution = 0,
     h_mediumSlots = 0, h_coarseResolution = 0, h_coarseSlots = 0\<rparr>"

theorem pool_admission_witness:
  "\<exists>s' r. admit real_ops (newInstanceStore small_history) descriptor_zero (newHeavyKeeper real_ops 2 2 (108 / 100)) 5 = Some (s', r) \<and>
     pool_ok small_history s' \<and>
     admitted real_ops (newHeavyKeeper real_ops 2 2 (108 / 100)) (newInstanceStore small_history) descriptor_zero 5 s' r"
proof (rule pool_admission [OF real_laws.float_laws_axioms newHeavyKeeper_shape])
  show "pool_ok small_history (newInstanceStore small_history)"
    by (rule newInstanceStore_ok)
      (simp add: history_ok_def small_history_def ring_shape_def shape_ok_def second_def)
qed

end
