(* ===== verification/GoStrings.thy ===== *)
theory GoStrings
  imports NetipParse
begin

text \<open>
  The functions of packages \<^verbatim>\<open>strings\<close> and \<^verbatim>\<open>strconv\<close> the configuration code uses, on ASCII
  text. Case folding and white space outside ASCII are not modelled.
\<close>

section \<open>Case and white space\<close>

definition to_lower :: "char \<Rightarrow> char" where
  "to_lower c = (if CHR ''A'' \<le> c \<and> c \<le> CHR ''Z'' then char_of (of_char c + 32 :: nat) else c)"

definition ToLower :: "string \<Rightarrow> string" where
  "ToLower s = map to_lower s"

definition EqualFold :: "string \<Rightarrow> string \<Rightarrow> bool" where
  "EqualFold s t \<longleftrightarrow> ToLower s = ToLower t"

definition is_space :: "char \<Rightarrow> bool" where
  "is_space c \<longleftrightarrow> c = CHR '' '' \<or> c \<in> {CHR 0x09, CHR 0x0A, CHR 0x0B, CHR 0x0C, CHR 0x0D}"

definition TrimSpace :: "string \<Rightarrow> string" where
  "TrimSpace s = rev (dropWhile is_space (rev (dropWhile is_space s)))"

definition HasPrefix :: "string \<Rightarrow> string \<Rightarrow> bool" where
  "HasPrefix s p \<longleftrightarrow> take (length p) s = p"

definition TrimPrefix :: "string \<Rightarrow> string \<Rightarrow> string" where
  "TrimPrefix s p = (if HasPrefix s p then drop (length p) s else s)"

definition HasSuffix :: "string \<Rightarrow> string \<Rightarrow> bool" where
  "HasSuffix s p \<longleftrightarrow> HasPrefix (rev s) (rev p)"

definition TrimSuffix :: "string \<Rightarrow> string \<Rightarrow> string" where
  "TrimSuffix s p = (if HasSuffix s p then take (length s - length p) s else s)"

text \<open>\<^verbatim>\<open>strings.Index\<close>: the position of the first occurrence.\<close>

fun Index :: "string \<Rightarrow> string \<Rightarrow> nat option" where
  "Index [] sub = (if sub = [] then Some 0 else None)"
| "Index (c # s) sub = (if HasPrefix (c # s) sub then Some 0 else map_option Suc (Index s sub))"

text \<open>\<^verbatim>\<open>strings.FieldsFunc\<close>: the maximal runs of characters that are not separators.\<close>

fun fields_loop :: "(char \<Rightarrow> bool) \<Rightarrow> string \<Rightarrow> string \<Rightarrow> string list" where
  "fields_loop sep cur [] = (if cur = [] then [] else [cur])"
| "fields_loop sep cur (c # s) =
     (if sep c then (if cur = [] then fields_loop sep [] s else cur # fields_loop sep [] s)
      else fields_loop sep (cur @ [c]) s)"

definition FieldsFunc :: "(char \<Rightarrow> bool) \<Rightarrow> string \<Rightarrow> string list" where
  "FieldsFunc sep s = fields_loop sep [] s"

section \<open>Numbers\<close>

text \<open>\<^verbatim>\<open>strconv.ParseUint(s, 10, bits)\<close> and \<^verbatim>\<open>strconv.Atoi\<close>; \<open>None\<close> is the error.\<close>

definition ParseUint :: "nat \<Rightarrow> string \<Rightarrow> nat option" where
  "ParseUint bits s =
     (if s \<noteq> [] \<and> list_all is_digit s \<and> unradix 10 s < 2 ^ bits then Some (unradix 10 s) else None)"

definition Atoi :: "string \<Rightarrow> int option" where
  "Atoi s =
     (let neg = HasPrefix s ''-''; t = (if neg \<or> HasPrefix s ''+'' then tl s else s);
          v = (if neg then - int (unradix 10 t) else int (unradix 10 t))
      in if t \<noteq> [] \<and> list_all is_digit t \<and> - (2 ^ 63) \<le> v \<and> v < 2 ^ 63 then Some v else None)"

section \<open>Facts\<close>

lemma Index_split:
  "Index s sub = Some n \<Longrightarrow> n + length sub \<le> length s \<and> s = take n s @ sub @ drop (n + length sub) s"
proof (induction s sub arbitrary: n rule: Index.induct)
  case (2 c s sub)
  show ?case
  proof (cases "HasPrefix (c # s) sub")
    case True
    then have "take (length sub) (c # s) = sub" by (simp add: HasPrefix_def)
    then have "length sub \<le> length (c # s)" "c # s = sub @ drop (length sub) (c # s)"
      by (metis length_take min.cobounded2 nat_le_linear take_all, metis append_take_drop_id)
    with 2 True show ?thesis by simp
  next
    case False
    with 2 obtain m where "Index s sub = Some m" "n = Suc m" by auto
    with 2 False show ?thesis by simp
  qed
qed (simp split: if_splits)

lemma TrimSpace_id:
  "s \<noteq> [] \<Longrightarrow> \<not> is_space (hd s) \<Longrightarrow> \<not> is_space (last s) \<Longrightarrow> TrimSpace s = s"
proof -
  assume "s \<noteq> []" "\<not> is_space (hd s)" "\<not> is_space (last s)"
  then have "dropWhile is_space s = s" "dropWhile is_space (rev s) = rev s"
    by (simp_all add: dropWhile_eq_self_iff hd_rev)
  then show ?thesis by (simp add: TrimSpace_def)
qed

text \<open>The first occurrence of a doubled character after text without that character.\<close>

lemma Index_double: "c \<notin> set s \<Longrightarrow> Index (s @ [c, c] @ t) [c, c] = Some (length s)"
  by (induction s) (auto simp: HasPrefix_def)

lemma Index_none: "c \<notin> set s \<Longrightarrow> Index s [c, c] = None"
  by (induction s) (auto simp: HasPrefix_def)

lemma digit_cases: "n < 10 \<Longrightarrow> is_digit (hexdigit n)"
  using less_16_cases [of n] by (auto simp: is_digit_def hexdigit_def less_eq_char_def)

lemma dec_digits: "list_all is_digit (dec n)"
proof -
  have "b = 10 \<Longrightarrow> list_all is_digit (radix b n)" for b
  proof (induction b n rule: radix.induct)
    case (1 b n)
    then show ?case by (subst radix.simps) (auto simp: digit_cases)
  qed
  then show ?thesis by (simp add: dec_def)
qed

lemma ParseUint_dec: "n < 2 ^ bits \<Longrightarrow> ParseUint bits (dec n) = Some n"
  using dec_digits by (simp add: ParseUint_def) (simp add: dec_def unradix_radix)

end
