(* ===== verification/Template.thy ===== *)
theory Template
  imports GoStrings
begin

text \<open>
  Templates with \<^verbatim>\<open>{{name}}\<close> placeholders (template.go): compilation into literal and variable
  segments, the variables of a template, and rendering. The property is the round trip from
  segments through their text.
\<close>

record seg =
  sg_lit :: string
  sg_name :: string

record template =
  tm_raw :: string
  tm_segs :: "seg list"

abbreviation lit_seg :: "string \<Rightarrow> seg" where
  "lit_seg s \<equiv> \<lparr>sg_lit = s, sg_name = ''''\<rparr>"

abbreviation var_seg :: "string \<Rightarrow> seg" where
  "var_seg n \<equiv> \<lparr>sg_lit = '''', sg_name = n\<rparr>"

text \<open>The loop of \<^verbatim>\<open>compileTemplate\<close>: the segments so far and the text from position \<open>i\<close> on.\<close>

function tmpl_loop :: "string \<Rightarrow> seg list \<Rightarrow> string \<Rightarrow> verr + seg list" where
  "tmpl_loop raw segs s =
     (if s = [] then Inr segs
      else case Index s ''{{'' of
        None \<Rightarrow> Inr (segs @ [lit_seg s])
      | Some opn \<Rightarrow>
          let segs1 = (if opn > 0 then segs @ [lit_seg (take opn s)] else segs); s1 = drop opn s
          in case Index s1 ''}}'' of
               None \<Rightarrow> Inl (Errorf (Sprintf ''unterminated %q in template %q'' [FStr ''{{'', FStr raw]))
             | Some cls \<Rightarrow>
                 let name = TrimSpace (drop 2 (take cls s1))
                 in if name = '''' then Inl (Errorf (Sprintf ''empty placeholder in template %q'' [FStr raw]))
                    else tmpl_loop raw (segs1 @ [var_seg name]) (drop (cls + 2) s1))"
  by pat_completeness auto
termination
  by (relation "measure (\<lambda>(raw, segs, s). length s)") auto

declare tmpl_loop.simps [simp del]

definition compileTemplate :: "string \<Rightarrow> verr + template" where
  "compileTemplate s = ebind (tmpl_loop s [] s) (\<lambda>segs. Inr \<lparr>tm_raw = s, tm_segs = segs\<rparr>)"

text \<open>The distinct variables in the order of their first occurrence.\<close>

definition vars_step :: "string list \<Rightarrow> seg \<Rightarrow> string list" where
  "vars_step out sg = (if sg_name sg = '''' \<or> sg_name sg \<in> set out then out else out @ [sg_name sg])"

definition template_vars :: "template \<Rightarrow> string list" where
  "template_vars t = foldl vars_step [] (tm_segs t)"

definition render_seg :: "(string \<Rightarrow> string option) \<Rightarrow> seg \<Rightarrow> string" where
  "render_seg resolve sg =
     (if sg_name sg = '''' then sg_lit sg else case resolve (sg_name sg) of Some v \<Rightarrow> v | None \<Rightarrow> '''')"

definition render :: "template \<Rightarrow> (string \<Rightarrow> string option) \<Rightarrow> string" where
  "render t resolve = concat (map (render_seg resolve) (tm_segs t))"

section \<open>Segments and their text\<close>

text \<open>
  Segments the compiler can produce from a text without nested braces: a variable has a trimmed
  name, a literal is not empty and not followed by another literal.
\<close>

definition seg_ok :: "seg \<Rightarrow> bool" where
  "seg_ok sg \<longleftrightarrow>
     (if sg_name sg = '''' then sg_lit sg \<noteq> '''' \<and> CHR ''{'' \<notin> set (sg_lit sg)
      else sg_lit sg = '''' \<and> CHR ''}'' \<notin> set (sg_name sg) \<and>
           \<not> is_space (hd (sg_name sg)) \<and> \<not> is_space (last (sg_name sg)))"

fun segs_ok :: "seg list \<Rightarrow> bool" where
  "segs_ok [] = True"
| "segs_ok [sg] = seg_ok sg"
| "segs_ok (sg # sg' # sgs) = (seg_ok sg \<and> (sg_name sg \<noteq> '''' \<or> sg_name sg' \<noteq> '''') \<and> segs_ok (sg' # sgs))"

definition seg_text :: "seg \<Rightarrow> string" where
  "seg_text sg = (if sg_name sg = '''' then sg_lit sg else ''{{'' @ sg_name sg @ ''}}'')"

definition segs_text :: "seg list \<Rightarrow> string" where
  "segs_text sgs = concat (map seg_text sgs)"

lemma segs_ok_Cons: "segs_ok (sg # sgs) \<Longrightarrow> seg_ok sg \<and> segs_ok sgs"
  by (cases sgs) auto

lemma seg_lit_eq: "sg_name sg = '''' \<Longrightarrow> sg = lit_seg (sg_lit sg)"
  and seg_var_eq: "sg_lit sg = '''' \<Longrightarrow> sg = var_seg (sg_name sg)"
  by simp_all

text \<open>A placeholder at the front is read back.\<close>

lemma tmpl_loop_var:
  assumes "name \<noteq> ''''" and "CHR ''}'' \<notin> set name" and "\<not> is_space (hd name)" and "\<not> is_space (last name)"
  shows "tmpl_loop raw segs (''{{'' @ name @ ''}}'' @ rest) = tmpl_loop raw (segs @ [var_seg name]) rest"
proof -
  have "Index ((''{{'' @ name) @ [CHR ''}'', CHR ''}''] @ rest) ''}}'' = Some (length (''{{'' @ name))"
    by (rule Index_double) (use assms(2) in simp)
  then have "Index (''{{'' @ name @ ''}}'' @ rest) ''}}'' = Some (length name + 2)" by simp
  moreover have "Index (''{{'' @ name @ ''}}'' @ rest) ''{{'' = Some 0" by (simp add: HasPrefix_def)
  ultimately show ?thesis
    using TrimSpace_id [OF assms(1,3,4)] assms(1) by (subst tmpl_loop.simps) (simp add: Let_def)
qed

lemma tmpl_loop_lit:
  assumes "lit \<noteq> ''''" and "CHR ''{'' \<notin> set lit" and "rest = '''' \<or> HasPrefix rest ''{{''"
  shows "tmpl_loop raw segs (lit @ rest) = tmpl_loop raw (segs @ [lit_seg lit]) rest"
proof (cases "rest = ''''")
  case True
  with assms Index_none [OF assms(2)] show ?thesis by (subst (1 2) tmpl_loop.simps) simp
next
  case False
  with assms(3) obtain t where t: "rest = ''{{'' @ t"
    by (metis HasPrefix_def append_take_drop_id)
  have "Index (lit @ rest) ''{{'' = Some (length lit)" using Index_double [OF assms(2), of t] t by simp
  moreover have "Index rest ''{{'' = Some 0" using t by (simp add: HasPrefix_def)
  ultimately show ?thesis
    using assms(1) False by (subst (1 2) tmpl_loop.simps) (simp add: Let_def)
qed

lemma tmpl_loop_text:
  "segs_ok sgs \<Longrightarrow> tmpl_loop raw segs (segs_text sgs) = Inr (segs @ sgs)"
proof (induction sgs arbitrary: segs)
  case Nil
  then show ?case by (simp add: segs_text_def tmpl_loop.simps)
next
  case (Cons sg sgs)
  from segs_ok_Cons [OF Cons.prems] have ok: "seg_ok sg" "segs_ok sgs" by blast+
  show ?case
  proof (cases "sg_name sg = ''''")
    case True
    have "segs_text sgs = '''' \<or> HasPrefix (segs_text sgs) ''{{''"
      using Cons.prems True by (cases sgs) (auto simp: segs_text_def seg_text_def HasPrefix_def)
    moreover obtain l where "sg = lit_seg l" using seg_lit_eq [OF True] by metis
    ultimately show ?thesis
      using tmpl_loop_lit [of l "segs_text sgs" raw segs] Cons.IH [OF ok(2), of "segs @ [lit_seg l]"] ok(1)
      by (simp add: segs_text_def seg_text_def seg_ok_def)
  next
    case False
    with ok(1) obtain n where "sg = var_seg n" "n \<noteq> ''''"
      using seg_var_eq [of sg] by (metis seg_ok_def)
    then show ?thesis
      using tmpl_loop_var [of n raw segs "segs_text sgs"] Cons.IH [OF ok(2), of "segs @ [var_seg n]"] ok(1)
      by (simp add: segs_text_def seg_text_def seg_ok_def)
  qed
qed

text \<open>
  Compiling the text of a sequence of segments gives back the segments, and rendering them
  replaces each placeholder by its value and keeps the literals.
\<close>

theorem template_roundtrip:
  assumes "segs_ok sgs"
  shows "\<exists>t. compileTemplate (segs_text sgs) = Inr t \<and> tm_segs t = sgs \<and>
             render t resolve = concat (map (render_seg resolve) sgs) \<and>
             render t (\<lambda>n. Some (''{{'' @ n @ ''}}'')) = segs_text sgs"
proof -
  have "render_seg (\<lambda>n. Some (''{{'' @ n @ ''}}'')) = seg_text"
    by (auto simp: render_seg_def seg_text_def fun_eq_iff)
  with tmpl_loop_text [OF assms, of "segs_text sgs" "[]"] show ?thesis
    by (simp add: compileTemplate_def render_def segs_text_def)
qed

theorem template_roundtrip_witness:
  "\<exists>t. compileTemplate ''flood to {{dst}}'' = Inr t \<and> tm_segs t = [lit_seg ''flood to '', var_seg ''dst''] \<and>
       render t (\<lambda>n. if n = ''dst'' then Some ''192.0.2.1'' else None) = ''flood to 192.0.2.1''"
  using template_roundtrip [of "[lit_seg ''flood to '', var_seg ''dst'']" "\<lambda>n. if n = ''dst'' then Some ''192.0.2.1'' else None"]
  by (auto simp: seg_ok_def is_space_def segs_text_def seg_text_def render_seg_def)

end
