(* ===== verification/DetConfig.thy ===== *)
theory DetConfig
  imports Instances Template
begin

text \<open>
  Rule configurations and their parts' compilers (config.go, compile.go): filters, aggregation
  granularities, diversity gates, trigger terms and FlowSpec emission. The whole compiler is in
  theory RuleCompile.
\<close>

unbundle bit_operations_syntax

section \<open>Configuration (config.go)\<close>

record CompareUint =
  cmp_LT :: u64
  cmp_LTE :: u64
  cmp_GT :: u64
  cmp_GTE :: u64

record MatchConfig =
  mc_Family :: string
  mc_Proto :: "string list"
  mc_Src :: string
  mc_Dst :: string
  mc_SrcPort :: "int list"
  mc_DstPort :: "int list"
  mc_PacketLen :: CompareUint
  mc_TCPFlags :: string
  mc_ICMPType :: "int list"
  mc_ICMPCode :: "int list"

record AggregateConfig =
  ac_Proto :: string
  ac_Src :: string
  ac_Dst :: string
  ac_SrcPort :: string
  ac_DstPort :: string
  ac_ICMPType :: string
  ac_ICMPCode :: string

record TermConfig =
  tc_Metric :: string
  tc_Window :: duration
  tc_Offset :: duration
  tc_Agg :: string

record TriggerConfig =
  tg_Terms :: "(string, TermConfig) gomap"
  tg_Expr :: string
  tg_Sustained :: duration

record FlowSpecConfig =
  fc_Action :: string
  fc_TTL :: duration
  fc_Refresh :: "bool option"
  fc_Family :: string
  fc_Proto :: string
  fc_SrcPrefix :: string
  fc_DstPrefix :: string
  fc_SrcPort :: string
  fc_DstPort :: string
  fc_TCPFlags :: string
  fc_ICMPType :: string
  fc_ICMPCode :: string

record RatioItem =
  ri_Name :: string
  ri_MinRatio :: int

record RuleConfig =
  rc_Name :: string
  rc_Match :: MatchConfig
  rc_Aggregate :: AggregateConfig
  rc_History :: HistoryConfig
  rc_Trigger :: TriggerConfig
  rc_FlowSpec :: FlowSpecConfig
  rc_Description :: string
  rc_Rank :: string
  rc_RatioDetection :: "RatioItem list"

section \<open>Names and values (compile.go)\<close>

definition parseFamily :: "string \<Rightarrow> verr + fs_family \<times> bool" where
  "parseFamily s =
     (let t = ToLower s
      in if t = '''' then Inr (FamilyIPv4, False)
         else if t = ''ipv4'' \<or> t = ''ip4'' then Inr (FamilyIPv4, True)
         else if t = ''ipv6'' \<or> t = ''ip6'' then Inr (FamilyIPv6, True)
         else Inl (Errorf (Sprintf ''unknown family %q'' [FStr s])))"

definition parseProtoName :: "string \<Rightarrow> verr + u8" where
  "parseProtoName s =
     (let t = ToLower (TrimSpace s)
      in if t = ''icmp'' then Inr protoICMP
         else if t = ''tcp'' then Inr protoTCP
         else if t = ''udp'' then Inr protoUDP
         else if t = ''icmpv6'' then Inr protoICMPv6
         else case ParseUint 8 (TrimSpace s) of
                Some v \<Rightarrow> Inr (word_of_nat v)
              | None \<Rightarrow> Inl (Errorf (Sprintf ''unknown proto %q'' [FStr s])))"

definition compilePort :: "string \<Rightarrow> int \<Rightarrow> verr + u16" where
  "compilePort what p =
     (if p < 0 \<or> p > 65535 then Inl (Errorf (Sprintf (what @ '' %d out of range'') [FInt p]))
      else Inr (word_of_int p))"

definition compileU8List :: "int list \<Rightarrow> string \<Rightarrow> verr + u8 list" where
  "compileU8List vals field =
     emap (\<lambda>v. if v < 0 \<or> v > 255 then Inl (Errorf (Sprintf ''%s %d out of range 0-255'' [FStr field, FInt v]))
               else Inr (word_of_int v)) vals"

definition tcpFlagBits :: "(string, u8) gomap" where
  "tcpFlagBits = [(''fin'', 1), (''syn'', 2), (''rst'', 4), (''psh'', 8), (''ack'', 16), (''urg'', 32),
     (''ece'', 64), (''cwr'', 128)]"

fun flags_loop :: "u8 \<times> u8 \<Rightarrow> string list \<Rightarrow> verr + u8 \<times> u8" where
  "flags_loop (care, want) [] = Inr (care, want)"
| "flags_loop (care, want) (tok # toks) =
     (let neg = HasPrefix tok ''!''; name = ToLower (TrimPrefix tok ''!'')
      in case map_of tcpFlagBits name of
           None \<Rightarrow> Inl (Errorf (Sprintf ''unknown tcp flag %q'' [FStr tok]))
         | Some b \<Rightarrow> flags_loop (care OR b, if neg then want else want OR b) toks)"

definition parseTCPFlags :: "string \<Rightarrow> verr + u8 \<times> u8" where
  "parseTCPFlags s =
     ebind (flags_loop (0, 0) (FieldsFunc (\<lambda>c. c = CHR '' '' \<or> c = CHR '','') s)) (\<lambda>(care, want).
       if care = 0 then Inl (Errorf (msg ''no flags specified'')) else Inr (care, want))"

section \<open>Aggregation (compile.go)\<close>

datatype portAggMode = portExact | portAll | portRange | portBucket

record portAgg =
  pa_mode :: portAggMode
  pa_lo :: u16
  pa_hi :: u16
  pa_step :: u32

definition portAgg_zero :: portAgg where
  "portAgg_zero = \<lparr>pa_mode = portExact, pa_lo = 0, pa_hi = 0, pa_step = 0\<rparr>"

definition wildcard :: "portAgg \<Rightarrow> bool" where
  "wildcard p \<longleftrightarrow> pa_mode p = portAll"

text \<open>Division by a step of zero panics.\<close>

definition reduce :: "portAgg \<Rightarrow> u16 \<Rightarrow> (u16 \<times> u16) option" where
  "reduce p port =
     (case pa_mode p of
        portAll \<Rightarrow> Some (0, 65535)
      | portRange \<Rightarrow> Some (pa_lo p, pa_hi p)
      | portBucket \<Rightarrow>
          if pa_step p = 0 then None
          else
            let base = (ucast port div pa_step p) * pa_step p; last = base + pa_step p - 1;
                last = (if last > 65535 then 65535 else last)
            in Some (ucast base, ucast last)
      | portExact \<Rightarrow> Some (port, port))"

text \<open>\<^verbatim>\<open>aggProto\<close> and \<^verbatim>\<open>aggICMP\<close> have the same body.\<close>

definition exact_or_all :: "string \<Rightarrow> verr + bool" where
  "exact_or_all s =
     (let t = ToLower (TrimSpace s)
      in if t \<in> {'''', ''exact'', ''keep''} then Inr False
         else if t \<in> {''all'', ''any''} then Inr True
         else Inl (Errorf (Sprintf ''must be \"exact\" or \"all\", got %q'' [FStr s])))"

definition aggProto :: "string \<Rightarrow> verr + bool" where "aggProto s = exact_or_all s"
definition aggICMP :: "string \<Rightarrow> verr + bool" where "aggICMP s = exact_or_all s"

definition parseSlashBits :: "string \<Rightarrow> int \<Rightarrow> verr + int" where
  "parseSlashBits s mx =
     (case Atoi (TrimPrefix (TrimSpace s) ''/'') of
        None \<Rightarrow> Inl (Errorf (Sprintf ''invalid prefix %q (want \"/N\")'' [FStr s]))
      | Some bits \<Rightarrow>
          if bits < 0 \<or> bits > mx then Inl (Errorf (Sprintf ''prefix /%d out of range 0-%d'' [FInt bits, FInt mx]))
          else Inr bits)"

definition aggAddrBits :: "string \<Rightarrow> bool \<Rightarrow> fs_family \<Rightarrow> verr + int" where
  "aggAddrBits s famSet fam =
     (if TrimSpace s = '''' then Inr (- 1)
      else ebind (parseSlashBits s 128) (\<lambda>bits.
        if famSet \<and> fam = FamilyIPv4 \<and> bits > 32 then
          Inl (Errorf (Sprintf ''prefix /%d exceeds 32 for an ipv4 rule'' [FInt bits]))
        else Inr bits))"

definition aggPort :: "string \<Rightarrow> verr + portAgg" where
  "aggPort s =
     (let t = ToLower (TrimSpace s)
      in if t \<in> {'''', ''exact'', ''keep''} then Inr (portAgg_zero\<lparr>pa_mode := portExact\<rparr>)
         else if t \<in> {''all'', ''any''} then Inr (portAgg_zero\<lparr>pa_mode := portAll\<rparr>)
         else if CHR ''-'' \<in> set t then
           let a = takeWhile (\<lambda>c. c \<noteq> CHR ''-'') t; b = tl (dropWhile (\<lambda>c. c \<noteq> CHR ''-'') t)
           in case ParseUint 16 (TrimSpace a) of
                None \<Rightarrow> Inl (Errorf (Sprintf ''invalid range %q'' [FStr s]))
              | Some lo \<Rightarrow>
                  (case ParseUint 16 (TrimSpace b) of
                     None \<Rightarrow> Inl (Errorf (Sprintf ''invalid range %q'' [FStr s]))
                   | Some hi \<Rightarrow>
                       if lo > hi then Inl (Errorf (Sprintf ''range %q has lo > hi'' [FStr s]))
                       else Inr (portAgg_zero\<lparr>pa_mode := portRange, pa_lo := word_of_nat lo, pa_hi := word_of_nat hi\<rparr>))
         else
           case ParseUint 32 t of
             None \<Rightarrow> Inl (Errorf (Sprintf ''invalid bucket step %q (want a positive integer)'' [FStr s]))
           | Some step \<Rightarrow>
               if step = 0 then Inl (Errorf (Sprintf ''invalid bucket step %q (want a positive integer)'' [FStr s]))
               else Inr (portAgg_zero\<lparr>pa_mode := portBucket, pa_step := word_of_nat step\<rparr>))"

text \<open>The granularity of the descriptor: the \<^verbatim>\<open>aggregate\<close> fields of \<^verbatim>\<open>Rule\<close>.\<close>

record granularity =
  g_protoWild :: bool
  g_srcMaskBits :: int
  g_dstMaskBits :: int
  g_srcPortAgg :: portAgg
  g_dstPortAgg :: portAgg
  g_icmpTypeAggAll :: bool
  g_icmpCodeAggAll :: bool

section \<open>Diversity gates (compile.go)\<close>

definition ipBuckets :: "int \<Rightarrow> bool \<Rightarrow> fs_family \<Rightarrow> string \<Rightarrow> verr + int" where
  "ipBuckets maskBits famSet fam field =
     (if \<not> famSet then Inl (Errorf (Sprintf ''%s requires match.family to be set'' [FStr field]))
      else
        let host = (if fam = FamilyIPv6 then 128 else 32)
        in if maskBits < 0 \<or> maskBits \<ge> host then
             Inl (Errorf (Sprintf ''%s must be aggregated (a coarser prefix than full-host) to measure spread'' [FStr field]))
           else
             let spreadBits = host - maskBits
             in if spreadBits \<ge> 5 then Inr spreadMaxBuckets else Inr (2 ^ nat spreadBits))"

text \<open>The result is the start and the size of the range, whether it is taken modulo, and the buckets.\<close>

definition portSpread :: "portAgg \<Rightarrow> string \<Rightarrow> verr + u32 \<times> u32 \<times> bool \<times> int" where
  "portSpread p field =
     ebind (case pa_mode p of
              portAll \<Rightarrow> Inr (0, 65536, False)
            | portRange \<Rightarrow> Inr (ucast (pa_lo p), ucast (pa_hi p) - ucast (pa_lo p) + 1, False)
            | portBucket \<Rightarrow> Inr (0, pa_step p, True)
            | portExact \<Rightarrow> Inl (Errorf (Sprintf ''%s must be aggregated (not exact) to measure spread'' [FStr field])))
       (\<lambda>(lo, sz, md).
         if sz < 2 then Inl (Errorf (Sprintf ''%s has no range to spread across'' [FStr field]))
         else Inr (lo, sz, md, if uint sz > spreadMaxBuckets then spreadMaxBuckets else uint sz))"

definition spreadField_zero :: spreadField where
  "spreadField_zero = \<lparr>sf_kind = spreadSrc, sf_buckets = 0, sf_minRatio = 0, sf_ipv6 = False, sf_maskBits = 0,
     sf_portLo = 0, sf_portSize = 0, sf_portMod = False\<rparr>"

definition ratio_ip :: "spreadField \<Rightarrow> bool \<Rightarrow> fs_family \<Rightarrow> spreadKind \<Rightarrow> int \<Rightarrow> string \<Rightarrow> verr + spreadField" where
  "ratio_ip f famSet fam kind bits what =
     ectx (msg ''ratio_detection: %w'') (ebind (ipBuckets bits famSet fam what) (\<lambda>n.
       Inr (f\<lparr>sf_kind := kind, sf_maskBits := bits, sf_buckets := n\<rparr>)))"

definition ratio_port :: "spreadField \<Rightarrow> spreadKind \<Rightarrow> portAgg \<Rightarrow> string \<Rightarrow> verr + spreadField" where
  "ratio_port f kind agg what =
     ectx (msg ''ratio_detection: %w'') (ebind (portSpread agg what) (\<lambda>(lo, sz, md, n).
       Inr (f\<lparr>sf_kind := kind, sf_portLo := lo, sf_portSize := sz, sf_portMod := md, sf_buckets := n\<rparr>)))"

definition ratio_item :: "granularity \<Rightarrow> bool \<Rightarrow> fs_family \<Rightarrow> RatioItem \<Rightarrow> verr + spreadField" where
  "ratio_item g famSet fam it =
     (if ri_MinRatio it < 1 \<or> ri_MinRatio it > 100 then
        Inl (Errorf (Sprintf ''ratio_detection %q: min_ratio must be 1-100'' [FStr (ri_Name it)]))
      else
        let f = spreadField_zero\<lparr>sf_minRatio := ri_MinRatio it, sf_ipv6 := (fam = FamilyIPv6)\<rparr>;
            name = ToLower (TrimSpace (ri_Name it))
        in if name = ''src'' then ratio_ip f famSet fam spreadSrc (g_srcMaskBits g) ''src''
           else if name = ''dst'' then ratio_ip f famSet fam spreadDst (g_dstMaskBits g) ''dst''
           else if name = ''src_port'' then ratio_port f spreadSrcPort (g_srcPortAgg g) ''src_port''
           else if name = ''dst_port'' then ratio_port f spreadDstPort (g_dstPortAgg g) ''dst_port''
           else Inl (Errorf (Sprintf ''ratio_detection: unknown field %q (want src|dst|src_port|dst_port)'' [FStr (ri_Name it)])))"

definition compileRatio :: "RatioItem list \<Rightarrow> granularity \<Rightarrow> bool \<Rightarrow> fs_family \<Rightarrow> verr + spreadField list" where
  "compileRatio items g famSet fam = emap (ratio_item g famSet fam) items"

section \<open>Trigger terms (compile.go)\<close>

definition metric_names :: "(string \<times> metricKind) list" where
  "metric_names =
     [(''pps'', metricPPS), ('''', metricPPS), (''bps'', metricBPS),
      (''vpp.packet_iface.rx_pps'', metricIfaceRXPPS), (''vpp.packet_iface.tx_pps'', metricIfaceTXPPS),
      (''vpp.packet_iface.rx_bps'', metricIfaceRXBPS), (''vpp.packet_iface.tx_bps'', metricIfaceTXBPS),
      (''vpp.packet_iface.sw_drop_pps'', metricIfaceSWDropPPS), (''vpp.packet_iface.hw_drop_pps'', metricIfaceHWDropPPS),
      (''vpp.total.rx_pps'', metricTotalRXPPS), (''vpp.total.tx_pps'', metricTotalTXPPS),
      (''vpp.total.rx_bps'', metricTotalRXBPS), (''vpp.total.tx_bps'', metricTotalTXBPS),
      (''vpp.total.sw_drop_pps'', metricTotalSWDropPPS), (''vpp.total.hw_drop_pps'', metricTotalHWDropPPS)]"

definition parseMetric :: "string \<Rightarrow> verr + metricKind" where
  "parseMetric s =
     (case map_of metric_names (ToLower s) of
        Some m \<Rightarrow> Inr m
      | None \<Rightarrow> Inl (Errorf (Sprintf ''unknown metric %q'' [FStr s])))"

definition parseAgg :: "string \<Rightarrow> verr + aggKind" where
  "parseAgg s =
     (let t = ToLower s
      in if t \<in> {''avg'', ''rate'', ''''} then Inr aggAvg
         else if t \<in> {''max'', ''peak''} then Inr aggMax
         else if t \<in> {''sum'', ''total''} then Inr aggSum
         else Inl (Errorf (Sprintf ''unknown agg %q'' [FStr s])))"

fun ident_loop :: "bool \<Rightarrow> string \<Rightarrow> bool" where
  "ident_loop first [] = True"
| "ident_loop first (c # s) =
     (if c = CHR ''_'' \<or> (CHR ''a'' \<le> c \<and> c \<le> CHR ''z'') \<or> (CHR ''A'' \<le> c \<and> c \<le> CHR ''Z'') \<or> (\<not> first \<and> is_digit c)
      then ident_loop False s else False)"

definition validIdent :: "string \<Rightarrow> bool" where
  "validIdent s \<longleftrightarrow> s \<noteq> '''' \<and> ident_loop True s"

definition term_zero :: "string \<Rightarrow> metricKind \<Rightarrow> aggKind \<Rightarrow> ring_term" where
  "term_zero name metric agg = \<lparr>t_name = name, t_metric = metric, t_agg = agg, t_window = 0, t_offset = 0,
     t_ring = ringFine, t_ringRes = 0, t_slots = 0\<rparr>"

definition compileTerm :: "historySpec \<Rightarrow> string \<times> TermConfig \<Rightarrow> verr + ring_term" where
  "compileTerm hist nt =
     (let name = fst nt; tc = snd nt;
          fail = (\<lambda>s. Inl (Errorf (Sprintf (''trigger.terms.%s: '' @ s) [FStr name])));
          wrap = Sprintf ''trigger.terms.%s: %w'' [FStr name]
      in if \<not> validIdent name then Inl (Errorf (Sprintf ''trigger.terms: %q is not a valid identifier'' [FStr name]))
         else
           ebind (ectx wrap (parseMetric (tc_Metric tc))) (\<lambda>metric.
           ebind (ectx wrap (parseAgg (tc_Agg tc))) (\<lambda>agg.
           let t = term_zero name metric agg; window = tc_Window tc; offset = tc_Offset tc
           in if isStats metric then
                if window < 0 then fail ''window must be >= 0''
                else if window > 0 then
                  if offset < 0 then fail ''offset must be >= 0''
                  else if agg = aggSum then fail ''vpp metrics support agg avg or max, not sum''
                  else Inr (t\<lparr>t_window := window, t_offset := offset\<rparr>)
                else Inr t
              else
                if window \<le> 0 then fail ''window must be > 0''
                else if offset < 0 then fail ''offset must be >= 0''
                else
                  ebind (ectx wrap (chooseRing hist window offset)) (\<lambda>(ring, res).
                  Inr (t\<lparr>t_window := window, t_offset := offset, t_ring := ring, t_ringRes := res,
                         t_slots := quot window res\<rparr>)))))"

definition compileTerms :: "TriggerConfig \<Rightarrow> historySpec \<Rightarrow> verr + ring_term list" where
  "compileTerms c hist =
     (if tg_Terms c = [] then Inl (Errorf (msg ''trigger.terms must not be empty''))
      else emap (compileTerm hist) (tg_Terms c))"

text \<open>The result is whether the sketch weighs bytes and its half-life.\<close>

definition resolveRank :: "string \<Rightarrow> ring_term list \<Rightarrow> verr + bool \<times> duration" where
  "resolveRank name terms =
     (if name = '''' then Inr (False, sketchHalfLife)
      else case List.find (\<lambda>t. t_name t = name) terms of
        None \<Rightarrow> Inl (Errorf (Sprintf ''rank %q is not a defined trigger term'' [FStr name]))
      | Some t \<Rightarrow>
          if isStats (t_metric t) then
            Inl (Errorf (Sprintf ''rank %q is a vpp.* term; rank must reference a pps or bps term'' [FStr name]))
          else Inr (t_metric t = metricBPS, if t_window t \<le> 0 then sketchHalfLife else t_window t))"

section \<open>FlowSpec emission (compile.go)\<close>

text \<open>
  How a FlowSpec field is produced: the mode, with what the template mode carries (the compiled
  template of a field, the flags of the TCP flag emission).
\<close>

datatype 'a emitMode = emitDefault | emitWildcard | is_emitTemplate: emitTemplate 'a

type_synonym emitField = "template emitMode"
type_synonym tcpEmitSpec = "(u8 \<times> u8) emitMode"

record flowSpecAction =
  fa_ttl :: duration
  fa_refresh :: bool
  fa_family :: emitField
  fa_proto :: emitField
  fa_src :: emitField
  fa_dst :: emitField
  fa_srcPort :: emitField
  fa_dstPort :: emitField
  fa_icmpType :: emitField
  fa_icmpCode :: emitField

definition compileField :: "string \<Rightarrow> verr + emitField" where
  "compileField s =
     (let t = TrimSpace s
      in if t = '''' then Inr emitDefault
         else if EqualFold t ''all'' \<or> EqualFold t ''any'' then Inr emitWildcard
         else ebind (compileTemplate t) (\<lambda>tmpl. Inr (emitTemplate tmpl)))"

definition compileTCPEmit :: "string \<Rightarrow> verr + tcpEmitSpec" where
  "compileTCPEmit s =
     (let t = TrimSpace s
      in if t = '''' then Inr emitDefault
         else if EqualFold t ''all'' \<or> EqualFold t ''any'' then Inr emitWildcard
         else ebind (parseTCPFlags t) (\<lambda>cw. Inr (emitTemplate cw)))"

definition compileAction :: "FlowSpecConfig \<Rightarrow> verr + flowSpecAction" where
  "compileAction c =
     (if ToLower (fc_Action c) \<noteq> ''drop'' then Inl (Errorf (msg ''flowspec.action must be drop''))
      else if fc_TTL c \<le> 0 then Inl (Errorf (msg ''flowspec.ttl must be > 0''))
      else
        ebind (ectx (msg ''flowspec.family: %w'') (compileField (fc_Family c))) (\<lambda>family.
        ebind (ectx (msg ''flowspec.proto: %w'') (compileField (fc_Proto c))) (\<lambda>proto.
        ebind (ectx (msg ''flowspec.src_prefix: %w'') (compileField (fc_SrcPrefix c))) (\<lambda>src.
        ebind (ectx (msg ''flowspec.dst_prefix: %w'') (compileField (fc_DstPrefix c))) (\<lambda>dst.
        ebind (ectx (msg ''flowspec.src_port: %w'') (compileField (fc_SrcPort c))) (\<lambda>srcPort.
        ebind (ectx (msg ''flowspec.dst_port: %w'') (compileField (fc_DstPort c))) (\<lambda>dstPort.
        ebind (ectx (msg ''flowspec.icmp_type: %w'') (compileField (fc_ICMPType c))) (\<lambda>icmpType.
        ebind (ectx (msg ''flowspec.icmp_code: %w'') (compileField (fc_ICMPCode c))) (\<lambda>icmpCode.
        Inr \<lparr>fa_ttl = fc_TTL c, fa_refresh = (case fc_Refresh c of None \<Rightarrow> True | Some b \<Rightarrow> b),
             fa_family = family, fa_proto = proto, fa_src = src, fa_dst = dst,
             fa_srcPort = srcPort, fa_dstPort = dstPort, fa_icmpType = icmpType, fa_icmpCode = icmpCode\<rparr>)))))))))"

end
