(* ===== verification/RuleCompile.thy ===== *)
theory RuleCompile
  imports DetConfig
begin

text \<open>
  A compiled detection rule (rule.go) and its compiler (\<^verbatim>\<open>compileRule\<close> of compile.go). The
  expression compiler (package \<^verbatim>\<open>expr\<close>) and the fingerprint of a configuration are arguments.
  The lemmas collect what a rule that compiled satisfies.
\<close>

unbundle bit_operations_syntax

section \<open>Rules\<close>

text \<open>The match filters of \<^verbatim>\<open>Rule\<close>; an empty filter imposes no constraint.\<close>

record match_filter =
  mf_family :: fs_family
  mf_familySet :: bool
  mf_protoFilter :: "u8 list"
  mf_srcFilter :: prefix
  mf_dstFilter :: prefix
  mf_srcPortFilter :: "u16 list"
  mf_dstPortFilter :: "u16 list"
  mf_packetLen :: CompareUint
  mf_tcpCare :: u8
  mf_tcpWant :: u8
  mf_icmpTypeFilter :: "u8 list"
  mf_icmpCodeFilter :: "u8 list"

record ('f, 'p) Rule =
  ru_name :: string
  ru_fingerprint :: string
  ru_description :: "template option"
  ru_match :: match_filter
  ru_gran :: granularity
  ru_spreadFields :: "spreadField list"
  ru_terms :: "ring_term list"
  ru_expr :: 'p
  ru_sustained :: duration
  ru_action :: flowSpecAction
  ru_tcpEmit :: tcpEmitSpec
  ru_emitInterval :: duration
  ru_history :: historySpec
  ru_store :: instanceStore
  ru_sketch :: "'f heavyKeeper"
  ru_rankBytes :: bool
  ru_halfLife :: duration
  ru_lastDecay :: gotime

text \<open>The part of \<^verbatim>\<open>compileRule\<close> for the match filters.\<close>

definition compilePrefixFilter :: "string \<Rightarrow> string \<Rightarrow> verr + prefix" where
  "compilePrefixFilter what s =
     (if s = '''' then Inr Prefix_zero
      else case ParsePrefix s of
        Some p \<Rightarrow> Inr (Masked p)
      | None \<Rightarrow> Inl (Wrapf (msg (what @ '': %w'')) (Errorf (Sprintf ''netip.ParsePrefix(%q)'' [FStr s]))))"

definition compileMatch :: "MatchConfig \<Rightarrow> verr + match_filter" where
  "compileMatch m =
     ebind (ectx (msg ''match.family: %w'') (parseFamily (mc_Family m))) (\<lambda>(fam, famSet).
     ebind (emap (\<lambda>p. ectx (msg ''match.proto: %w'') (parseProtoName p)) (mc_Proto m)) (\<lambda>protos.
     ebind (compilePrefixFilter ''match.src'' (mc_Src m)) (\<lambda>src.
     ebind (compilePrefixFilter ''match.dst'' (mc_Dst m)) (\<lambda>dst.
     ebind (emap (compilePort ''match.src_port'') (mc_SrcPort m)) (\<lambda>srcPorts.
     ebind (emap (compilePort ''match.dst_port'') (mc_DstPort m)) (\<lambda>dstPorts.
     ebind (compileU8List (mc_ICMPType m) ''match.icmp_type'') (\<lambda>types.
     ebind (compileU8List (mc_ICMPCode m) ''match.icmp_code'') (\<lambda>codes.
     ebind (if mc_TCPFlags m = '''' then Inr (0, 0)
            else ectx (msg ''match.tcp_flags: %w'') (parseTCPFlags (mc_TCPFlags m))) (\<lambda>(care, want).
     Inr \<lparr>mf_family = fam, mf_familySet = famSet, mf_protoFilter = protos, mf_srcFilter = src, mf_dstFilter = dst,
          mf_srcPortFilter = srcPorts, mf_dstPortFilter = dstPorts, mf_packetLen = mc_PacketLen m,
          mf_tcpCare = care, mf_tcpWant = want, mf_icmpTypeFilter = types, mf_icmpCodeFilter = codes\<rparr>)))))))))"

text \<open>The part for the granularity, with the check of ports against a wildcard protocol.\<close>

definition compileGranularity :: "AggregateConfig \<Rightarrow> bool \<Rightarrow> fs_family \<Rightarrow> verr + granularity" where
  "compileGranularity a famSet fam =
     ebind (ectx (msg ''aggregate.proto: %w'') (aggProto (ac_Proto a))) (\<lambda>protoWild.
     ebind (ectx (msg ''aggregate.src: %w'') (aggAddrBits (ac_Src a) famSet fam)) (\<lambda>src.
     ebind (ectx (msg ''aggregate.dst: %w'') (aggAddrBits (ac_Dst a) famSet fam)) (\<lambda>dst.
     ebind (ectx (msg ''aggregate.src_port: %w'') (aggPort (ac_SrcPort a))) (\<lambda>srcPort.
     ebind (ectx (msg ''aggregate.dst_port: %w'') (aggPort (ac_DstPort a))) (\<lambda>dstPort.
     ebind (ectx (msg ''aggregate.icmp_type: %w'') (aggICMP (ac_ICMPType a))) (\<lambda>icmpType.
     ebind (ectx (msg ''aggregate.icmp_code: %w'') (aggICMP (ac_ICMPCode a))) (\<lambda>icmpCode.
     if (\<not> wildcard srcPort \<or> \<not> wildcard dstPort) \<and> protoWild then
       Inl (Errorf (msg ''non-wildcard src_port/dst_port cannot be combined with aggregate.proto: all''))
     else
       Inr \<lparr>g_protoWild = protoWild, g_srcMaskBits = src, g_dstMaskBits = dst, g_srcPortAgg = srcPort,
            g_dstPortAgg = dstPort, g_icmpTypeAggAll = icmpType, g_icmpCodeAggAll = icmpCode\<rparr>)))))))"

definition protoOnlyTCP :: "u8 list \<Rightarrow> bool" where
  "protoOnlyTCP ps \<longleftrightarrow> list_all (\<lambda>p. p = protoTCP) ps \<and> length ps > 0"

definition descriptorVars :: "string list" where
  "descriptorVars = [''family'', ''proto'', ''src'', ''dst'', ''src_port'', ''dst_port'', ''icmp_type'', ''icmp_code'']"

definition checkFlowSpecVars :: "string \<times> emitField \<Rightarrow> verr + unit" where
  "checkFlowSpecVars nf =
     (case snd nf of
        emitTemplate tmpl \<Rightarrow>
          (case List.find (\<lambda>v. v \<notin> set descriptorVars) (template_vars tmpl) of
             None \<Rightarrow> Inr ()
           | Some v \<Rightarrow> Inl (Errorf (Sprintf ''flowspec.%s references {{%s}} which is not a descriptor field''
               [FStr (fst nf), FStr v])))
      | _ \<Rightarrow> Inr ())"

definition validateVars :: "flowSpecAction \<Rightarrow> template option \<Rightarrow> string list \<Rightarrow> verr + unit" where
  "validateVars a description termNames =
     ebind (emap checkFlowSpecVars
       [(''family'', fa_family a), (''proto'', fa_proto a), (''src_prefix'', fa_src a), (''dst_prefix'', fa_dst a),
        (''src_port'', fa_srcPort a), (''dst_port'', fa_dstPort a), (''icmp_type'', fa_icmpType a),
        (''icmp_code'', fa_icmpCode a)]) (\<lambda>_.
     case description of
       None \<Rightarrow> Inr ()
     | Some t \<Rightarrow>
         (case List.find (\<lambda>v. v \<notin> insert ''ingress_if'' (set descriptorVars \<union> set termNames)) (template_vars t) of
            None \<Rightarrow> Inr ()
          | Some v \<Rightarrow> Inl (Errorf (Sprintf
              ''description references {{%s}} which is not a descriptor field, ingress_if, or trigger term'' [FStr v]))))"

text \<open>\<^verbatim>\<open>compileExpr\<close>: the expression must not be blank; the library compiles it over the term names.\<close>

definition compileExpr :: "(string \<Rightarrow> string list \<Rightarrow> verr + 'p) \<Rightarrow> string \<Rightarrow> string list \<Rightarrow> verr + 'p" where
  "compileExpr compile src names =
     (if TrimSpace src = '''' then Inl (Errorf (msg ''expr must be set'')) else compile src names)"

definition compileRule :: "'f float_ops \<Rightarrow> (string \<Rightarrow> string list \<Rightarrow> verr + 'p) \<Rightarrow> (RuleConfig \<Rightarrow> string) \<Rightarrow>
    RuleConfig \<Rightarrow> verr + ('f, 'p) Rule" where
  "compileRule F compile fingerprint cfg =
     (if rc_Name cfg = '''' then Inl (Errorf (msg ''name must be set''))
      else
        ebind (compileMatch (rc_Match cfg)) (\<lambda>m.
        ebind (compileGranularity (rc_Aggregate cfg) (mf_familySet m) (mf_family m)) (\<lambda>g.
        ebind (compileRatio (rc_RatioDetection cfg) g (mf_familySet m) (mf_family m)) (\<lambda>spreads.
        ebind (compileHistory (rc_History cfg)) (\<lambda>hist.
        ebind (compileTerms (rc_Trigger cfg) hist) (\<lambda>terms.
        ebind (resolveRank (rc_Rank cfg) terms) (\<lambda>(rankBytes, halfLife).
        ebind (ectx (msg ''trigger.expr: %w'')
          (compileExpr compile (tg_Expr (rc_Trigger cfg)) (map t_name terms))) (\<lambda>prog.
        ebind (compileAction (rc_FlowSpec cfg)) (\<lambda>action.
        ebind (ectx (msg ''flowspec.tcp_flags: %w'') (compileTCPEmit (fc_TCPFlags (rc_FlowSpec cfg)))) (\<lambda>tcpEmit.
        if (mf_tcpCare m \<noteq> 0 \<or> is_emitTemplate tcpEmit) \<and> \<not> protoOnlyTCP (mf_protoFilter m) then
          Inl (Errorf (msg ''tcp_flags requires match.proto to be tcp''))
        else
          ebind (if rc_Description cfg = '''' then Inr None
                 else ebind (ectx (msg ''description: %w'') (compileTemplate (rc_Description cfg))) (\<lambda>t. Inr (Some t))) (\<lambda>desc.
          ebind (validateVars action desc (map t_name terms)) (\<lambda>_.
          let half = quot (fa_ttl action) 2
          in Inr \<lparr>ru_name = rc_Name cfg, ru_fingerprint = fingerprint cfg, ru_description = desc, ru_match = m, ru_gran = g,
               ru_spreadFields = spreads, ru_terms = terms, ru_expr = prog, ru_sustained = tg_Sustained (rc_Trigger cfg),
               ru_action = action, ru_tcpEmit = tcpEmit,
               ru_emitInterval = (if half < h_fineResolution hist then h_fineResolution hist else half),
               ru_history = hist, ru_store = newInstanceStore hist,
               ru_sketch = newHeavyKeeper F (sketchWidth (h_maxInstances hist)) sketchDepth (f_decay F),
               ru_rankBytes = rankBytes, ru_halfLife = halfLife, ru_lastDecay = Time_zero\<rparr>))))))))))))"

text \<open>\<^verbatim>\<open>CompileRules\<close>: the first error ends the compilation, with the index and the name of its rule.\<close>

definition CompileRules :: "'f float_ops \<Rightarrow> (string \<Rightarrow> string list \<Rightarrow> verr + 'p) \<Rightarrow> (RuleConfig \<Rightarrow> string) \<Rightarrow>
    RuleConfig list \<Rightarrow> verr + ('f, 'p) Rule list" where
  "CompileRules F compile fingerprint cfgs =
     emap (\<lambda>(i, cfg). ectx (Sprintf ''rules[%d] %q: %w'' [FInt (int i), FStr (rc_Name cfg)])
       (compileRule F compile fingerprint cfg)) (enumerate 0 cfgs)"

section \<open>Compiled rules are well-formed\<close>

definition portAgg_ok :: "portAgg \<Rightarrow> bool" where
  "portAgg_ok p \<longleftrightarrow> (pa_mode p = portRange \<longrightarrow> pa_lo p \<le> pa_hi p) \<and> (pa_mode p = portBucket \<longrightarrow> pa_step p \<noteq> 0)"

definition gran_ok :: "granularity \<Rightarrow> bool" where
  "gran_ok g \<longleftrightarrow> - 1 \<le> g_srcMaskBits g \<and> g_srcMaskBits g \<le> 128 \<and> - 1 \<le> g_dstMaskBits g \<and> g_dstMaskBits g \<le> 128 \<and>
     portAgg_ok (g_srcPortAgg g) \<and> portAgg_ok (g_dstPortAgg g) \<and>
     (g_protoWild g \<longrightarrow> wildcard (g_srcPortAgg g) \<and> wildcard (g_dstPortAgg g))"

text \<open>Flags that are wanted are flags that are tested.\<close>

definition flags_ok :: "u8 \<times> u8 \<Rightarrow> bool" where
  "flags_ok cw \<longleftrightarrow> snd cw AND NOT (fst cw) = 0"

definition match_ok :: "match_filter \<Rightarrow> bool" where
  "match_ok m \<longleftrightarrow> flags_ok (mf_tcpCare m, mf_tcpWant m)"

definition spread_field_ok :: "match_filter \<Rightarrow> spreadField \<Rightarrow> bool" where
  "spread_field_ok m f \<longleftrightarrow> 0 < sf_buckets f \<and> sf_buckets f \<le> 20 \<and> 1 \<le> sf_minRatio f \<and> sf_minRatio f \<le> 100 \<and>
     (if sf_kind f \<in> {spreadSrc, spreadDst} then
        mf_familySet m \<and> sf_ipv6 f = (mf_family m = FamilyIPv6) \<and> 0 \<le> sf_maskBits f \<and>
        sf_maskBits f < (if sf_ipv6 f then 128 else 32)
      else sf_buckets f \<le> int (unat (sf_portSize f)) \<and> (int (unat (sf_portSize f)) \<le> sf_buckets f \<or> sf_buckets f = 20))"

text \<open>A term on the history reads a ring the history has.\<close>

definition term_ok :: "historySpec \<Rightarrow> ring_term \<Rightarrow> bool" where
  "term_ok h t \<longleftrightarrow> (if isStats (t_metric t) then t_window t = 0 \<or> 0 < t_window t \<and> 0 \<le> t_offset t \<and> t_agg t \<noteq> aggSum
     else 0 < t_window t \<and> 0 \<le> t_offset t \<and> chooseRing h (t_window t) (t_offset t) = Inr (t_ring t, t_ringRes t) \<and>
          t_slots t = quot (t_window t) (t_ringRes t))"

definition rule_ok :: "('f, 'p) Rule \<Rightarrow> bool" where
  "rule_ok r \<longleftrightarrow> match_ok (ru_match r) \<and> gran_ok (ru_gran r) \<and>
     list_all (spread_field_ok (ru_match r)) (ru_spreadFields r) \<and>
     history_ok (ru_history r) \<and> 0 < h_maxInstances (ru_history r) \<and> list_all (term_ok (ru_history r)) (ru_terms r) \<and>
     (\<forall>cw. ru_tcpEmit r = emitTemplate cw \<longrightarrow> flags_ok cw \<and> fst cw \<noteq> 0) \<and>
     (mf_tcpCare (ru_match r) \<noteq> 0 \<or> is_emitTemplate (ru_tcpEmit r) \<longrightarrow> protoOnlyTCP (mf_protoFilter (ru_match r))) \<and>
     0 < fa_ttl (ru_action r)"

lemma flags_loop_ok: "flags_loop cw toks = Inr cw' \<Longrightarrow> flags_ok cw \<Longrightarrow> flags_ok cw'"
proof (induction cw toks rule: flags_loop.induct)
  case (2 care want tok toks)
  have "flags_ok (care OR b, if HasPrefix tok ''!'' then want else want OR b)" for b
    using 2(3) by (auto simp: flags_ok_def bit_eq_iff bit_simps)
  with 2 show ?case by (auto simp: Let_def split: option.splits)
qed simp

lemma parseTCPFlags_ok: "parseTCPFlags s = Inr cw \<Longrightarrow> flags_ok cw \<and> fst cw \<noteq> 0"
  by (auto simp: parseTCPFlags_def ebind_Inr flags_ok_def dest!: flags_loop_ok split: if_splits)

lemma compileMatch_ok: "compileMatch c = Inr m \<Longrightarrow> match_ok m"
  by (auto simp: compileMatch_def ebind_Inr match_ok_def flags_ok_def [of "(0, 0)"] dest!: parseTCPFlags_ok split: if_splits)

lemma aggAddrBits_ok: "aggAddrBits s famSet fam = Inr b \<Longrightarrow> - 1 \<le> b \<and> b \<le> 128"
  by (auto simp: aggAddrBits_def parseSlashBits_def ebind_Inr split: if_splits option.splits)

lemma aggPort_ok:
  assumes "aggPort s = Inr p"
  shows "portAgg_ok p"
proof -
  have "word_of_nat lo \<le> (word_of_nat hi :: u16)" if "lo \<le> hi" "hi < 65536" for lo hi
    using that by (simp add: word_le_nat_alt unat_word_of_nat)
  moreover have "(word_of_nat st :: u32) \<noteq> 0" if "st \<noteq> 0" "st < 2 ^ 32" for st
    using that unat_word_of_nat [of st, where 'a = 32] by auto
  ultimately show ?thesis
    using assms by (auto simp: aggPort_def Let_def portAgg_ok_def portAgg_zero_def ParseUint_def
      split: if_splits option.splits)
qed

lemma compileGranularity_ok: "compileGranularity a famSet fam = Inr g \<Longrightarrow> gran_ok g"
  by (auto simp: compileGranularity_def ebind_Inr gran_ok_def dest: aggAddrBits_ok aggPort_ok split: if_splits)

lemma ipBuckets_ok:
  assumes "ipBuckets bits famSet fam field = Inr n"
  shows "famSet \<and> 0 \<le> bits \<and> bits < (if fam = FamilyIPv6 then 128 else 32) \<and> 0 < n \<and> n \<le> 20"
proof -
  let ?b = "(if fam = FamilyIPv6 then 128 else 32) - bits"
  have "2 ^ nat ?b \<le> (2 ^ 4 :: int)" if "?b < 5" using that by (intro power_increasing) auto
  with assms show ?thesis
    by (auto simp: ipBuckets_def Let_def spreadMaxBuckets_def split: if_splits)
qed

lemma portSpread_ok:
  assumes "portSpread p field = Inr (lo, sz, md, n)"
  shows "0 < n \<and> n \<le> 20 \<and> n \<le> int (unat sz) \<and> (int (unat sz) \<le> n \<or> n = 20)"
proof -
  from assms have "\<not> sz < 2" and n: "n = (if uint sz > 20 then 20 else uint sz)"
    by (auto simp: portSpread_def ebind_Inr spreadMaxBuckets_def split: if_splits)
  then have "2 \<le> uint sz" by (simp add: word_less_def not_less)
  with n show ?thesis by auto
qed

lemma ratio_ip_ok:
  assumes "ratio_ip (spreadField_zero\<lparr>sf_minRatio := q, sf_ipv6 := (mf_family m = FamilyIPv6)\<rparr>) (mf_familySet m) (mf_family m) kind bits what = Inr f"
    and "1 \<le> q" "q \<le> 100" "kind \<in> {spreadSrc, spreadDst}"
  shows "spread_field_ok m f"
  using assms by (auto simp: ratio_ip_def ebind_Inr spread_field_ok_def spreadField_zero_def dest!: ipBuckets_ok)

lemma ratio_port_ok:
  assumes "ratio_port (spreadField_zero\<lparr>sf_minRatio := q, sf_ipv6 := v\<rparr>) kind agg what = Inr f"
    and "1 \<le> q" "q \<le> 100" "kind \<notin> {spreadSrc, spreadDst}"
  shows "spread_field_ok m f"
  using assms by (auto simp: ratio_port_def ebind_Inr spread_field_ok_def spreadField_zero_def dest!: portSpread_ok)

lemma ratio_item_ok:
  assumes "ratio_item g (mf_familySet m) (mf_family m) it = Inr f"
  shows "spread_field_ok m f"
proof -
  have q: "1 \<le> ri_MinRatio it" "ri_MinRatio it \<le> 100"
    using assms by (simp_all add: ratio_item_def split: if_splits)
  from assms ratio_ip_ok [OF _ q] ratio_port_ok [OF _ q] show ?thesis
    unfolding ratio_item_def Let_def by (auto split: if_split_asm)
qed

lemma compileTerm_ok: "compileTerm h nt = Inr t \<Longrightarrow> term_ok h t"
  by (auto simp: compileTerm_def Let_def ebind_Inr term_ok_def term_zero_def split: if_splits)

text \<open>Inversion of a successful compilation.\<close>

lemma compileRule_Inr:
  assumes "compileRule F compile fingerprint cfg = Inr r"
  obtains "compileMatch (rc_Match cfg) = Inr (ru_match r)"
    "compileGranularity (rc_Aggregate cfg) (mf_familySet (ru_match r)) (mf_family (ru_match r)) = Inr (ru_gran r)"
    "compileRatio (rc_RatioDetection cfg) (ru_gran r) (mf_familySet (ru_match r)) (mf_family (ru_match r)) = Inr (ru_spreadFields r)"
    "compileHistory (rc_History cfg) = Inr (ru_history r)"
    "compileTerms (rc_Trigger cfg) (ru_history r) = Inr (ru_terms r)"
    "compileAction (rc_FlowSpec cfg) = Inr (ru_action r)"
    "compileTCPEmit (fc_TCPFlags (rc_FlowSpec cfg)) = Inr (ru_tcpEmit r)"
    "mf_tcpCare (ru_match r) \<noteq> 0 \<or> is_emitTemplate (ru_tcpEmit r) \<Longrightarrow> protoOnlyTCP (mf_protoFilter (ru_match r))"
    "validateVars (ru_action r) (ru_description r) (map t_name (ru_terms r)) = Inr ()"
    "ru_store r = newInstanceStore (ru_history r)"
    "ru_sketch r = newHeavyKeeper F (sketchWidth (h_maxInstances (ru_history r))) sketchDepth (f_decay F)"
    "ru_fingerprint r = fingerprint cfg" "ru_name r = rc_Name cfg"
  using assms by (rule_tac that) (auto simp: compileRule_def ebind_Inr Let_def split: if_split_asm)

lemma compileTCPEmit_ok:
  "compileTCPEmit s = Inr e \<Longrightarrow> \<forall>cw. e = emitTemplate cw \<longrightarrow> flags_ok cw \<and> fst cw \<noteq> 0"
  by (auto simp: compileTCPEmit_def Let_def ebind_Inr dest: parseTCPFlags_ok split: if_split_asm)

lemma emap_list_all: "emap f xs = Inr ys \<Longrightarrow> (\<And>x y. f x = Inr y \<Longrightarrow> P y) \<Longrightarrow> list_all P ys"
  by (induction xs arbitrary: ys) (fastforce simp: ebind_Inr)+

lemma compileHistory_max: "compileHistory c = Inr h \<Longrightarrow> 0 < h_maxInstances h"
  by (auto simp: compileHistory_def ebind_Inr split: if_split_asm)

lemma compileAction_ttl: "compileAction c = Inr a \<Longrightarrow> 0 < fa_ttl a"
  by (auto simp: compileAction_def ebind_Inr split: if_split_asm)

lemma compileRule_ok:
  assumes "compileRule F compile fingerprint cfg = Inr r" and "history_typed (rc_History cfg)"
  shows "rule_ok r"
  using assms(1)
proof (rule compileRule_Inr)
  assume c: "compileMatch (rc_Match cfg) = Inr (ru_match r)"
    "compileGranularity (rc_Aggregate cfg) (mf_familySet (ru_match r)) (mf_family (ru_match r)) = Inr (ru_gran r)"
    "compileRatio (rc_RatioDetection cfg) (ru_gran r) (mf_familySet (ru_match r)) (mf_family (ru_match r)) = Inr (ru_spreadFields r)"
    "compileHistory (rc_History cfg) = Inr (ru_history r)"
    "compileTerms (rc_Trigger cfg) (ru_history r) = Inr (ru_terms r)"
    "compileAction (rc_FlowSpec cfg) = Inr (ru_action r)"
    "compileTCPEmit (fc_TCPFlags (rc_FlowSpec cfg)) = Inr (ru_tcpEmit r)"
    "mf_tcpCare (ru_match r) \<noteq> 0 \<or> is_emitTemplate (ru_tcpEmit r) \<Longrightarrow> protoOnlyTCP (mf_protoFilter (ru_match r))"
  have "list_all (spread_field_ok (ru_match r)) (ru_spreadFields r)"
    using c(3) unfolding compileRatio_def by (rule emap_list_all) (rule ratio_item_ok)
  moreover have "list_all (term_ok (ru_history r)) (ru_terms r)"
    using c(5) emap_list_all [of "compileTerm (ru_history r)", OF _ compileTerm_ok]
    by (auto simp: compileTerms_def split: if_split_asm)
  ultimately show ?thesis
    using compileMatch_ok [OF c(1)] compileGranularity_ok [OF c(2)] compileHistory_ok [OF c(4) assms(2)]
      compileTCPEmit_ok [OF c(7)] compileHistory_max [OF c(4)] compileAction_ttl [OF c(6)] c(8)
    by (simp add: rule_ok_def)
qed

end
