(* ===== verification/DetRule.thy ===== *)
theory DetRule
  imports RuleCompile
begin

text \<open>
  The run of a detection rule (rule.go): samples are matched, reduced to a descriptor and counted
  in the instance of the descriptor; a tick evaluates the trigger of every instance and builds
  the FlowSpec rule of those that fire. \<open>None\<close> is a run-time panic. The expression machine and
  the VPP statistics are arguments.
\<close>

unbundle bit_operations_syntax

section \<open>Matching and identity\<close>

definition matches_icmp :: "match_filter \<Rightarrow> Sample \<Rightarrow> bool" where
  "matches_icmp m s \<longleftrightarrow>
     (if mf_icmpTypeFilter m \<noteq> [] \<or> mf_icmpCodeFilter m \<noteq> [] then
        if s_Proto s \<noteq> protoICMP \<and> s_Proto s \<noteq> protoICMPv6 then False
        else if mf_icmpTypeFilter m \<noteq> [] \<and> s_ICMPType s \<notin> set (mf_icmpTypeFilter m) then False
        else if mf_icmpCodeFilter m \<noteq> [] \<and> s_ICMPCode s \<notin> set (mf_icmpCodeFilter m) then False
        else True
      else True)"

definition matches_len :: "CompareUint \<Rightarrow> u16 \<Rightarrow> bool" where
  "matches_len c len \<longleftrightarrow>
     (let pl = (ucast len :: u64)
      in if cmp_LT c \<noteq> 0 \<and> pl \<ge> cmp_LT c then False
         else if cmp_LTE c \<noteq> 0 \<and> pl > cmp_LTE c then False
         else if cmp_GT c \<noteq> 0 \<and> pl \<le> cmp_GT c then False
         else if cmp_GTE c \<noteq> 0 \<and> pl < cmp_GTE c then False
         else True)"

definition matches :: "match_filter \<Rightarrow> Sample \<Rightarrow> bool" where
  "matches m s \<longleftrightarrow>
     (if mf_familySet m \<and> s_Family s \<noteq> mf_family m then False
      else if mf_protoFilter m \<noteq> [] \<and> s_Proto s \<notin> set (mf_protoFilter m) then False
      else if pfx_IsValid (mf_srcFilter m) \<and> \<not> Contains (mf_srcFilter m) (s_Src s) then False
      else if pfx_IsValid (mf_dstFilter m) \<and> \<not> Contains (mf_dstFilter m) (s_Dst s) then False
      else if mf_srcPortFilter m \<noteq> [] \<and> s_SrcPort s \<notin> set (mf_srcPortFilter m) then False
      else if mf_dstPortFilter m \<noteq> [] \<and> s_DstPort s \<notin> set (mf_dstPortFilter m) then False
      else if mf_tcpCare m \<noteq> 0 \<and> s_TCPFlags s AND mf_tcpCare m \<noteq> mf_tcpWant m then False
      else if \<not> matches_icmp m s then False
      else matches_len (mf_packetLen m) (s_PacketLen s))"

definition clampBits :: "addr \<Rightarrow> int \<Rightarrow> int" where
  "clampBits a bits = (if bits < 0 \<or> bits > BitLen a then BitLen a else bits)"

definition maskAddr :: "addr \<Rightarrow> int \<Rightarrow> addr" where
  "maskAddr a bits =
     (if \<not> addr_IsValid a then a
      else case addr_Prefix a (clampBits a bits) of None \<Rightarrow> a | Some p \<Rightarrow> pfx_Addr p)"

definition prefixOf :: "addr \<Rightarrow> int \<Rightarrow> prefix" where
  "prefixOf a bits = PrefixFrom a (clampBits a bits)"

definition is_icmp :: "u8 \<Rightarrow> bool" where
  "is_icmp p \<longleftrightarrow> p = protoICMP \<or> p = protoICMPv6"

definition descriptorFor :: "granularity \<Rightarrow> Sample \<Rightarrow> descriptor option" where
  "descriptorFor g s = do {
     (srcPort, dstPort) \<leftarrow>
       (if \<not> g_protoWild g \<and> (s_Proto s = protoTCP \<or> s_Proto s = protoUDP) then do {
          a \<leftarrow> reduce (g_srcPortAgg g) (s_SrcPort s);
          b \<leftarrow> reduce (g_dstPortAgg g) (s_DstPort s);
          Some (a, b)
        } else Some ((0, 65535), (0, 65535)));
     let icmp = (\<not> g_protoWild g \<and> is_icmp (s_Proto s));
     Some \<lparr>d_family = s_Family s, d_proto = (if g_protoWild g then 0 else s_Proto s), d_protoWild = g_protoWild g,
       d_src = maskAddr (s_Src s) (g_srcMaskBits g), d_dst = maskAddr (s_Dst s) (g_dstMaskBits g),
       d_srcPortLo = fst srcPort, d_srcPortHi = snd srcPort, d_dstPortLo = fst dstPort, d_dstPortHi = snd dstPort,
       d_icmpType = (if icmp \<and> \<not> g_icmpTypeAggAll g then s_ICMPType s else 0),
       d_icmpCode = (if icmp \<and> \<not> g_icmpCodeAggAll g then s_ICMPCode s else 0),
       d_icmpTypeWild = (icmp \<longrightarrow> g_icmpTypeAggAll g), d_icmpCodeWild = (icmp \<longrightarrow> g_icmpCodeAggAll g)\<rparr>
   }"

section \<open>Text of a descriptor\<close>

definition portString :: "u16 \<Rightarrow> u16 \<Rightarrow> string" where
  "portString lo hi = (if lo = hi then dec (unat lo) else dec (unat lo) @ ''-'' @ dec (unat hi))"

definition resolveDescriptorVar :: "granularity \<Rightarrow> descriptor \<Rightarrow> string \<Rightarrow> string option" where
  "resolveDescriptorVar g d name =
     (if name = ''family'' then Some (family_String (d_family d))
      else if name = ''proto'' then Some (if d_protoWild d then ''any'' else dec (unat (d_proto d)))
      else if name = ''src'' then Some (if g_srcMaskBits g = 0 then ''any'' else pfx_String (prefixOf (d_src d) (g_srcMaskBits g)))
      else if name = ''dst'' then Some (if g_dstMaskBits g = 0 then ''any'' else pfx_String (prefixOf (d_dst d) (g_dstMaskBits g)))
      else if name = ''src_port'' then
        Some (if d_srcPortLo d = 0 \<and> d_srcPortHi d = 65535 then ''any'' else portString (d_srcPortLo d) (d_srcPortHi d))
      else if name = ''dst_port'' then
        Some (if d_dstPortLo d = 0 \<and> d_dstPortHi d = 65535 then ''any'' else portString (d_dstPortLo d) (d_dstPortHi d))
      else if name = ''icmp_type'' then Some (if d_icmpTypeWild d then ''any'' else dec (unat (d_icmpType d)))
      else if name = ''icmp_code'' then Some (if d_icmpCodeWild d then ''any'' else dec (unat (d_icmpCode d)))
      else None)"

definition descriptorString :: "granularity \<Rightarrow> descriptor \<Rightarrow> string" where
  "descriptorString g d =
     ''family='' @ family_String (d_family d) @
     ''|proto='' @ (if d_protoWild d then ''any'' else dec (unat (d_proto d))) @
     ''|src='' @ pfx_String (prefixOf (d_src d) (g_srcMaskBits g)) @
     ''|dst='' @ pfx_String (prefixOf (d_dst d) (g_dstMaskBits g)) @
     ''|src_port='' @ portString (d_srcPortLo d) (d_srcPortHi d) @
     ''|dst_port='' @ portString (d_dstPortLo d) (d_dstPortHi d) @
     (if d_icmpTypeWild d then '''' else ''|icmp_type='' @ dec (unat (d_icmpType d))) @
     (if d_icmpCodeWild d then '''' else ''|icmp_code='' @ dec (unat (d_icmpCode d)))"

definition renderField :: "granularity \<Rightarrow> template \<Rightarrow> descriptor \<Rightarrow> string" where
  "renderField g t d = render t (resolveDescriptorVar g d)"

section \<open>The FlowSpec rule of a descriptor\<close>

definition eq_op :: "u64 \<Rightarrow> NumericOp" where
  "eq_op v = \<lparr>nop_And = False, nop_LT = False, nop_GT = False, nop_EQ = True, nop_Value = v\<rparr>"

definition portRangeOps :: "u16 \<Rightarrow> u16 \<Rightarrow> NumericOp list" where
  "portRangeOps lo hi =
     (if lo = hi then [eq_op (ucast lo)]
      else [\<lparr>nop_And = False, nop_LT = False, nop_GT = True, nop_EQ = True, nop_Value = ucast lo\<rparr>,
            \<lparr>nop_And = True, nop_LT = True, nop_GT = False, nop_EQ = True, nop_Value = ucast hi\<rparr>])"

definition tcpFlagOps :: "u8 \<Rightarrow> u8 \<Rightarrow> BitmaskOp list" where
  "tcpFlagOps care want =
     (let clr = care AND NOT want;
          ops = (if want \<noteq> 0 then [\<lparr>bop_And = False, bop_Not = False, bop_Match = True, bop_Value = ucast want\<rparr>] else [])
      in if clr \<noteq> 0 then ops @ [\<lparr>bop_And = (length ops > 0), bop_Not = True, bop_Match = False, bop_Value = ucast clr\<rparr>]
         else ops)"

text \<open>The flags to emit, given those of the match filter; \<open>None\<close> when nothing is emitted.\<close>

definition resolve :: "tcpEmitSpec \<Rightarrow> u8 \<Rightarrow> u8 \<Rightarrow> (u8 \<times> u8) option" where
  "resolve e matchCare matchWant =
     (case e of
        emitWildcard \<Rightarrow> None
      | emitTemplate cw \<Rightarrow> (if fst cw \<noteq> 0 then Some cw else None)
      | emitDefault \<Rightarrow> (if matchCare \<noteq> 0 then Some (matchCare, matchWant) else None))"

definition emitPrefix :: "granularity \<Rightarrow> emitField \<Rightarrow> descriptor \<Rightarrow> bool \<Rightarrow> verr + prefix option" where
  "emitPrefix g f d isSrc =
     (let addr = (if isSrc then d_src d else d_dst d); bits = (if isSrc then g_srcMaskBits g else g_dstMaskBits g)
      in case f of
           emitWildcard \<Rightarrow> Inr None
         | emitTemplate t \<Rightarrow>
             (case ParsePrefix (renderField g t d) of
                Some p \<Rightarrow> Inr (Some p)
              | None \<Rightarrow> Inl (Errorf (Sprintf ''netip.ParsePrefix(%q)'' [FStr (renderField g t d)])))
         | emitDefault \<Rightarrow> if bits = 0 then Inr None else Inr (Some (prefixOf addr bits)))"

text \<open>An explicit number of a template, of the given width.\<close>

definition emitNumber :: "granularity \<Rightarrow> nat \<Rightarrow> template \<Rightarrow> descriptor \<Rightarrow> verr + NumericOp list" where
  "emitNumber g bits t d =
     (case ParseUint bits (TrimSpace (renderField g t d)) of
        Some v \<Rightarrow> Inr [eq_op (word_of_nat v)]
      | None \<Rightarrow> Inl (Errorf (Sprintf ''strconv.ParseUint: parsing %q'' [FStr (TrimSpace (renderField g t d))])))"

definition emitPort :: "granularity \<Rightarrow> emitField \<Rightarrow> descriptor \<Rightarrow> bool \<Rightarrow> verr + NumericOp list" where
  "emitPort g f d isSrc =
     (let lo = (if isSrc then d_srcPortLo d else d_dstPortLo d); hi = (if isSrc then d_srcPortHi d else d_dstPortHi d)
      in case f of
           emitWildcard \<Rightarrow> Inr []
         | emitTemplate t \<Rightarrow> emitNumber g 16 t d
         | emitDefault \<Rightarrow> if lo = 0 \<and> hi = 65535 then Inr [] else Inr (portRangeOps lo hi))"

definition emitICMP :: "granularity \<Rightarrow> emitField \<Rightarrow> u8 \<Rightarrow> bool \<Rightarrow> descriptor \<Rightarrow> verr + NumericOp list" where
  "emitICMP g f val wild d =
     (case f of
        emitWildcard \<Rightarrow> Inr []
      | emitTemplate t \<Rightarrow> emitNumber g 8 t d
      | emitDefault \<Rightarrow> if wild then Inr [] else Inr [eq_op (ucast val)])"

definition emitProto :: "granularity \<Rightarrow> emitField \<Rightarrow> descriptor \<Rightarrow> verr + NumericOp list" where
  "emitProto g f d =
     (case f of
        emitDefault \<Rightarrow> Inr (if d_protoWild d then [] else [eq_op (ucast (d_proto d))])
      | emitTemplate t \<Rightarrow> ebind (parseProtoName (renderField g t d)) (\<lambda>n. Inr [eq_op (ucast n)])
      | emitWildcard \<Rightarrow> Inr [])"

definition emitFamily :: "granularity \<Rightarrow> emitField \<Rightarrow> descriptor \<Rightarrow> fs_family" where
  "emitFamily g f d =
     (case f of
        emitTemplate t \<Rightarrow> (case parseFamily (renderField g t d) of Inr fs \<Rightarrow> fst fs | Inl e \<Rightarrow> d_family d)
      | _ \<Rightarrow> d_family d)"

definition buildFlowSpec :: "('f, 'p) Rule \<Rightarrow> descriptor \<Rightarrow> verr + fs_rule" where
  "buildFlowSpec r d =
     (let g = ru_gran r; a = ru_action r
      in ebind (emitProto g (fa_proto a) d) (\<lambda>proto.
         ebind (emitPrefix g (fa_src a) d True) (\<lambda>src.
         ebind (emitPrefix g (fa_dst a) d False) (\<lambda>dst.
         ebind (emitPort g (fa_srcPort a) d True) (\<lambda>srcPort.
         ebind (emitPort g (fa_dstPort a) d False) (\<lambda>dstPort.
         ebind (emitICMP g (fa_icmpType a) (d_icmpType d) (d_icmpTypeWild d) d) (\<lambda>icmpType.
         ebind (emitICMP g (fa_icmpCode a) (d_icmpCode d) (d_icmpCodeWild d) d) (\<lambda>icmpCode.
         Inr \<lparr>r_Family = emitFamily g (fa_family a) d,
              r_Match = Match_zero\<lparr>m_Proto := proto,
                HasSrc := (src \<noteq> None), Src := (case src of Some p \<Rightarrow> p | None \<Rightarrow> Prefix_zero),
                HasDst := (dst \<noteq> None), Dst := (case dst of Some p \<Rightarrow> p | None \<Rightarrow> Prefix_zero),
                SrcPort := srcPort, DstPort := dstPort,
                TCPFlags := (case resolve (ru_tcpEmit r) (mf_tcpCare (ru_match r)) (mf_tcpWant (ru_match r)) of
                               Some cw \<Rightarrow> tcpFlagOps (fst cw) (snd cw) | None \<Rightarrow> []),
                ICMPType := icmpType, ICMPCode := icmpCode\<rparr>,
              r_Action = \<lparr>a_Kind = ActionDrop, a_Desc = msg (''detector:'' @ ru_name r)\<rparr>,
              r_Raw = ''detector:'' @ ru_name r @ '':'' @ descriptorString g d\<rparr>))))))))"

section \<open>Samples\<close>

fun spread_loop :: "Sample \<Rightarrow> spreadField list \<Rightarrow> spreadEstimator list \<Rightarrow> (bool \<times> spreadEstimator list) option" where
  "spread_loop s [] es = Some (True, es)"
| "spread_loop s (f # fs) [] = None"
| "spread_loop s (f # fs) (e # es) = do {
     b \<leftarrow> bucket f s;
     (pct, e') \<leftarrow> observe e b;
     (ok, es') \<leftarrow> spread_loop s fs es;
     Some (ok \<and> \<not> pct < sf_minRatio f, e' # es')
   }"

definition spreadOK :: "spreadField list \<Rightarrow> inst \<Rightarrow> Sample \<Rightarrow> (bool \<times> inst) option" where
  "spreadOK gates i s = do {
     let es = (case in_spread i of None \<Rightarrow> map (\<lambda>f. newSpreadEstimator (nat (sf_buckets f))) gates | Some es \<Rightarrow> es);
     (ok, es') \<leftarrow> spread_loop s gates es;
     Some (ok, i\<lparr>in_spread := Some es'\<rparr>)
   }"

definition sampleWeight :: "Sample \<Rightarrow> u64" where
  "sampleWeight s = (let w = ucast (s_SampleRate s) in if w = 0 then 1 else w)"

definition rankWeight :: "'f float_ops \<Rightarrow> bool \<Rightarrow> Sample \<Rightarrow> 'f" where
  "rankWeight F rankBytes s =
     (let w = f_of_u64 F (sampleWeight s) in if rankBytes then f_mul F w (f_of_u64 F (ucast (s_PacketLen s))) else w)"

text \<open>Folding a sample into the instance the pool gave.\<close>

definition foldSample :: "spreadField list \<Rightarrow> inst \<Rightarrow> Sample \<Rightarrow> inst option" where
  "foldSample gates i s = do {
     (ok, i1) \<leftarrow> (if gates \<noteq> [] then spreadOK gates i s else Some (True, i));
     if \<not> ok then Some (i1\<lparr>in_lastSeen := s_At s, in_lastIngressIf := s_IngressIf s\<rparr>)
     else do {
       i2 \<leftarrow> inst_add i1 (s_At s) (s_PacketLen s) (sampleWeight s);
       Some (i2\<lparr>in_lastIngressIf := s_IngressIf s\<rparr>)
     }
   }"

definition Observe :: "'f float_ops \<Rightarrow> ('f, 'p) Rule \<Rightarrow> Sample \<Rightarrow> ('f, 'p) Rule option" where
  "Observe F r s =
     (if \<not> matches (ru_match r) s then Some r
      else do {
        d \<leftarrow> descriptorFor (ru_gran r) s;
        sketch \<leftarrow> hk_add F (ru_sketch r) (descriptor_hash d) (rankWeight F (ru_rankBytes r) s);
        (store, oi) \<leftarrow> admit F (ru_store r) d sketch (s_At s);
        let r1 = r\<lparr>ru_sketch := sketch, ru_store := store\<rparr>;
        case oi of
          None \<Rightarrow> Some r1
        | Some i \<Rightarrow> do {
            i' \<leftarrow> foldSample (ru_spreadFields r) i s;
            Some (r1\<lparr>ru_store := store\<lparr>is_items := gput d i' (is_items store)\<rparr>\<rparr>)
          }
      })"

section \<open>Ticks\<close>

record 'f StatsView =
  sv_InterfaceRates :: "string \<Rightarrow> 'f Rates option"
  sv_TotalRates :: "'f Rates"
  sv_InterfaceWindow :: "string \<Rightarrow> gotime \<Rightarrow> duration \<Rightarrow> duration \<Rightarrow> bool \<Rightarrow> 'f Rates option"
  sv_TotalWindow :: "gotime \<Rightarrow> duration \<Rightarrow> duration \<Rightarrow> bool \<Rightarrow> 'f Rates option"

type_synonym 'f EvalContext = "'f StatsView option"

definition rate_or_zero :: "'f float_ops \<Rightarrow> metricKind \<Rightarrow> 'f Rates option \<Rightarrow> 'f" where
  "rate_or_zero F m r = (case r of Some x \<Rightarrow> selectRate F m x | None \<Rightarrow> f_zero F)"

definition statsValue :: "'f float_ops \<Rightarrow> ring_term \<Rightarrow> string \<Rightarrow> gotime \<Rightarrow> 'f EvalContext \<Rightarrow> 'f" where
  "statsValue F t ingressIf now ctx =
     (case ctx of
        None \<Rightarrow> f_zero F
      | Some v \<Rightarrow>
          let m = t_metric t
          in if t_window t \<le> 0 then
               if isTotal m then selectRate F m (sv_TotalRates v)
               else if ingressIf = '''' then f_zero F
               else rate_or_zero F m (sv_InterfaceRates v ingressIf)
             else
               let peak = (t_agg t = aggMax)
               in if isTotal m then rate_or_zero F m (sv_TotalWindow v now (t_window t) (t_offset t) peak)
                  else if ingressIf = '''' then f_zero F
                  else rate_or_zero F m (sv_InterfaceWindow v ingressIf now (t_window t) (t_offset t) peak))"

definition termValue :: "'f float_ops \<Rightarrow> ring_term \<Rightarrow> inst \<Rightarrow> gotime \<Rightarrow> 'f EvalContext \<Rightarrow> 'f option" where
  "termValue F t i now ctx =
     (if isStats (t_metric t) then Some (statsValue F t (in_lastIngressIf i) now ctx)
      else case ringFor i (t_ring t) of None \<Rightarrow> Some (f_zero F) | Some ring \<Rightarrow> aggregate F ring now t)"

fun eval_env :: "'f float_ops \<Rightarrow> ring_term list \<Rightarrow> inst \<Rightarrow> gotime \<Rightarrow> 'f EvalContext \<Rightarrow> (string \<times> 'f) list option" where
  "eval_env F [] i now ctx = Some []"
| "eval_env F (t # ts) i now ctx = do {
     v \<leftarrow> termValue F t i now ctx;
     env \<leftarrow> eval_env F ts i now ctx;
     Some ((t_name t, v) # env)
   }"

fun maxValue :: "'f float_ops \<Rightarrow> 'f option \<Rightarrow> 'f list \<Rightarrow> 'f" where
  "maxValue F best [] = (case best of None \<Rightarrow> f_zero F | Some v \<Rightarrow> v)"
| "maxValue F best (v # vs) =
     maxValue F (case best of None \<Rightarrow> Some v | Some b \<Rightarrow> if f_less F b v then Some v else Some b) vs"

definition renderDescription :: "'f float_ops \<Rightarrow> ('f, 'p) Rule \<Rightarrow> inst \<Rightarrow> (string \<times> 'f) list \<Rightarrow> string" where
  "renderDescription F r i vals =
     (case ru_description r of
        None \<Rightarrow> ''''
      | Some t \<Rightarrow> render t (\<lambda>name.
          case map_of vals name of
            Some v \<Rightarrow> Some (f_string F v)
          | None \<Rightarrow> if name = ''ingress_if'' then Some (in_lastIngressIf i)
                    else resolveDescriptorVar (ru_gran r) (in_key i) name))"

definition makeEvent :: "'f float_ops \<Rightarrow> ('f, 'p) Rule \<Rightarrow> inst \<Rightarrow> (string \<times> 'f) list \<Rightarrow> fs_rule \<Rightarrow> 'f Event" where
  "makeEvent F r i env fr =
     (let key = descriptorString (ru_gran r) (in_key i)
      in \<lparr>ev_ID = ru_name r @ ''/'' @ key, ev_RuleName = ru_name r, ev_InstanceKey = key,
          ev_Description = renderDescription F r i env, ev_TTL = fa_ttl (ru_action r),
          ev_Refresh = fa_refresh (ru_action r), ev_ObservedPPS = maxValue F None (map snd env), ev_Rule = fr\<rparr>)"

text \<open>The machine returns an error or a value; \<open>None\<close> stands for a value that is not a Boolean.\<close>

type_synonym ('f, 'p) machine = "'p \<Rightarrow> (string \<times> 'f) list \<Rightarrow> verr + bool option"

definition evalInstance :: "'f float_ops \<Rightarrow> ('f, 'p) machine \<Rightarrow> ('f, 'p) Rule \<Rightarrow> inst \<Rightarrow> gotime \<Rightarrow> 'f EvalContext \<Rightarrow>
    (inst \<times> 'f Event option) option" where
  "evalInstance F run r i now ctx = do {
     env \<leftarrow> eval_env F (ru_terms r) i now ctx;
     case run (ru_expr r) env of
       Inl e \<Rightarrow> Some (i, None)
     | Inr res \<Rightarrow>
         if res \<noteq> Some True then Some (i\<lparr>in_trueSince := Time_zero\<rparr>, None)
         else
           let i1 = (if IsZero (in_trueSince i) then i\<lparr>in_trueSince := now\<rparr> else i)
           in if time_Sub now (in_trueSince i1) < ru_sustained r then Some (i1, None)
              else
                let (emit, i2) = shouldEmit i1 now (ru_emitInterval r)
                in if \<not> emit then Some (i2, None)
                   else case buildFlowSpec r (in_key i2) of
                          Inl e \<Rightarrow> Some (i2, None)
                        | Inr fr \<Rightarrow> Some (i2, Some (makeEvent F r i2 env fr))
   }"

definition ageSketch :: "'f float_ops \<Rightarrow> ('f, 'p) Rule \<Rightarrow> gotime \<Rightarrow> ('f, 'p) Rule" where
  "ageSketch F r now =
     (let dt = time_Sub now (ru_lastDecay r);
          r1 = (if \<not> IsZero (ru_lastDecay r) \<and> ru_halfLife r > 0 \<and> dt > 0
                then r\<lparr>ru_sketch := decayAll F (ru_sketch r)
                       (f_pow F (f_half F) (f_div F (f_seconds F dt) (f_seconds F (ru_halfLife r))))\<rparr>
                else r)
      in r1\<lparr>ru_lastDecay := now\<rparr>)"

fun tick_loop :: "'f float_ops \<Rightarrow> ('f, 'p) machine \<Rightarrow> ('f, 'p) Rule \<Rightarrow> gotime \<Rightarrow> 'f EvalContext \<Rightarrow>
    (descriptor \<times> inst) list \<Rightarrow> ((descriptor \<times> inst) list \<times> 'f Event list) option" where
  "tick_loop F run r now ctx [] = Some ([], [])"
| "tick_loop F run r now ctx ((k, i) # items) = do {
     (i', oev) \<leftarrow> evalInstance F run r i now ctx;
     (items', evs) \<leftarrow> tick_loop F run r now ctx items;
     Some ((k, i') # items', (case oev of None \<Rightarrow> evs | Some ev \<Rightarrow> ev # evs))
   }"

definition Tick :: "'f float_ops \<Rightarrow> ('f, 'p) machine \<Rightarrow> ('f, 'p) Rule \<Rightarrow> gotime \<Rightarrow> 'f EvalContext \<Rightarrow>
    (('f, 'p) Rule \<times> 'f Event list) option" where
  "Tick F run r now ctx = do {
     let r1 = ageSketch F r now;
     (items, evs) \<leftarrow> tick_loop F run r1 now ctx (is_items (ru_store r1));
     Some (r1\<lparr>ru_store := (ru_store r1)\<lparr>is_items := items\<rparr>\<rparr>, evs)
   }"

section \<open>Queries\<close>

definition InstanceCount :: "('f, 'p) Rule \<Rightarrow> int" where
  "InstanceCount r = store_len (ru_store r)"

definition MaxInstances :: "('f, 'p) Rule \<Rightarrow> int" where
  "MaxInstances r = is_max (ru_store r)"

definition UsesVPPStats :: "('f, 'p) Rule \<Rightarrow> bool" where
  "UsesVPPStats r = list_ex (\<lambda>t. isStats (t_metric t)) (ru_terms r)"

definition StatsWindows :: "('f, 'p) Rule \<Rightarrow> (duration \<times> duration) list" where
  "StatsWindows r = map (\<lambda>t. (t_window t, t_offset t)) (filter (\<lambda>t. isStats (t_metric t) \<and> t_window t > 0) (ru_terms r))"

end
