(* ===== verification/RuleInv.thy ===== *)
theory RuleInv
  imports DetRule
begin

text \<open>
  The invariant of a running detection rule, and that samples and ticks keep it without a panic:
  every index of the rings, the sketch and the diversity estimators stays in range.
\<close>

unbundle bit_operations_syntax

section \<open>Invariant\<close>

text \<open>A sample whose addresses are of its family, as the packet decoders produce them.\<close>

definition sample_wf :: "Sample \<Rightarrow> bool" where
  "sample_wf s \<longleftrightarrow> (if s_Family s = FamilyIPv6 then Is6 (s_Src s) \<and> Is6 (s_Dst s) else Is4 (s_Src s) \<and> Is4 (s_Dst s))"

definition spread_fits :: "spreadField list \<Rightarrow> inst \<Rightarrow> bool" where
  "spread_fits gates i \<longleftrightarrow> (\<forall>es. in_spread i = Some es \<longrightarrow>
     list_all2 (\<lambda>f e. spread_ok e \<and> se_buckets e = sf_buckets f) gates es)"

definition rule_inv :: "('f, 'p) Rule \<Rightarrow> bool" where
  "rule_inv r \<longleftrightarrow> rule_ok r \<and> hk_shape (ru_sketch r) \<and> pool_ok (ru_history r) (ru_store r) \<and>
     list_all (\<lambda>(k, i). spread_fits (ru_spreadFields r) i) (is_items (ru_store r))"

lemma compileRule_inv:
  "compileRule F compile fingerprint cfg = Inr r \<Longrightarrow> history_typed (rc_History cfg) \<Longrightarrow> rule_inv r"
proof -
  assume c: "compileRule F compile fingerprint cfg = Inr r" and "history_typed (rc_History cfg)"
  then have ok: "rule_ok r" by (rule compileRule_ok)
  from c have "ru_store r = newInstanceStore (ru_history r)" and "hk_shape (ru_sketch r)"
    by (auto elim!: compileRule_Inr simp: newHeavyKeeper_shape)
  with ok newInstanceStore_ok [of "ru_history r"] show ?thesis
    by (auto simp: rule_inv_def rule_ok_def) (simp_all add: newInstanceStore_def)
qed

section \<open>Samples\<close>

lemma reduce_total: "portAgg_ok p \<Longrightarrow> \<exists>lh. reduce p port = Some lh"
  by (auto simp: reduce_def portAgg_ok_def Let_def split: portAggMode.splits)

lemma descriptorFor_total: "gran_ok g \<Longrightarrow> \<exists>d. descriptorFor g s = Some d"
  using reduce_total [of "g_srcPortAgg g" "s_SrcPort s"] reduce_total [of "g_dstPortAgg g" "s_DstPort s"]
  by (auto simp: descriptorFor_def gran_ok_def Let_def)

text \<open>The region of a sample is one of the buckets of the gate.\<close>

lemma bucket_range:
  assumes ok: "spread_field_ok m f" and "matches m s" and wf: "sample_wf s"
  shows "\<exists>k. bucket f s = Some k \<and> 0 \<le> k \<and> k < sf_buckets f"
proof -
  have n: "0 < sf_buckets f" "sf_buckets f \<le> 20" using ok by (auto simp: spread_field_ok_def)
  have reg: "0 \<le> int (region b v (nat (sf_buckets f))) \<and> int (region b v (nat (sf_buckets f))) < sf_buckets f" for b v
    using region_less [of "nat (sf_buckets f)" b v] n(1) by linarith
  have ip: "\<exists>k. ipRegion a (sf_ipv6 f) (sf_maskBits f) (sf_buckets f) = Some k \<and> 0 \<le> k \<and> k < sf_buckets f"
    if kind: "sf_kind f \<in> {spreadSrc, spreadDst}" and a: "a \<in> {s_Src s, s_Dst s}" for a
  proof -
    have fam: "sf_ipv6 f \<longleftrightarrow> s_Family s = FamilyIPv6" and bits: "0 \<le> sf_maskBits f" "sf_maskBits f < (if sf_ipv6 f then 128 else 32)"
      using ok kind assms(2) by (auto simp: spread_field_ok_def matches_def split: if_splits)
    show ?thesis
    proof (cases "sf_ipv6 f")
      case True
      with a wf fam have "Is6 a" by (auto simp: sample_wf_def)
      then obtain x where "a = Addr6 x" by (cases a) auto
      with True bits n show ?thesis by (auto simp: ipRegion_v6 reg)
    next
      case False
      with a wf fam have "Is4 a" by (auto simp: sample_wf_def)
      then obtain x where "a = Addr4 x" by (cases a) auto
      with False bits n show ?thesis by (auto simp: ipRegion_v4 reg)
    qed
  qed
  have port: "\<exists>k. portRegion p (sf_portLo f) (sf_portSize f) (sf_portMod f) (sf_buckets f) = Some k \<and> 0 \<le> k \<and> k < sf_buckets f"
    if "sf_kind f \<notin> {spreadSrc, spreadDst}" for p
    by (rule portRegion_ok [OF n]) (use ok that in \<open>auto simp: spread_field_ok_def\<close>)
  show ?thesis using ip port by (cases "sf_kind f") (simp_all add: bucket_def)
qed

lemma spread_loop_ok:
  assumes "list_all2 (\<lambda>f e. spread_ok e \<and> se_buckets e = sf_buckets f) gates es"
    and "list_all (spread_field_ok m) gates" and "matches m s" and "sample_wf s"
  shows "\<exists>ok es'. spread_loop s gates es = Some (ok, es') \<and>
    list_all2 (\<lambda>f e. spread_ok e \<and> se_buckets e = sf_buckets f) gates es'"
  using assms(1,2)
proof (induction gates es rule: list_all2_induct)
  case (Cons f gates e es)
  then obtain ok es' where IH: "spread_loop s gates es = Some (ok, es')"
    "list_all2 (\<lambda>f e. spread_ok e \<and> se_buckets e = sf_buckets f) gates es'" by auto
  obtain k where k: "bucket f s = Some k" "0 \<le> k" "k < se_buckets e"
    using bucket_range [OF _ assms(3,4), of f] Cons by auto
  obtain pct e' where "observe e k = Some (pct, e')" "spread_ok e'" "se_buckets e' = se_buckets e"
    using observe_ok [of e k] Cons.hyps k by metis
  with IH k Cons.hyps show ?case by simp
qed auto

lemma spreadOK_ok:
  assumes "spread_fits gates i" and "list_all (spread_field_ok m) gates" and "matches m s" and "sample_wf s"
  shows "\<exists>ok es. spreadOK gates i s = Some (ok, i\<lparr>in_spread := Some es\<rparr>) \<and>
    list_all2 (\<lambda>f e. spread_ok e \<and> se_buckets e = sf_buckets f) gates es"
proof -
  define es where "es = (case in_spread i of None \<Rightarrow> map (\<lambda>f. newSpreadEstimator (nat (sf_buckets f))) gates | Some es \<Rightarrow> es)"
  have "spread_ok (newSpreadEstimator (nat (sf_buckets f))) \<and> se_buckets (newSpreadEstimator (nat (sf_buckets f))) = sf_buckets f"
    if "f \<in> set gates" for f
    using that assms(2) newSpreadEstimator_ok [of "nat (sf_buckets f)"] by (auto simp: list_all_iff spread_field_ok_def)
  then have "list_all2 (\<lambda>f e. spread_ok e \<and> se_buckets e = sf_buckets f) gates es"
    using assms(1) by (auto simp: es_def spread_fits_def list_all2_conv_all_nth split: option.splits)
  from spread_loop_ok [OF this assms(2-4)] show ?thesis by (auto simp: spreadOK_def es_def [symmetric] Let_def)
qed

text \<open>An instance after a sample, still fitting its history.\<close>

lemma foldSample_ok:
  assumes "inst_fits h k i" and "spread_fits gates i" and "list_all (spread_field_ok m) gates"
    and "matches m s" and "sample_wf s"
  shows "\<exists>i'. foldSample gates i s = Some i' \<and> inst_fits h k i' \<and> spread_fits gates i'"
proof -
  obtain ok i1 where i1: "(if gates \<noteq> [] then spreadOK gates i s else Some (True, i)) = Some (ok, i1)"
    and fits: "inst_fits h k i1" "spread_fits gates i1"
    using spreadOK_ok [OF assms(2-5)] assms(1,2)
    by (cases "gates = []") (auto simp: inst_fits_def spread_fits_def)
  from inst_add_fits [OF fits(1), of "s_At s" "s_PacketLen s" "sampleWeight s"]
  obtain i2 where i2: "inst_add i1 (s_At s) (s_PacketLen s) (sampleWeight s) = Some i2" "inst_fits h k i2" by blast
  then have "in_spread i2 = in_spread i1" by (auto simp: inst_add_def split: bind_splits)
  with i1 i2 fits show ?thesis by (cases ok) (auto simp: foldSample_def inst_fits_def spread_fits_def)
qed

lemma hk_add_total:
  assumes "hk_shape h"
  shows "\<exists>h'. hk_add F h key w = Some h' \<and> hk_shape h'"
proof -
  have "hk_shape h \<Longrightarrow> set is \<subseteq> {..<hk_depth h} \<Longrightarrow> \<exists>h'. add_rows F key w is h = Some h' \<and> hk_shape h'" for "is" h
  proof (induction "is" arbitrary: h)
    case (Cons i "is")
    then obtain h1 where "add_row F key w i h = Some h1" "hk_shape h1" "hk_depth h1 = hk_depth h"
      using add_row_shape [of h i F key w] by auto
    with Cons show ?case by simp
  qed simp
  from this [OF assms, of "[0..<hk_depth h]"] show ?thesis by (auto simp: hk_add_def lessThan_atLeast0)
qed

text \<open>\<^verbatim>\<open>admit\<close> only adds instances without an estimator.\<close>

lemma admit_items:
  assumes "admit F s key sketch now = Some (s', r)"
  shows "set (is_items s') \<subseteq> insert (key, newInstance key (is_history s) now) (set (is_items s))"
    and "r = Some i \<Longrightarrow> (key, i) \<in> set (is_items s')" and "is_max s' = is_max s" "is_history s' = is_history s"
proof -
  let ?new = "newInstance key (is_history s) now"
  consider "s' = s" "r = None" | "s' = s" "r = map_of (is_items s) key"
    | v where "s' = s\<lparr>is_items := gput key ?new (gdel v (is_items s))\<rparr>" "r = Some ?new"
    | "s' = s\<lparr>is_items := gput key ?new (is_items s)\<rparr>" "r = Some ?new"
    using assms by (cases "map_of (is_items s) key") (auto simp: admit_def Let_def split: if_splits bind_splits)
  note cases = this
  have put: "(key, v) \<in> set (gput key v m)" for v :: inst and m
    by (rule map_of_SomeD) simp
  show "set (is_items s') \<subseteq> insert (key, ?new) (set (is_items s))"
    using cases set_gput_subset [of key ?new] set_gdel_subset by cases fastforce+
  show "r = Some i \<Longrightarrow> (key, i) \<in> set (is_items s')"
    using cases put by cases (auto dest: map_of_SomeD)
  show "is_max s' = is_max s" "is_history s' = is_history s" by (use cases in cases, simp_all)+
qed

lemma Observe_inv:
  assumes "float_laws F" and inv: "rule_inv r" and wf: "sample_wf s"
  shows "\<exists>r'. Observe F r s = Some r' \<and> rule_inv r'"
proof (cases "matches (ru_match r) s")
  case False
  with inv show ?thesis by (simp add: Observe_def)
next
  case m: True
  let ?h = "ru_history r" and ?gates = "ru_spreadFields r"
  have ok: "rule_ok r" "hk_shape (ru_sketch r)" "pool_ok ?h (ru_store r)"
    and spr: "list_all (\<lambda>(k, i). spread_fits ?gates i) (is_items (ru_store r))"
    using inv by (auto simp: rule_inv_def)
  have gran: "gran_ok (ru_gran r)" and gates: "list_all (spread_field_ok (ru_match r)) ?gates"
    using ok(1) by (simp_all add: rule_ok_def)
  obtain d where d: "descriptorFor (ru_gran r) s = Some d"
    using descriptorFor_total [OF gran] by blast
  obtain sk where sk: "hk_add F (ru_sketch r) (descriptor_hash d) (rankWeight F (ru_rankBytes r) s) = Some sk" "hk_shape sk"
    using hk_add_total [OF ok(2)] by blast
  obtain st oi where st: "admit F (ru_store r) d sk (s_At s) = Some (st, oi)" "pool_ok ?h st"
    using admit_ok [OF assms(1) sk(2) ok(3)] by blast
  note items = admit_items [OF st(1)]
  have new: "spread_fits ?gates (newInstance d (is_history (ru_store r)) (s_At s))"
    by (simp add: spread_fits_def newInstance_def)
  have spr1: "spread_fits ?gates i" if "(k, i) \<in> set (is_items st)" for k i
    using items(1) that spr new by (auto simp: list_all_iff)
  show ?thesis
  proof (cases oi)
    case None
    with m d sk st spr1 ok(1) show ?thesis
      by (auto simp: Observe_def rule_inv_def rule_ok_def list_all_iff)
  next
    case (Some i)
    then have mem: "(d, i) \<in> set (is_items st)" by (rule items(2))
    with st(2) have "inst_fits ?h d i" by (auto simp: pool_ok_def list_all_iff)
    from foldSample_ok [OF this spr1 [OF mem] gates m wf]
    obtain i' where i': "foldSample ?gates i s = Some i'" "inst_fits ?h d i'" "spread_fits ?gates i'" by blast
    have "pool_ok ?h (st\<lparr>is_items := gput d i' (is_items st)\<rparr>)"
      by (rule pool_put [OF st(2) _ i'(2)]) (use mem in force)
    moreover have "spread_fits ?gates j" if "(k, j) \<in> set (gput d i' (is_items st))" for k j
      using set_gput_subset [of d i' "is_items st"] that spr1 i'(3) by auto
    ultimately show ?thesis
      using m d sk st i' Some ok(1) by (auto simp: Observe_def rule_inv_def rule_ok_def list_all_iff)
  qed
qed

section \<open>Ticks\<close>

lemma slot_at_total: "0 < length slots \<Longrightarrow> \<exists>pb. slot_at slots e = Some pb"
  by (simp add: slot_at_def slotIndex_mod)

lemma agg_loop_total: "0 < length slots \<Longrightarrow> \<exists>q. agg_loop slots a b = Some q"
proof -
  assume n: "0 < length slots"
  have "acc \<noteq> None \<Longrightarrow> foldl (agg_step slots) acc es \<noteq> None" for acc es
  proof (induction es arbitrary: acc)
    case (Cons e es)
    obtain p q where "slot_at slots e = Some (p, q)" using slot_at_total [OF n, of e] by auto
    with Cons.prems have "agg_step slots acc e \<noteq> None" by (auto simp: agg_step_def)
    with Cons.IH show ?case by simp
  qed simp
  then show ?thesis by (auto simp: agg_loop_def)
qed

lemma aggregate_total: "ring_fits r sh \<Longrightarrow> \<exists>v. aggregate F r now t = Some v"
proof -
  assume "ring_fits r sh"
  then have n: "0 < length (rg_slots r)" "rg_resolution r \<noteq> 0" by (auto simp: ring_fits_def shape_ok_def)
  let ?e = "quot (UnixNano (now - t_offset t)) (rg_resolution r)"
  obtain q where "agg_loop (rg_slots r) (?e - t_slots t + 1) ?e = Some q" using agg_loop_total [OF n(1)] by blast
  with n(2) show ?thesis by (simp add: aggregate_def ring_epoch_def)
qed

lemma ringFor_fits: "inst_fits h k i \<Longrightarrow> ringFor i q = Some ring \<Longrightarrow> ring_fits ring (ring_shape h q)"
  by (cases q) (auto simp: inst_fits_def opt_fits_def split: option.splits)

lemma termValue_total: "inst_fits h k i \<Longrightarrow> \<exists>v. termValue F t i now ctx = Some v"
  using aggregate_total [OF ringFor_fits, of h k i "t_ring t" _ F now t]
  by (auto simp: termValue_def split: option.splits)

lemma eval_env_total: "inst_fits h k i \<Longrightarrow> \<exists>env. eval_env F ts i now ctx = Some env \<and> map fst env = map t_name ts"
proof (induction ts)
  case (Cons t ts)
  with termValue_total [OF Cons.prems, of F t now ctx] show ?case by auto
qed simp

lemma shouldEmit_keeps:
  "shouldEmit i now d = (b, i') \<Longrightarrow> i' = i \<or> i' = i\<lparr>in_lastEvent := now\<rparr>"
  by (auto simp: shouldEmit_def split: if_splits)

text \<open>Evaluation changes only the times of an instance.\<close>

lemma evalInstance_total:
  assumes "inst_fits h k i"
  shows "\<exists>i' oev. evalInstance F run r i now ctx = Some (i', oev) \<and> inst_fits h k i' \<and> in_spread i' = in_spread i"
proof -
  obtain env where env: "eval_env F (ru_terms r) i now ctx = Some env"
    using eval_env_total [OF assms] by blast
  define i1 where "i1 = (if IsZero (in_trueSince i) then i\<lparr>in_trueSince := now\<rparr> else i)"
  obtain emit i2 where e: "shouldEmit i1 now (ru_emitInterval r) = (emit, i2)" by fastforce
  have i0: "inst_fits h k (i\<lparr>in_trueSince := Time_zero\<rparr>)" using assms by (simp add: inst_fits_def)
  have i1: "inst_fits h k i1" "in_spread i1 = in_spread i" using assms by (simp_all add: inst_fits_def i1_def)
  with shouldEmit_keeps [OF e] have i2: "inst_fits h k i2" "in_spread i2 = in_spread i"
    by (auto simp: inst_fits_def)
  show ?thesis
    unfolding evalInstance_def env Option.bind.simps i1_def [symmetric] Let_def e prod.case
    using i0 i1 i2 assms by (simp split: sum.split)
qed

lemma tick_loop_ok:
  "list_all (\<lambda>(k, i). inst_fits h k i \<and> spread_fits gates i) items \<Longrightarrow>
   \<exists>items' evs. tick_loop F run r now ctx items = Some (items', evs) \<and> map fst items' = map fst items \<and>
     list_all (\<lambda>(k, i). inst_fits h k i \<and> spread_fits gates i) items'"
proof (induction items)
  case (Cons x items)
  obtain k i where x: "x = (k, i)" by fastforce
  with Cons.prems have i: "inst_fits h k i" "spread_fits gates i" by simp_all
  obtain i' oev where "evalInstance F run r i now ctx = Some (i', oev)" "inst_fits h k i'" "in_spread i' = in_spread i"
    using evalInstance_total [OF i(1)] by blast
  with Cons i(2) x show ?case by (auto simp: spread_fits_def)
qed simp

lemma Tick_inv:
  assumes "rule_inv r"
  shows "\<exists>r' evs. Tick F run r now ctx = Some (r', evs) \<and> rule_inv r'"
proof -
  let ?r = "ageSketch F r now"
  have age: "ru_match ?r = ru_match r" "ru_gran ?r = ru_gran r" "ru_spreadFields ?r = ru_spreadFields r"
    "ru_history ?r = ru_history r" "ru_terms ?r = ru_terms r" "ru_tcpEmit ?r = ru_tcpEmit r" "ru_action ?r = ru_action r"
    "ru_store ?r = ru_store r"
    by (simp_all add: ageSketch_def Let_def)
  have sk: "hk_shape (ru_sketch ?r)"
    using assms by (auto simp: rule_inv_def ageSketch_def Let_def decayAll_def hk_shape_def list_all_length)
  have items: "list_all (\<lambda>(k, i). inst_fits (ru_history r) k i \<and> spread_fits (ru_spreadFields r) i) (is_items (ru_store r))"
    using assms by (auto simp: rule_inv_def pool_ok_def list_all_iff)
  from tick_loop_ok [OF items, of F run ?r now ctx] obtain items' evs where
    t: "tick_loop F run ?r now ctx (is_items (ru_store r)) = Some (items', evs)" "map fst items' = map fst (is_items (ru_store r))"
    "list_all (\<lambda>(k, i). inst_fits (ru_history r) k i \<and> spread_fits (ru_spreadFields r) i) items'" by blast
  from t(2) have "length items' = length (is_items (ru_store r))" by (metis length_map)
  with assms t age sk show ?thesis
    by (auto simp: Tick_def Let_def rule_inv_def rule_ok_def pool_ok_def store_len_def list_all_iff)
qed

section \<open>Runs\<close>

datatype 'f rule_input = InSample Sample | InTick gotime "'f EvalContext"

fun rule_step :: "'f float_ops \<Rightarrow> ('f, 'p) machine \<Rightarrow> ('f, 'p) Rule \<Rightarrow> 'f rule_input \<Rightarrow> (('f, 'p) Rule \<times> 'f Event list) option" where
  "rule_step F run r (InSample s) = do { r' \<leftarrow> Observe F r s; Some (r', []) }"
| "rule_step F run r (InTick now ctx) = Tick F run r now ctx"

fun rule_run :: "'f float_ops \<Rightarrow> ('f, 'p) machine \<Rightarrow> ('f, 'p) Rule \<Rightarrow> 'f rule_input list \<Rightarrow> (('f, 'p) Rule \<times> 'f Event list) option" where
  "rule_run F run r [] = Some (r, [])"
| "rule_run F run r (x # xs) = do {
     (r1, evs) \<leftarrow> rule_step F run r x;
     (r2, evs') \<leftarrow> rule_run F run r1 xs;
     Some (r2, evs @ evs')
   }"

fun input_wf :: "'f rule_input \<Rightarrow> bool" where
  "input_wf (InSample s) = sample_wf s"
| "input_wf (InTick now ctx) = True"

lemma rule_step_inv:
  "float_laws F \<Longrightarrow> rule_inv r \<Longrightarrow> input_wf x \<Longrightarrow> \<exists>r' evs. rule_step F run r x = Some (r', evs) \<and> rule_inv r'"
  using Observe_inv [of F r] Tick_inv [of r F run] by (cases x) fastforce+

lemma rule_run_inv:
  assumes "float_laws F"
  shows "rule_inv r \<Longrightarrow> list_all input_wf xs \<Longrightarrow> \<exists>r' evs. rule_run F run r xs = Some (r', evs) \<and> rule_inv r'"
proof (induction xs arbitrary: r)
  case (Cons x xs)
  then obtain r1 evs where "rule_step F run r x = Some (r1, evs)" "rule_inv r1"
    using rule_step_inv [OF assms] by fastforce
  with Cons show ?case by fastforce
qed simp

section \<open>Safety of a rule\<close>

text \<open>The built-in rule \<^verbatim>\<open>tcp-scan-ipv4\<close> (rules/tcp-scan.yaml).\<close>

definition tcp_scan_ipv4 :: RuleConfig where
  "tcp_scan_ipv4 = \<lparr>rc_Name = ''tcp-scan-ipv4'',
     rc_Match = \<lparr>mc_Family = ''ipv4'', mc_Proto = [''tcp''], mc_Src = '''', mc_Dst = '''', mc_SrcPort = [],
       mc_DstPort = [22, 23, 139, 445, 1433, 2323, 3306, 3389, 5432, 5900, 6379, 9200, 11211],
       mc_PacketLen = \<lparr>cmp_LT = 0, cmp_LTE = 0, cmp_GT = 0, cmp_GTE = 0\<rparr>,
       mc_TCPFlags = ''syn !ack'', mc_ICMPType = [], mc_ICMPCode = []\<rparr>,
     rc_Aggregate = \<lparr>ac_Proto = ''exact'', ac_Src = ''/32'', ac_Dst = ''/0'', ac_SrcPort = ''all'', ac_DstPort = ''exact'',
       ac_ICMPType = '''', ac_ICMPCode = ''''\<rparr>,
     rc_History = \<lparr>hc_Fine = \<lparr>rcf_Resolution = second, rcf_Duration = 10 * minute\<rparr>,
       hc_Medium = \<lparr>rcf_Resolution = 0, rcf_Duration = 0\<rparr>, hc_Coarse = \<lparr>rcf_Resolution = 0, rcf_Duration = 0\<rparr>,
       hc_MaxInstances = 100\<rparr>,
     rc_Trigger = \<lparr>tg_Terms = [(''rate'', \<lparr>tc_Metric = ''pps'', tc_Window = 30 * second, tc_Offset = 0, tc_Agg = ''''\<rparr>)],
       tg_Expr = ''rate > 10000'', tg_Sustained = 20 * second\<rparr>,
     rc_FlowSpec = \<lparr>fc_Action = ''drop'', fc_TTL = 600 * second, fc_Refresh = Some True, fc_Family = '''', fc_Proto = '''',
       fc_SrcPrefix = '''', fc_DstPrefix = '''', fc_SrcPort = '''', fc_DstPort = '''', fc_TCPFlags = '''',
       fc_ICMPType = '''', fc_ICMPCode = ''''\<rparr>,
     rc_Description = ''tcp scan/new-conn surge from {{src}} dport={{dst_port}}, attempts/s={{rate}}'',
     rc_Rank = ''rate'', rc_RatioDetection = [\<lparr>ri_Name = ''dst'', ri_MinRatio = 30\<rparr>]\<rparr>"

lemma tcp_scan_compiles:
  "\<exists>r. compileRule real_ops (\<lambda>src names. Inr src) (\<lambda>cfg. ''fp'') tcp_scan_ipv4 = Inr r"
proof -
  have "\<not> isl (compileRule real_ops (\<lambda>src names. Inr src) (\<lambda>cfg. ''fp'') tcp_scan_ipv4)" by code_simp
  then show ?thesis by (metis isl_def sum.exhaust)
qed

lemma tcp_scan_typed: "history_typed (rc_History tcp_scan_ipv4)"
  by (simp add: history_typed_def tcp_scan_ipv4_def minute_def second_def)

text \<open>
  C30: A rule that compiles is well-formed: its prefix lengths, port ranges and steps are in range,
  wanted TCP flags are tested flags and need a rule for TCP only, the diversity gates have
  between 1 and 20 buckets over an aggregated field, every history term reads a ring that covers
  its window, and its pool and sketch are empty and in shape.
\<close>

theorem compiled_rule_wf:
  assumes "compileRule F compile fingerprint cfg = Inr r" and "history_typed (rc_History cfg)"
  shows "rule_inv r"
  using assms by (rule compileRule_inv)

theorem compiled_rule_wf_witness:
  "\<exists>r. compileRule real_ops (\<lambda>src names. Inr src) (\<lambda>cfg. ''fp'') tcp_scan_ipv4 = Inr r \<and> rule_inv r"
  using tcp_scan_compiles compiled_rule_wf [OF _ tcp_scan_typed] by blast

lemma rule_inv_count: "rule_inv r \<Longrightarrow> InstanceCount r \<le> MaxInstances r"
  by (auto simp: rule_inv_def rule_ok_def pool_ok_def InstanceCount_def MaxInstances_def)

text \<open>
  C29: A compiled rule never panics and keeps its invariant: for every sequence of samples with
  addresses of their family and of ticks, with any expression machine and any statistics, no
  slot, bucket or estimator index is out of range, no division is by zero, and the number of
  instances never exceeds the configured maximum.
\<close>

theorem rule_run_safe:
  assumes "float_laws F" and "compileRule F compile fingerprint cfg = Inr r" and "history_typed (rc_History cfg)"
    and "list_all input_wf xs"
  shows "\<exists>r' evs. rule_run F run r xs = Some (r', evs) \<and> rule_inv r' \<and> InstanceCount r' \<le> MaxInstances r'"
  using rule_run_inv [OF assms(1) compileRule_inv [OF assms(2,3)] assms(4)] rule_inv_count by blast

definition scan_sample :: Sample where
  "scan_sample = Sample_zero\<lparr>s_At := 1700000000 * second, s_Src := Addr4 0xc0000201, s_Dst := Addr4 0xc6336401, s_Proto := 6,
     s_SrcPort := 40000, s_DstPort := 22, s_PacketLen := 60, s_TCPFlags := 2, s_IngressIf := ''eth0'', s_SampleRate := 1000\<rparr>"

theorem rule_run_safe_witness:
  "\<exists>r r' evs. compileRule real_ops (\<lambda>src names. Inr src) (\<lambda>cfg. ''fp'') tcp_scan_ipv4 = Inr r \<and>
     rule_run real_ops (\<lambda>p env. Inr (Some True)) r [InSample scan_sample, InTick (1700000001 * second) None] = Some (r', evs) \<and>
     InstanceCount r' \<le> MaxInstances r'"
proof -
  obtain r where r: "compileRule real_ops (\<lambda>src names. Inr src) (\<lambda>cfg. ''fp'') tcp_scan_ipv4 = Inr r"
    using tcp_scan_compiles by blast
  have "list_all input_wf [InSample scan_sample, InTick (1700000001 * second) None]"
    by (simp add: sample_wf_def scan_sample_def Sample_zero_def)
  from rule_run_safe [OF real_laws.float_laws_axioms r tcp_scan_typed this] r show ?thesis by blast
qed

end
