(* ===== verification/Mitigation.thy ===== *)
theory Mitigation
  imports RuleInv Matching
begin

text \<open>
  From a detection to an ACL entry: the FlowSpec rule that a detection rule builds for a
  descriptor (rule.go), its translation, and the packets the entry drops. Detection counts
  packets by descriptor and mitigation drops packets by entry; the theorem is that the two agree.
\<close>

unbundle bit_operations_syntax

section \<open>The parts of a descriptor\<close>

text \<open>A masked address and the prefix of the descriptor.\<close>

definition clamp :: "int \<Rightarrow> int \<Rightarrow> int" where
  "clamp mx bits = (if bits < 0 \<or> bits > mx then mx else bits)"

lemma clampBits_simps [simp]: "clampBits (Addr4 x) bits = clamp 32 bits" "clampBits (Addr6 y) bits = clamp 128 bits"
  by (simp_all add: clampBits_def clamp_def)

lemma clamp_range [simp]: "0 \<le> mx \<Longrightarrow> 0 \<le> clamp mx bits" "0 \<le> mx \<Longrightarrow> clamp mx bits \<le> mx"
  by (auto simp: clamp_def)

lemma maskAddr_simps [simp]:
  "maskAddr (Addr4 x) bits = Addr4 (x AND NOT (mask (32 - nat (clamp 32 bits))))"
  "maskAddr (Addr6 y) bits = Addr6 (y AND NOT (mask (128 - nat (clamp 128 bits))))"
  "maskAddr Addr_zero bits = Addr_zero"
  using clamp_range [of 32 bits] clamp_range [of 128 bits]
  by (simp_all add: maskAddr_def addr_IsValid_def PrefixFrom_def del: clamp_range)

lemma prefixOf_simps [simp]:
  "prefixOf (Addr4 x) bits = \<lparr>pfx_Addr = Addr4 x, pfx_Bits = clamp 32 bits\<rparr>"
  "prefixOf (Addr6 y) bits = \<lparr>pfx_Addr = Addr6 y, pfx_Bits = clamp 128 bits\<rparr>"
  by (simp_all add: prefixOf_def PrefixFrom_def addr_IsValid_def)

lemma mask_and_eq:
  fixes x y :: "'a :: len word"
  shows "x AND NOT (mask k) = y AND NOT (mask k) \<longleftrightarrow> (\<forall>i. k \<le> i \<longrightarrow> i < LENGTH('a) \<longrightarrow> bit x i = bit y i)"
  by (auto simp: bit_eq_iff bit_simps not_less)

lemma Contains_maskAddr:
  assumes "Is4 a \<and> Is4 a' \<or> Is6 a \<and> Is6 a'"
  shows "Contains (prefixOf (maskAddr a bits) bits) a' \<longleftrightarrow> maskAddr a' bits = maskAddr a bits"
proof -
  have "Contains (prefixOf (maskAddr (Addr4 x) bits) bits) (Addr4 y) \<longleftrightarrow> maskAddr (Addr4 y) bits = maskAddr (Addr4 x) bits" for x y
  proof -
    define k where "k = 32 - nat (clamp 32 bits)"
    have "Contains (prefixOf (maskAddr (Addr4 x) bits) bits) (Addr4 y) \<longleftrightarrow> drop_bit k (y XOR (x AND NOT (mask k))) = 0"
      by (simp add: Contains_def pfx_IsValid_def k_def)
    also have "\<dots> \<longleftrightarrow> (\<forall>i. k \<le> i \<longrightarrow> i < 32 \<longrightarrow> bit (x AND NOT (mask k)) i = bit y i)"
      by (simp only: drop_bit_xor drop_bit_xor_zero) simp
    also have "\<dots> \<longleftrightarrow> y AND NOT (mask k) = x AND NOT (mask k)"
      unfolding mask_and_eq by (auto simp: bit_simps not_less)
    finally show ?thesis by (simp add: k_def)
  qed
  moreover have "Contains (prefixOf (maskAddr (Addr6 x) bits) bits) (Addr6 y) \<longleftrightarrow> maskAddr (Addr6 y) bits = maskAddr (Addr6 x) bits" for x y
  proof -
    define k where "k = 128 - nat (clamp 128 bits)"
    have "Contains (prefixOf (maskAddr (Addr6 x) bits) bits) (Addr6 y) \<longleftrightarrow> (y XOR (x AND NOT (mask k))) AND NOT (mask k) = 0"
      by (simp add: Contains_def pfx_IsValid_def k_def)
    also have "\<dots> \<longleftrightarrow> (\<forall>i. k \<le> i \<longrightarrow> i < 128 \<longrightarrow> bit (x AND NOT (mask k)) i = bit y i)"
      by (simp add: and_not_mask_xor_zero)
    also have "\<dots> \<longleftrightarrow> y AND NOT (mask k) = x AND NOT (mask k)"
      unfolding mask_and_eq by (auto simp: bit_simps not_less)
    finally show ?thesis by (simp add: k_def)
  qed
  ultimately show ?thesis using assms by (cases a; cases a') simp_all
qed

text \<open>With prefix length zero all addresses of a family share the masked address.\<close>

lemma maskAddr_zero: "Is4 a \<and> Is4 a' \<or> Is6 a \<and> Is6 a' \<Longrightarrow> maskAddr a 0 = maskAddr a' 0"
  by (cases a; cases a') (simp_all add: clamp_def bit_eq_iff bit_simps)

lemma maskAddr_family: "Is4 (maskAddr a bits) = Is4 a" "Is6 (maskAddr a bits) = Is6 a"
  by (cases a; simp)+

text \<open>A port and the range it is reduced to.\<close>

definition port_inside :: "portAgg \<Rightarrow> u16 \<Rightarrow> bool" where
  "port_inside p port \<longleftrightarrow> (pa_mode p = portRange \<longrightarrow> pa_lo p \<le> port \<and> port \<le> pa_hi p)"

lemma u16_le_max [simp]: "(x :: u16) \<le> 65535"
  using unat_u16_less [of x] by (simp add: word_le_nat_alt del: unat_u16_less)

lemma reduce_bucket:
  fixes port :: u16 and st :: u32
  assumes "st \<noteq> 0"
  defines "base \<equiv> (ucast port div st) * st"
  defines "hiend \<equiv> (if base + st - 1 > 65535 then 65535 else base + st - 1)"
  shows "unat base = unat port div unat st * unat st" and "unat base \<le> 65535"
    and "unat hiend = min 65535 (unat base + unat st - 1)"
proof -
  let ?p = "unat port" and ?s = "unat st"
  have s: "0 < ?s" "?s < 2 ^ 32" using assms(1) unsigned_less [of st] by (simp_all add: unat_gt_0)
  have le: "?p div ?s * ?s \<le> ?p" by (metis div_times_less_eq_dividend)
  moreover have "?p < 2 ^ 32" using unat_u16_less [of port] by (simp del: unat_u16_less)
  ultimately have "?p div ?s * ?s < 2 ^ 32" by (rule le_less_trans)
  then show base: "unat base = ?p div ?s * ?s"
    by (simp add: base_def unat_word_ariths unat_div unat_ucast_up mod_mult_left_eq)
  with le show bound: "unat base \<le> 65535" using unat_u16_less [of port] by linarith
  have "unat base + ?s < 2 ^ 32"
  proof (cases "?s \<le> 65536")
    case False
    then have "?p < ?s" using unat_u16_less [of port] by linarith
    then have "?p div ?s = 0" by (rule div_less)
    with base s show ?thesis by simp
  qed (use bound in simp)
  then have w: "unat (base + st) = unat base + ?s" by (simp add: unat_word_ariths)
  with s(1) have "base + st \<noteq> 0" by (metis add_is_0 less_numeral_extra(3) unat_0)
  then have "unat (base + st - 1) = unat base + ?s - 1" using w by (simp add: unat_minus_one)
  then show "unat hiend = min 65535 (unat base + ?s - 1)"
    by (auto simp: hiend_def word_less_nat_alt min_def)
qed

text \<open>
  A port lies in the range it is reduced to, the range is not empty, and two ports are reduced
  to the same range exactly when each lies in the range of the other.
\<close>

lemma reduce_sem:
  assumes "portAgg_ok p" and "port_inside p x" and "port_inside p y" and "reduce p x = Some (lo, hi)"
  shows "lo \<le> hi" and "lo \<le> y \<and> y \<le> hi \<longleftrightarrow> reduce p y = Some (lo, hi)"
proof -
  have *: "lo \<le> hi \<and> (lo \<le> y \<and> y \<le> hi \<longleftrightarrow> reduce p y = Some (lo, hi))"
  proof (cases "pa_mode p")
    case portBucket
    let ?s = "unat (pa_step p)"
    have st: "pa_step p \<noteq> 0" using assms(1) portBucket by (simp add: portAgg_ok_def)
    then have s: "0 < ?s" by (simp add: unat_gt_0)
    have red: "\<exists>l h. reduce p z = Some (l, h) \<and> unat l = unat z div ?s * ?s \<and> unat h = min 65535 (unat l + ?s - 1)" for z
    proof -
      note b = reduce_bucket [OF st, of z]
      from b(2) have l: "unat (ucast (ucast z div pa_step p * pa_step p) :: u16) = unat (ucast z div pa_step p * pa_step p)"
        by (intro unat_ucast_down) simp
      from b(3) have "unat (ucast (if ucast z div pa_step p * pa_step p + pa_step p - 1 > 65535 then 65535
          else ucast z div pa_step p * pa_step p + pa_step p - 1) :: u16) =
          unat (if ucast z div pa_step p * pa_step p + pa_step p - 1 > 65535 then 65535
          else ucast z div pa_step p * pa_step p + pa_step p - 1)"
        by (intro unat_ucast_down) simp
      with l b show ?thesis using portBucket st by (simp add: reduce_def Let_def)
    qed
    obtain l h where x: "lo = l" "hi = h" "unat l = unat x div ?s * ?s" "unat h = min 65535 (unat l + ?s - 1)"
      using red [of x] assms(4) by auto
    obtain l' h' where y: "reduce p y = Some (l', h')" "unat l' = unat y div ?s * ?s" "unat h' = min 65535 (unat l' + ?s - 1)"
      using red [of y] by blast
    have in_bucket: "n * ?s \<le> unat y \<and> unat y < n * ?s + ?s \<longleftrightarrow> unat y div ?s = n" for n
      using s by (metis add.commute div_mult_mod_eq div_nat_eqI dividend_less_times_div less_mult_imp_div_less mult.commute mult_Suc times_div_less_eq_dividend)
    have "l \<le> y \<and> y \<le> h \<longleftrightarrow> unat l \<le> unat y \<and> unat y < unat l + ?s"
      using x(4) s u16_le_max [of y] by (auto simp: word_le_nat_alt min_def simp del: u16_le_max)
    also have "\<dots> \<longleftrightarrow> unat l' = unat l" using in_bucket [of "unat x div ?s"] x(3) y(2) s by auto
    also have "\<dots> \<longleftrightarrow> l' = l \<and> h' = h"
      using x(4) y(3) by (auto simp: word_unat_eq_iff)
    finally have "l \<le> y \<and> y \<le> h \<longleftrightarrow> reduce p y = Some (l, h)" by (simp add: y(1))
    moreover have "unat l \<le> 65535" using unat_u16_less [of l] by linarith
    then have "l \<le> h" using x(4) s by (auto simp: word_le_nat_alt min_def)
    ultimately show ?thesis using x by simp
  qed (use assms in \<open>auto simp: reduce_def port_inside_def portAgg_ok_def\<close>)
  then show "lo \<le> hi" and "lo \<le> y \<and> y \<le> hi \<longleftrightarrow> reduce p y = Some (lo, hi)" by auto
qed

section \<open>The parts of the FlowSpec rule\<close>

lemma ucast_u8_max [simp]: "\<not> (0xff :: u64) < ucast (x :: u8)"
  using unat_u8_less [of x] by (simp add: word_less_nat_alt unat_ucast_up not_less del: unat_u8_less)

lemma ucast_u8_inject [simp]: "(ucast (x :: u8) :: u64) = ucast y \<longleftrightarrow> x = y" "(ucast x :: u64) = 0 \<longleftrightarrow> x = 0"
  by (simp_all add: word_unat_eq_iff unat_ucast_up)

lemma tcpFlagOps_reduce:
  assumes "flags_ok (care, want)" and "care \<noteq> 0"
  shows "reduceTCPFlags (tcpFlagOps care want) = Inr (want, care, True)" and "tcpFlagOps care want \<noteq> []"
proof -
  have or: "want OR (care AND NOT want) = care" and dis: "want AND (care AND NOT want) = 0"
    using assms(1) by (auto simp: flags_ok_def bit_eq_iff bit_simps)
  have "want \<noteq> 0 \<or> care AND NOT want \<noteq> 0" using or assms(2) by fastforce
  then show "tcpFlagOps care want \<noteq> []" by (auto simp: tcpFlagOps_def Let_def)
  consider (both) "want \<noteq> 0" "care AND NOT want \<noteq> 0" | (only) "want \<noteq> 0" "care AND NOT want = 0" | (clr) "want = 0" "care AND NOT want \<noteq> 0"
    using \<open>want \<noteq> 0 \<or> _\<close> by blast
  then show "reduceTCPFlags (tcpFlagOps care want) = Inr (want, care, True)"
    using or dis by cases (simp_all add: tcpFlagOps_def reduceTCPFlags_def Let_def ucast_up_down)
qed

lemma portRangeOps_reduce:
  assumes "lo \<le> hi"
  shows "reduceRange (portRangeOps lo hi) portMax what = Inr (ucast lo, ucast hi)"
proof -
  have h: "numeric_ops_hold (portRangeOps lo hi) x \<longleftrightarrow> ucast lo \<le> x \<and> x \<le> ucast hi" for x
    by (auto simp: portRangeOps_def eq_op_def numeric_op_holds_def)
  have b: "ucast lo \<le> (65535 :: u64)" "ucast hi \<le> (65535 :: u64)" "(ucast lo :: u64) \<le> ucast hi"
    using assms ucast_u16_bound by (auto simp: word_le_nat_alt unat_ucast_up)
  have "\<forall>opr\<in>set (portRangeOps lo hi). operand_ok portMax opr"
    using b by (auto simp: portRangeOps_def eq_op_def operand_ok_def portMax_def)
  moreover have "{x. x \<le> portMax \<and> numeric_ops_hold (portRangeOps lo hi) x} = {ucast lo..ucast hi}"
    using b by (auto simp: h portMax_def)
  ultimately show ?thesis using b(3) by (simp add: reduceRange_iff)
qed

lemma eq_op_reduce: "reduceExact [eq_op (ucast (v :: u8))] what = Inr (v, True)" "reduceProto [eq_op (ucast v)] = Inr (v, True)"
  by (simp_all add: reduceExact_def reduceProto_def eq_op_def ucast_up_down)

lemma eq_op_hold: "numeric_ops_hold [eq_op (ucast (v :: u8))] (ucast x) \<longleftrightarrow> x = v"
  by (auto simp: eq_op_def numeric_op_holds_def)

section \<open>The rule of a descriptor without explicit emission\<close>

text \<open>Every field of the FlowSpec rule follows the descriptor (the configuration sets none).\<close>

definition default_emission :: "('f, 'p) Rule \<Rightarrow> bool" where
  "default_emission r \<longleftrightarrow> ru_tcpEmit r = emitDefault \<and> (let a = ru_action r in
     list_all (\<lambda>f. f = emitDefault) [fa_family a, fa_proto a, fa_src a, fa_dst a, fa_srcPort a, fa_dstPort a, fa_icmpType a, fa_icmpCode a])"

definition default_match :: "match_filter \<Rightarrow> granularity \<Rightarrow> descriptor \<Rightarrow> fs_match" where
  "default_match m g d = Match_zero\<lparr>
     m_Proto := (if d_protoWild d then [] else [eq_op (ucast (d_proto d))]),
     HasSrc := (g_srcMaskBits g \<noteq> 0), Src := (if g_srcMaskBits g = 0 then Prefix_zero else prefixOf (d_src d) (g_srcMaskBits g)),
     HasDst := (g_dstMaskBits g \<noteq> 0), Dst := (if g_dstMaskBits g = 0 then Prefix_zero else prefixOf (d_dst d) (g_dstMaskBits g)),
     SrcPort := (if d_srcPortLo d = 0 \<and> d_srcPortHi d = 65535 then [] else portRangeOps (d_srcPortLo d) (d_srcPortHi d)),
     DstPort := (if d_dstPortLo d = 0 \<and> d_dstPortHi d = 65535 then [] else portRangeOps (d_dstPortLo d) (d_dstPortHi d)),
     TCPFlags := (if mf_tcpCare m \<noteq> 0 then tcpFlagOps (mf_tcpCare m) (mf_tcpWant m) else []),
     ICMPType := (if d_icmpTypeWild d then [] else [eq_op (ucast (d_icmpType d))]),
     ICMPCode := (if d_icmpCodeWild d then [] else [eq_op (ucast (d_icmpCode d))])\<rparr>"

lemma emit_default:
  "emitProto g emitDefault d = Inr (if d_protoWild d then [] else [eq_op (ucast (d_proto d))])"
  "emitPrefix g emitDefault d True = Inr (if g_srcMaskBits g = 0 then None else Some (prefixOf (d_src d) (g_srcMaskBits g)))"
  "emitPrefix g emitDefault d False = Inr (if g_dstMaskBits g = 0 then None else Some (prefixOf (d_dst d) (g_dstMaskBits g)))"
  "emitPort g emitDefault d True = Inr (if d_srcPortLo d = 0 \<and> d_srcPortHi d = 65535 then [] else portRangeOps (d_srcPortLo d) (d_srcPortHi d))"
  "emitPort g emitDefault d False = Inr (if d_dstPortLo d = 0 \<and> d_dstPortHi d = 65535 then [] else portRangeOps (d_dstPortLo d) (d_dstPortHi d))"
  "emitICMP g emitDefault v wild d = Inr (if wild then [] else [eq_op (ucast v)])"
  "emitFamily g emitDefault d = d_family d"
  by (simp_all add: emitProto_def emitPrefix_def emitPort_def emitICMP_def emitFamily_def Let_def)

lemma opt_prefix:
  "((if b then None else Some p) \<noteq> None) = (\<not> b)"
  "(case (if b then None else Some p) of Some q \<Rightarrow> q | None \<Rightarrow> z) = (if b then z else p)"
  by simp_all

lemma opt_flags:
  "(case resolve emitDefault care want of Some cw \<Rightarrow> tcpFlagOps (fst cw) (snd cw) | None \<Rightarrow> []) =
   (if care \<noteq> 0 then tcpFlagOps care want else [])"
  by (simp add: resolve_def)

lemma buildFlowSpec_default:
  assumes "default_emission r"
  obtains fr where "buildFlowSpec r d = Inr fr" "r_Family fr = d_family d" "a_Kind (r_Action fr) = ActionDrop"
    "r_Match fr = default_match (ru_match r) (ru_gran r) d"
proof -
  have a: "ru_tcpEmit r = emitDefault" "fa_family (ru_action r) = emitDefault" "fa_proto (ru_action r) = emitDefault"
    "fa_src (ru_action r) = emitDefault" "fa_dst (ru_action r) = emitDefault" "fa_srcPort (ru_action r) = emitDefault"
    "fa_dstPort (ru_action r) = emitDefault" "fa_icmpType (ru_action r) = emitDefault" "fa_icmpCode (ru_action r) = emitDefault"
    using assms by (simp_all add: default_emission_def Let_def)
  show thesis
    by (rule that, unfold buildFlowSpec_def Let_def a emit_default ebind.simps opt_prefix opt_flags, rule refl)
      (simp_all only: fs_rule.simps fs_action.simps default_match_def)
qed

text \<open>
  A sample that a rule counts under a descriptor. Protocol 0 and a port outside a fixed range of
  the aggregation are excluded: an ACL entry cannot ask for protocol 0, and the range is copied
  to the descriptor without a check.
\<close>

definition counted :: "match_filter \<Rightarrow> granularity \<Rightarrow> Sample \<Rightarrow> descriptor \<Rightarrow> bool" where
  "counted m g s d \<longleftrightarrow> matches m s \<and> sample_wf s \<and> descriptorFor g s = Some d \<and> s_Proto s \<noteq> 0 \<and>
     (is_icmp (s_Proto s) \<longrightarrow> s_Proto s = icmpProtoOf (s_Family s)) \<and>
     port_inside (g_srcPortAgg g) (s_SrcPort s) \<and> port_inside (g_dstPortAgg g) (s_DstPort s)"

definition tcpudp :: "u8 \<Rightarrow> bool" where
  "tcpudp p \<longleftrightarrow> p = protoTCP \<or> p = protoUDP"

lemma counted_descriptor:
  assumes "counted m g s d"
  shows "d_family d = s_Family s" "d_protoWild d = g_protoWild g" "\<not> g_protoWild g \<Longrightarrow> d_proto d = s_Proto s"
    "d_src d = maskAddr (s_Src s) (g_srcMaskBits g)" "d_dst d = maskAddr (s_Dst s) (g_dstMaskBits g)"
    "d_icmpTypeWild d \<longleftrightarrow> g_protoWild g \<or> \<not> is_icmp (s_Proto s) \<or> g_icmpTypeAggAll g"
    "d_icmpCodeWild d \<longleftrightarrow> g_protoWild g \<or> \<not> is_icmp (s_Proto s) \<or> g_icmpCodeAggAll g"
    "\<not> d_icmpTypeWild d \<Longrightarrow> d_icmpType d = s_ICMPType s" "\<not> d_icmpCodeWild d \<Longrightarrow> d_icmpCode d = s_ICMPCode s"
    "d_icmpTypeWild d \<Longrightarrow> d_icmpType d = 0" "d_icmpCodeWild d \<Longrightarrow> d_icmpCode d = 0"
    "g_protoWild g \<Longrightarrow> d_proto d = 0"
    "g_protoWild g \<or> \<not> tcpudp (s_Proto s) \<Longrightarrow> d_srcPortLo d = 0 \<and> d_srcPortHi d = 65535 \<and> d_dstPortLo d = 0 \<and> d_dstPortHi d = 65535"
    "\<not> g_protoWild g \<Longrightarrow> tcpudp (s_Proto s) \<Longrightarrow>
       reduce (g_srcPortAgg g) (s_SrcPort s) = Some (d_srcPortLo d, d_srcPortHi d) \<and>
       reduce (g_dstPortAgg g) (s_DstPort s) = Some (d_dstPortLo d, d_dstPortHi d)"
proof -
  have "descriptorFor g s = Some d" using assms by (simp add: counted_def)
  note d = this [unfolded descriptorFor_def Let_def]
  show "d_family d = s_Family s" "d_protoWild d = g_protoWild g" "\<not> g_protoWild g \<Longrightarrow> d_proto d = s_Proto s"
    "d_src d = maskAddr (s_Src s) (g_srcMaskBits g)" "d_dst d = maskAddr (s_Dst s) (g_dstMaskBits g)"
    "d_icmpTypeWild d \<longleftrightarrow> g_protoWild g \<or> \<not> is_icmp (s_Proto s) \<or> g_icmpTypeAggAll g"
    "d_icmpCodeWild d \<longleftrightarrow> g_protoWild g \<or> \<not> is_icmp (s_Proto s) \<or> g_icmpCodeAggAll g"
    "\<not> d_icmpTypeWild d \<Longrightarrow> d_icmpType d = s_ICMPType s" "\<not> d_icmpCodeWild d \<Longrightarrow> d_icmpCode d = s_ICMPCode s"
    "d_icmpTypeWild d \<Longrightarrow> d_icmpType d = 0" "d_icmpCodeWild d \<Longrightarrow> d_icmpCode d = 0"
    "g_protoWild g \<Longrightarrow> d_proto d = 0"
    "g_protoWild g \<or> \<not> tcpudp (s_Proto s) \<Longrightarrow> d_srcPortLo d = 0 \<and> d_srcPortHi d = 65535 \<and> d_dstPortLo d = 0 \<and> d_dstPortHi d = 65535"
    "\<not> g_protoWild g \<Longrightarrow> tcpudp (s_Proto s) \<Longrightarrow>
       reduce (g_srcPortAgg g) (s_SrcPort s) = Some (d_srcPortLo d, d_srcPortHi d) \<and>
       reduce (g_dstPortAgg g) (s_DstPort s) = Some (d_dstPortLo d, d_dstPortHi d)"
    using d by (auto simp: tcpudp_def split: bind_splits if_splits)
qed

section \<open>The translation accepts it\<close>

lemma Translate_intro:
  assumes "a_Kind (r_Action r) = ActionDrop" and "checkComponents (r_Match r) = Inr ()"
    and "checkPrefixes (r_Family r) (r_Match r) = Inr sd" and "reduceProto (m_Proto (r_Match r)) = Inr pr0"
    and "reduceTCPFlags (TCPFlags (r_Match r)) = Inr (tv, tm, tp)"
    and "\<And>m. requireProto tp protoTCP m pr0 = Inr pr1"
    and "reduceExact (ICMPType (r_Match r)) ''icmp type'' = Inr ty" and "reduceExact (ICMPCode (r_Match r)) ''icmp code'' = Inr co"
    and "\<And>m. requireProto (snd ty \<or> snd co) (icmpProtoOf (r_Family r)) m pr1 = Inr pr2"
    and "checkPorts (r_Match r) pr2 = Inr ()" and "l4Ranges (r_Match r) (snd ty \<or> snd co) ty co = Inr q"
  shows "\<exists>a. Translate r = Inr a"
  using assms by (simp add: Translate_def Let_def split: prod.splits)

lemma default_match_simps [simp]:
  "m_Proto (default_match m g d) = (if d_protoWild d then [] else [eq_op (ucast (d_proto d))])"
  "HasSrc (default_match m g d) \<longleftrightarrow> g_srcMaskBits g \<noteq> 0" "HasDst (default_match m g d) \<longleftrightarrow> g_dstMaskBits g \<noteq> 0"
  "Src (default_match m g d) = (if g_srcMaskBits g = 0 then Prefix_zero else prefixOf (d_src d) (g_srcMaskBits g))"
  "Dst (default_match m g d) = (if g_dstMaskBits g = 0 then Prefix_zero else prefixOf (d_dst d) (g_dstMaskBits g))"
  "SrcOffset (default_match m g d) = 0" "DstOffset (default_match m g d) = 0"
  "SrcPort (default_match m g d) = (if d_srcPortLo d = 0 \<and> d_srcPortHi d = 65535 then [] else portRangeOps (d_srcPortLo d) (d_srcPortHi d))"
  "DstPort (default_match m g d) = (if d_dstPortLo d = 0 \<and> d_dstPortHi d = 65535 then [] else portRangeOps (d_dstPortLo d) (d_dstPortHi d))"
  "TCPFlags (default_match m g d) = (if mf_tcpCare m \<noteq> 0 then tcpFlagOps (mf_tcpCare m) (mf_tcpWant m) else [])"
  "ICMPType (default_match m g d) = (if d_icmpTypeWild d then [] else [eq_op (ucast (d_icmpType d))])"
  "ICMPCode (default_match m g d) = (if d_icmpCodeWild d then [] else [eq_op (ucast (d_icmpCode d))])"
  "checkComponents (default_match m g d) = Inr ()"
  by (simp_all add: default_match_def Match_zero_def checkComponents_def)

lemma pfx_Addr_prefixOf [simp]: "pfx_Addr (prefixOf a bits) = a"
  by (simp add: prefixOf_def PrefixFrom_def)

lemma counted_prefixes:
  assumes "counted m g s d"
  shows "\<exists>sd. checkPrefixes (s_Family s) (default_match m g d) = Inr sd"
proof -
  have wf: "sample_wf s" using assms by (simp add: counted_def)
  note d = counted_descriptor(4,5) [OF assms]
  from wf show ?thesis
    by (simp add: checkPrefixes_def Let_def checkFamily_def DstOrDefault_def SrcOrDefault_def d maskAddr_family sample_wf_def
      split: if_splits)
qed

lemma counted_tcp:
  "counted m g s d \<Longrightarrow> mf_tcpCare m \<noteq> 0 \<Longrightarrow> protoOnlyTCP (mf_protoFilter m) \<Longrightarrow>
   s_Proto s = protoTCP \<and> s_TCPFlags s AND mf_tcpCare m = mf_tcpWant m"
  by (auto simp: counted_def matches_def protoOnlyTCP_def list_all_iff split: if_splits)

lemma reduceRange_Nil: "reduceRange [] portMax what = Inr (0, 65535)"
  by (simp add: reduceRange_def portMax_def)

lemma counted_ranges:
  assumes "counted m g s d" and "gran_ok g"
  shows "d_srcPortLo d \<le> d_srcPortHi d" "d_dstPortLo d \<le> d_dstPortHi d"
proof -
  have p: "port_inside (g_srcPortAgg g) (s_SrcPort s)" "port_inside (g_dstPortAgg g) (s_DstPort s)"
    "portAgg_ok (g_srcPortAgg g)" "portAgg_ok (g_dstPortAgg g)"
    using assms by (simp_all add: counted_def gran_ok_def)
  show "d_srcPortLo d \<le> d_srcPortHi d" "d_dstPortLo d \<le> d_dstPortHi d"
    using counted_descriptor(13,14) [OF assms(1)] reduce_sem(1) [OF p(3,1,1)] reduce_sem(1) [OF p(4,2,2)]
    by (cases "g_protoWild g \<or> \<not> tcpudp (s_Proto s)"; simp)+
qed

lemma translate_default:
  assumes c: "counted m g s d" and g: "gran_ok g" and mo: "match_ok m"
    and tcp: "mf_tcpCare m \<noteq> 0 \<Longrightarrow> protoOnlyTCP (mf_protoFilter m)"
    and fr: "r_Family fr = s_Family s" "a_Kind (r_Action fr) = ActionDrop" "r_Match fr = default_match m g d"
  shows "\<exists>a. Translate fr = Inr a"
proof -
  let ?M = "default_match m g d" and ?f = "s_Family s" and ?p = "s_Proto s"
  note d = counted_descriptor [OF c] and lohi = counted_ranges [OF c g]
  obtain sd where sd: "checkPrefixes ?f ?M = Inr sd" using counted_prefixes [OF c] by blast
  define pr0 where "pr0 = (if g_protoWild g then (0, False) else (?p, True))"
  define tcpP where "tcpP = (mf_tcpCare m \<noteq> 0)"
  define pr1 where "pr1 = (if tcpP then (protoTCP, True) else pr0)"
  define icmpT where "icmpT = (\<not> d_icmpTypeWild d)"
  define icmpC where "icmpC = (\<not> d_icmpCodeWild d)"
  have pr0: "reduceProto (m_Proto ?M) = Inr pr0"
    using eq_op_reduce(2) [of ?p] d(2,3) by (cases "g_protoWild g") (simp_all add: pr0_def reduceProto_def [of "[]"])
  have tcpE: "reduceTCPFlags (TCPFlags ?M) = Inr (if tcpP then mf_tcpWant m else 0, if tcpP then mf_tcpCare m else 0, tcpP)"
    using tcpFlagOps_reduce(1) [of "mf_tcpCare m" "mf_tcpWant m"] mo by (simp add: tcpP_def match_ok_def reduceTCPFlags_def [of "[]"])
  have tp: "?p = protoTCP" if tcpP using counted_tcp [OF c] tcp that by (simp add: tcpP_def)
  have pr1: "requireProto tcpP protoTCP e pr0 = Inr pr1" for e
    using tp by (auto simp: requireProto_def pr0_def pr1_def)
  have ty: "reduceExact (ICMPType ?M) w = Inr (if icmpT then d_icmpType d else 0, icmpT)"
    and co: "reduceExact (ICMPCode ?M) w = Inr (if icmpC then d_icmpCode d else 0, icmpC)" for w
    by (simp_all add: icmpT_def icmpC_def eq_op_reduce reduceExact_def [of "[]"])
  have icmp: "\<not> g_protoWild g \<and> ?p = icmpProtoOf ?f" if "icmpT \<or> icmpC"
    using that d(6,7) c by (auto simp: icmpT_def icmpC_def counted_def)
  have pr2: "requireProto (icmpT \<or> icmpC) (icmpProtoOf ?f) e pr1 = Inr pr1" for e
    using icmp tp by (auto simp: requireProto_def pr0_def pr1_def)
  have ports: "SrcPort ?M = [] \<and> DstPort ?M = [] \<or> \<not> g_protoWild g \<and> tcpudp ?p"
    using d(13) by (cases "g_protoWild g \<or> \<not> tcpudp ?p") auto
  have "checkPorts ?M pr1 = Inr ()"
    using ports tp unfolding checkPorts_def pr1_def pr0_def tcpudp_def by (auto simp del: default_match_simps)
  moreover have "\<exists>q. l4Ranges ?M (icmpT \<or> icmpC) t k = Inr q" for t k
    using portRangeOps_reduce [OF lohi(1)] portRangeOps_reduce [OF lohi(2)] reduceRange_Nil
    by (simp add: l4Ranges_def)
  ultimately show ?thesis
    using Translate_intro [of fr sd pr0 _ _ tcpP pr1 "(if icmpT then d_icmpType d else 0, icmpT)" "(if icmpC then d_icmpCode d else 0, icmpC)" pr1]
      fr sd pr0 tcpE pr1 ty co pr2
    by (simp del: default_match_simps) (metis default_match_simps(13))
qed

section \<open>The entry drops the packets of the descriptor\<close>

definition packet_of :: "Sample \<Rightarrow> packet" where
  "packet_of s = \<lparr>pk_IPv6 = (s_Family s = FamilyIPv6), pk_Src = s_Src s, pk_Dst = s_Dst s, pk_Proto = s_Proto s,
     pk_SrcPort = s_SrcPort s, pk_DstPort = s_DstPort s, pk_ICMPType = s_ICMPType s, pk_ICMPCode = s_ICMPCode s,
     pk_TCPFlags = s_TCPFlags s\<rparr>"

lemma family_eq: "(f = FamilyIPv6) = (f' = FamilyIPv6) \<longleftrightarrow> f = f'"
  by (cases f; cases f') simp_all

lemma prefix_part:
  assumes "sample_wf s" "sample_wf s'" "s_Family s = s_Family s'"
  shows "(bits \<noteq> 0 \<longrightarrow> Contains (prefixOf (maskAddr (s_Src s) bits) bits) (s_Src s')) \<longleftrightarrow> maskAddr (s_Src s') bits = maskAddr (s_Src s) bits"
    and "(bits \<noteq> 0 \<longrightarrow> Contains (prefixOf (maskAddr (s_Dst s) bits) bits) (s_Dst s')) \<longleftrightarrow> maskAddr (s_Dst s') bits = maskAddr (s_Dst s) bits"
  using assms Contains_maskAddr [of "s_Src s" "s_Src s'" bits] Contains_maskAddr [of "s_Dst s" "s_Dst s'" bits]
    maskAddr_zero [of "s_Src s" "s_Src s'"] maskAddr_zero [of "s_Dst s" "s_Dst s'"]
  by (cases "bits = 0"; auto simp: sample_wf_def split: if_splits)+

lemma range_part:
  "lo \<le> hi \<Longrightarrow> (\<not> (lo = 0 \<and> hi = 65535) \<longrightarrow> numeric_ops_hold (portRangeOps lo hi) (ucast (x :: u16))) \<longleftrightarrow> lo \<le> x \<and> x \<le> hi"
proof -
  assume "lo \<le> hi"
  have "numeric_ops_hold (portRangeOps lo hi) (ucast x) \<longleftrightarrow> lo \<le> x \<and> x \<le> hi"
    by (auto simp: portRangeOps_def eq_op_def numeric_op_holds_def word_le_nat_alt word_less_nat_alt word_unat_eq_iff unat_ucast_up)
  then show ?thesis by auto
qed

lemma port_part:
  assumes "reduce p x = Some (lo, hi)" and "reduce p y = Some (lo', hi')" and "portAgg_ok p" "port_inside p x" "port_inside p y"
  shows "(\<not> (lo = 0 \<and> hi = 65535) \<longrightarrow> numeric_ops_hold (portRangeOps lo hi) (ucast y)) \<longleftrightarrow> lo' = lo \<and> hi' = hi"
  using reduce_sem [OF assms(3,4,5,1)] range_part [of lo hi y] assms(2) by auto

text \<open>The part of layer 4.\<close>

definition l4_same :: "descriptor \<Rightarrow> descriptor \<Rightarrow> bool" where
  "l4_same d d' \<longleftrightarrow> d_proto d' = d_proto d \<and> d_srcPortLo d' = d_srcPortLo d \<and> d_srcPortHi d' = d_srcPortHi d \<and>
     d_dstPortLo d' = d_dstPortLo d \<and> d_dstPortHi d' = d_dstPortHi d \<and> d_icmpType d' = d_icmpType d \<and> d_icmpCode d' = d_icmpCode d \<and>
     d_icmpTypeWild d' = d_icmpTypeWild d \<and> d_icmpCodeWild d' = d_icmpCodeWild d"

lemma flags_part:
  assumes "counted m g s' d'" and "match_ok m" and "mf_tcpCare m \<noteq> 0 \<Longrightarrow> protoOnlyTCP (mf_protoFilter m)"
  shows "TCPFlags (default_match m g d) \<noteq> [] \<longrightarrow> s_Proto s' = protoTCP \<and> bitmask_ops_hold (TCPFlags (default_match m g d)) (s_TCPFlags s')"
proof (cases "mf_tcpCare m = 0")
  case False
  then have "reduceTCPFlags (tcpFlagOps (mf_tcpCare m) (mf_tcpWant m)) = Inr (mf_tcpWant m, mf_tcpCare m, True)"
    using tcpFlagOps_reduce(1) assms(2) by (simp add: match_ok_def)
  from reduceTCPFlags_sem(2) [OF this] counted_tcp [OF assms(1) False assms(3) [OF False]] False
  show ?thesis by simp
qed simp

lemma portRangeOps_ne [simp]: "portRangeOps lo hi \<noteq> []"
  by (simp add: portRangeOps_def)

lemma icmp_not_ports: "is_icmp p \<Longrightarrow> \<not> tcpudp p"
  by (auto simp: is_icmp_def tcpudp_def proto_defs)

lemma l4_part:
  assumes c: "counted m g s d" "counted m g s' d'" and g: "gran_ok g" and mo: "match_ok m"
    and tcp: "mf_tcpCare m \<noteq> 0 \<Longrightarrow> protoOnlyTCP (mf_protoFilter m)" and fam: "s_Family s = s_Family s'"
  shows "fs_l4_matches (s_Family s) (default_match m g d) (packet_of s') \<longleftrightarrow> l4_same d d'"
proof -
  let ?M = "default_match m g d"
  note d = counted_descriptor [OF c(1)] and d' = counted_descriptor [OF c(2)] and flags = flags_part [OF c(2) mo tcp, of d]
  show ?thesis
  proof (cases "g_protoWild g")
    case True
    then show ?thesis
      using flags d(2,6,7,10-13) d'(6,7,10-13) by (simp add: fs_l4_matches_def l4_same_def packet_of_def Let_def del: default_match_simps(10))
  next
    case nw: False
    show ?thesis
    proof (cases "s_Proto s' = s_Proto s")
      case False
      then show ?thesis
        using nw d(2,3) d'(3) by (auto simp: fs_l4_matches_def l4_same_def packet_of_def Let_def eq_op_hold simp del: numeric_ops_hold.simps(2))
    next
      case True
      consider (ports) "tcpudp (s_Proto s)" "\<not> is_icmp (s_Proto s)" | (icmp) "is_icmp (s_Proto s)" "\<not> tcpudp (s_Proto s)"
        | (other) "\<not> is_icmp (s_Proto s)" "\<not> tcpudp (s_Proto s)"
        using icmp_not_ports by blast
      then show ?thesis
      proof cases
        case ports
        have p: "portAgg_ok (g_srcPortAgg g)" "portAgg_ok (g_dstPortAgg g)" using g by (simp_all add: gran_ok_def)
        have ins: "port_inside (g_srcPortAgg g) (s_SrcPort s)" "port_inside (g_dstPortAgg g) (s_DstPort s)"
          "port_inside (g_srcPortAgg g) (s_SrcPort s')" "port_inside (g_dstPortAgg g) (s_DstPort s')"
          using c by (simp_all add: counted_def)
        have red: "reduce (g_srcPortAgg g) (s_SrcPort s) = Some (d_srcPortLo d, d_srcPortHi d)"
          "reduce (g_dstPortAgg g) (s_DstPort s) = Some (d_dstPortLo d, d_dstPortHi d)"
          "reduce (g_srcPortAgg g) (s_SrcPort s') = Some (d_srcPortLo d', d_srcPortHi d')"
          "reduce (g_dstPortAgg g) (s_DstPort s') = Some (d_dstPortLo d', d_dstPortHi d')"
          using d(14) d'(14) nw ports True by simp_all
        note q = port_part [OF red(1,3) p(1) ins(1,3)] port_part [OF red(2,4) p(2) ins(2,4)]
        have sp: "(SrcPort ?M \<noteq> [] \<longrightarrow> numeric_ops_hold (SrcPort ?M) (ucast (s_SrcPort s'))) \<longleftrightarrow>
            d_srcPortLo d' = d_srcPortLo d \<and> d_srcPortHi d' = d_srcPortHi d"
          and dp: "(DstPort ?M \<noteq> [] \<longrightarrow> numeric_ops_hold (DstPort ?M) (ucast (s_DstPort s'))) \<longleftrightarrow>
            d_dstPortLo d' = d_dstPortLo d \<and> d_dstPortHi d' = d_dstPortHi d"
          unfolding q [symmetric] by (simp_all del: numeric_ops_hold.simps(2))
        have "d_icmpTypeWild d" "d_icmpCodeWild d" "d_icmpTypeWild d'" "d_icmpCodeWild d'"
          using ports True d(6,7) d'(6,7) by simp_all
        moreover from this have "d_icmpType d = 0" "d_icmpCode d = 0" "d_icmpType d' = 0" "d_icmpCode d' = 0"
          using d(10,11) d'(10,11) by simp_all
        moreover have "d_proto d = s_Proto s" "d_proto d' = s_Proto s" using d(3) d'(3) nw True by simp_all
        moreover have "tcpudp (s_Proto s')" using ports True by simp
        moreover have "m_Proto ?M = [eq_op (ucast (s_Proto s))]" "ICMPType ?M = []" "ICMPCode ?M = []"
          using calculation d(2) nw by simp_all
        ultimately show ?thesis
          using flags True sp dp
          by (auto simp: fs_l4_matches_def l4_same_def packet_of_def Let_def eq_op_hold tcpudp_def
            simp del: default_match_simps numeric_ops_hold.simps(2))
      next
        case icmp
        have i: "s_Proto s = icmpProtoOf (s_Family s)" using c(1) icmp by (simp add: counted_def)
        show ?thesis
          using flags nw icmp True i d(2,3,6-11,13) d'(3,6-11,13)
          by (auto simp: fs_l4_matches_def l4_same_def packet_of_def Let_def eq_op_hold
            simp del: default_match_simps(10) numeric_ops_hold.simps(2))
      next
        case other
        then show ?thesis
          using flags nw True d(2,3,6,7,10,11,13) d'(3,6,7,10,11,13)
          by (auto simp: fs_l4_matches_def l4_same_def packet_of_def Let_def eq_op_hold
            simp del: default_match_simps(10) numeric_ops_hold.simps(2))
      qed
    qed
  qed
qed

lemma descriptor_eq_iff:
  "(d' :: descriptor) = d \<longleftrightarrow> d_family d' = d_family d \<and> d_protoWild d' = d_protoWild d \<and> d_src d' = d_src d \<and> d_dst d' = d_dst d \<and> l4_same d d'"
  by (cases d; cases d') (auto simp: l4_same_def)

lemma default_matches:
  assumes c: "counted m g s d" "counted m g s' d'" and g: "gran_ok g" and mo: "match_ok m"
    and tcp: "mf_tcpCare m \<noteq> 0 \<Longrightarrow> protoOnlyTCP (mf_protoFilter m)"
    and fr: "r_Family fr = s_Family s" "r_Match fr = default_match m g d"
  shows "fs_matches fr (packet_of s') \<longleftrightarrow> d' = d"
proof (cases "s_Family s = s_Family s'")
  case False
  then show ?thesis
    using counted_descriptor(1) [OF c(1)] counted_descriptor(1) [OF c(2)]
    by (auto simp: fs_matches_def packet_of_def fr family_eq)
next
  case fam: True
  have wf: "sample_wf s" "sample_wf s'" using c by (simp_all add: counted_def)
  note d = counted_descriptor(1,2,4,5) [OF c(1)] and d' = counted_descriptor(1,2,4,5) [OF c(2)]
  have "fs_matches fr (packet_of s') \<longleftrightarrow>
      (g_dstMaskBits g \<noteq> 0 \<longrightarrow> Contains (prefixOf (maskAddr (s_Dst s) (g_dstMaskBits g)) (g_dstMaskBits g)) (s_Dst s')) \<and>
      (g_srcMaskBits g \<noteq> 0 \<longrightarrow> Contains (prefixOf (maskAddr (s_Src s) (g_srcMaskBits g)) (g_srcMaskBits g)) (s_Src s')) \<and> l4_same d d'"
    using l4_part [OF c g mo tcp fam] fam
    by (auto simp: fs_matches_def fr packet_of_def prefix_holds_Contains d(3,4) Let_def)
  also have "\<dots> \<longleftrightarrow> d' = d"
    unfolding prefix_part [OF wf fam] descriptor_eq_iff using d d' fam by auto
  finally show ?thesis .
qed


definition scan_sample2 :: Sample where
  "scan_sample2 = scan_sample\<lparr>s_Dst := Addr4 0xc6336402, s_SrcPort := 40001\<rparr>"

definition scan_rule :: "(real, string) Rule" where
  "scan_rule = (case compileRule real_ops (\<lambda>src names. Inr src) (\<lambda>cfg. ''fp'') tcp_scan_ipv4 of Inr r \<Rightarrow> r)"

lemma scan_rule: "compileRule real_ops (\<lambda>src names. Inr src) (\<lambda>cfg. ''fp'') tcp_scan_ipv4 = Inr scan_rule"
  using tcp_scan_compiles by (auto simp: scan_rule_def)

definition scan_filter :: match_filter where
  "scan_filter = \<lparr>mf_family = FamilyIPv4, mf_familySet = True, mf_protoFilter = [6], mf_srcFilter = Prefix_zero, mf_dstFilter = Prefix_zero,
     mf_srcPortFilter = [], mf_dstPortFilter = [22, 23, 139, 445, 1433, 2323, 3306, 3389, 5432, 5900, 6379, 9200, 11211],
     mf_packetLen = \<lparr>cmp_LT = 0, cmp_LTE = 0, cmp_GT = 0, cmp_GTE = 0\<rparr>,
     mf_tcpCare = 18, mf_tcpWant = 2, mf_icmpTypeFilter = [], mf_icmpCodeFilter = []\<rparr>"

definition scan_gran :: granularity where
  "scan_gran = \<lparr>g_protoWild = False, g_srcMaskBits = 32, g_dstMaskBits = 0, g_srcPortAgg = portAgg_zero\<lparr>pa_mode := portAll\<rparr>,
     g_dstPortAgg = portAgg_zero, g_icmpTypeAggAll = False, g_icmpCodeAggAll = False\<rparr>"

lemma scan_rule_parts:
  "ru_match scan_rule = scan_filter" "ru_gran scan_rule = scan_gran" "default_emission scan_rule" "rule_inv scan_rule"
proof -
  have m: "compileMatch (rc_Match tcp_scan_ipv4) = Inr scan_filter" by code_simp
  have g: "compileGranularity (rc_Aggregate tcp_scan_ipv4) True FamilyIPv4 = Inr scan_gran" by code_simp
  have e: "compileTCPEmit (fc_TCPFlags (rc_FlowSpec tcp_scan_ipv4)) = Inr emitDefault" by code_simp
  have a: "compileAction (rc_FlowSpec tcp_scan_ipv4) = Inr \<lparr>fa_ttl = 600000000000, fa_refresh = True, fa_family = emitDefault,
      fa_proto = emitDefault, fa_src = emitDefault, fa_dst = emitDefault, fa_srcPort = emitDefault, fa_dstPort = emitDefault,
      fa_icmpType = emitDefault, fa_icmpCode = emitDefault\<rparr>" by code_simp
  from scan_rule show rm: "ru_match scan_rule = scan_filter"
    by (rule compileRule_Inr) (use m in simp)
  from scan_rule show "ru_gran scan_rule = scan_gran"
    by (rule compileRule_Inr) (use g rm in \<open>simp add: scan_filter_def\<close>)
  from scan_rule have te: "ru_tcpEmit scan_rule = emitDefault" by (rule compileRule_Inr) (use e in simp)
  from scan_rule show "default_emission scan_rule"
    by (rule compileRule_Inr) (use a te in \<open>simp add: default_emission_def Let_def\<close>, metis (no_types) flowSpecAction.select_convs)
  show "rule_inv scan_rule" by (rule compileRule_inv [OF scan_rule tcp_scan_typed])
qed

lemma scan_counted:
  "\<exists>d. counted scan_filter scan_gran scan_sample d \<and> counted scan_filter scan_gran scan_sample2 d"
proof -
  define d where "d = the (descriptorFor scan_gran scan_sample)"
  have "descriptorFor scan_gran scan_sample = Some d" "descriptorFor scan_gran scan_sample2 = Some d"
    unfolding d_def by code_simp+
  moreover have "matches scan_filter scan_sample" "matches scan_filter scan_sample2" by code_simp+
  moreover have "sample_wf scan_sample" "sample_wf scan_sample2" by code_simp+
  ultimately show ?thesis
    by (auto simp: counted_def scan_sample_def scan_sample2_def Sample_zero_def is_icmp_def proto_defs port_inside_def
      scan_gran_def portAgg_zero_def)
qed


end
