(* ===== verification/DetEngine.thy ===== *)
theory DetEngine
  imports RuleInv "HOL-Library.Multiset"
begin

text \<open>
  The detection engine (engine.go), and that it is the parallel composition of its rules. The code shares rules by pointer between the list of all rules and the index
  by protocol; here the rules are kept once, and a reference to a rule is its position.
\<close>

section \<open>The engine\<close>

record ('f, 'p) Engine =
  en_rules :: "('f, 'p) Rule list"
  en_anyProto :: "nat list"
  en_byProto :: "(u8, nat list) gomap"
  en_all :: "nat list"

definition index_proto :: "nat \<Rightarrow> u8 \<Rightarrow> (u8, nat list) gomap \<Rightarrow> (u8, nat list) gomap" where
  "index_proto i p m = gput p (gget [] m p @ [i]) m"

definition index_rule :: "('f, 'p) Engine \<Rightarrow> ('f, 'p) Rule \<Rightarrow> ('f, 'p) Engine" where
  "index_rule e r =
     (let i = length (en_rules e); pf = mf_protoFilter (ru_match r);
          e1 = e\<lparr>en_rules := en_rules e @ [r], en_all := en_all e @ [i]\<rparr>
      in if length pf > 0 then e1\<lparr>en_byProto := fold (index_proto i) pf (en_byProto e)\<rparr>
         else e1\<lparr>en_anyProto := en_anyProto e @ [i]\<rparr>)"

definition NewEngine :: "('f, 'p) Rule list \<Rightarrow> ('f, 'p) Engine" where
  "NewEngine rules = foldl index_rule \<lparr>en_rules = [], en_anyProto = [], en_byProto = [], en_all = []\<rparr> rules"

text \<open>The rules at the given positions observe a sample, one after the other.\<close>

fun observe_at :: "'f float_ops \<Rightarrow> Sample \<Rightarrow> nat list \<Rightarrow> ('f, 'p) Rule list \<Rightarrow> ('f, 'p) Rule list option" where
  "observe_at F s [] rules = Some rules"
| "observe_at F s (i # is) rules = do {
     r \<leftarrow> elem_at rules i;
     r' \<leftarrow> Observe F r s;
     observe_at F s is (rules[i := r'])
   }"

definition Engine_Observe :: "'f float_ops \<Rightarrow> ('f, 'p) Engine \<Rightarrow> Sample \<Rightarrow> ('f, 'p) Engine option" where
  "Engine_Observe F e s = do {
     rules1 \<leftarrow> observe_at F s (en_anyProto e) (en_rules e);
     rules2 \<leftarrow> observe_at F s (gget [] (en_byProto e) (s_Proto s)) rules1;
     Some (e\<lparr>en_rules := rules2\<rparr>)
   }"

fun tick_at :: "'f float_ops \<Rightarrow> ('f, 'p) machine \<Rightarrow> gotime \<Rightarrow> 'f EvalContext \<Rightarrow> nat list \<Rightarrow> ('f, 'p) Rule list \<Rightarrow>
    (('f, 'p) Rule list \<times> 'f Event list) option" where
  "tick_at F run now ctx [] rules = Some (rules, [])"
| "tick_at F run now ctx (i # is) rules = do {
     r \<leftarrow> elem_at rules i;
     (r', evs) \<leftarrow> Tick F run r now ctx;
     (rules', evs') \<leftarrow> tick_at F run now ctx is (rules[i := r']);
     Some (rules', evs @ evs')
   }"

definition Engine_Tick :: "'f float_ops \<Rightarrow> ('f, 'p) machine \<Rightarrow> ('f, 'p) Engine \<Rightarrow> gotime \<Rightarrow> 'f EvalContext \<Rightarrow>
    (('f, 'p) Engine \<times> 'f Event list) option" where
  "Engine_Tick F run e now ctx = do {
     (rules, evs) \<leftarrow> tick_at F run now ctx (en_all e) (en_rules e);
     Some (e\<lparr>en_rules := rules\<rparr>, evs)
   }"

definition interval_step :: "duration \<Rightarrow> ('f, 'p) Rule \<Rightarrow> duration" where
  "interval_step best r =
     (let res = h_fineResolution (ru_history r)
      in if res \<le> 0 then best else if best = 0 \<or> res < best then res else best)"

definition TickInterval :: "('f, 'p) Engine \<Rightarrow> duration" where
  "TickInterval e =
     (let best = foldl interval_step 0 (map (\<lambda>i. en_rules e ! i) (en_all e))
      in if best > 0 \<and> best < second then second else best)"

section \<open>The index\<close>

text \<open>How often the index leads a sample of a protocol to a rule.\<close>

definition visits :: "('f, 'p) Rule \<Rightarrow> u8 \<Rightarrow> nat" where
  "visits r p = (if mf_protoFilter (ru_match r) = [] then 1 else count_list (mf_protoFilter (ru_match r)) p)"

definition occurrences :: "(nat \<Rightarrow> nat) \<Rightarrow> nat \<Rightarrow> nat list" where
  "occurrences f n = concat (map (\<lambda>i. replicate (f i) i) [0..<n])"

definition engine_index :: "('f, 'p) Engine \<Rightarrow> bool" where
  "engine_index e \<longleftrightarrow>
     (let n = length (en_rules e); pf = (\<lambda>i. mf_protoFilter (ru_match (en_rules e ! i)))
      in en_all e = [0..<n] \<and> en_anyProto e = occurrences (\<lambda>i. if pf i = [] then 1 else 0) n \<and>
         (\<forall>p. gget [] (en_byProto e) p = occurrences (\<lambda>i. count_list (pf i) p) n))"

lemma engine_index_all: "engine_index e \<Longrightarrow> en_all e = [0..<length (en_rules e)]"
  by (simp add: engine_index_def Let_def)

lemma occurrences_Suc: "occurrences f (Suc n) = occurrences f n @ replicate (f n) n"
  by (simp add: occurrences_def)

lemma occurrences_cong: "(\<And>i. i < n \<Longrightarrow> f i = g i) \<Longrightarrow> occurrences f n = occurrences g n"
  by (induction n) (simp_all add: occurrences_Suc, simp add: occurrences_def)

lemma gget_index_proto: "gget [] (fold (index_proto i) ps m) p = gget [] m p @ replicate (count_list ps p) i"
  by (induction ps arbitrary: m) (auto simp: index_proto_def replicate_append_same)

lemma index_rule_index:
  assumes "engine_index e"
  shows "engine_index (index_rule e r)"
proof -
  let ?n = "length (en_rules e)" and ?pf = "\<lambda>i. mf_protoFilter (ru_match (en_rules e ! i))"
  have old: "(en_rules e @ [r]) ! i = en_rules e ! i" if "i < ?n" for i using that by (simp add: nth_append)
  have c1: "occurrences (\<lambda>i. if mf_protoFilter (ru_match ((en_rules e @ [r]) ! i)) = [] then 1 else 0) ?n =
      occurrences (\<lambda>i. if ?pf i = [] then 1 else 0) ?n"
    by (rule occurrences_cong) (simp add: old)
  have c2: "occurrences (\<lambda>i. count_list (mf_protoFilter (ru_match ((en_rules e @ [r]) ! i))) p) ?n =
      occurrences (\<lambda>i. count_list (?pf i) p) ?n" for p
    by (rule occurrences_cong) (simp add: old)
  show ?thesis
    using assms by (auto simp: engine_index_def index_rule_def Let_def occurrences_Suc gget_index_proto c1 c2)
qed

lemma NewEngine_rules: "en_rules (NewEngine rules) = rules"
proof -
  have "en_rules (foldl index_rule e rules) = en_rules e @ rules" for e :: "('a, 'b) Engine"
    by (induction rules arbitrary: e) (simp_all add: index_rule_def Let_def)
  then show ?thesis by (simp add: NewEngine_def)
qed

lemma NewEngine_index: "engine_index (NewEngine rules)"
proof -
  have "engine_index e \<Longrightarrow> engine_index (foldl index_rule e rules)" for e :: "('a, 'b) Engine"
    by (induction rules arbitrary: e) (simp_all add: index_rule_index)
  moreover have "engine_index \<lparr>en_rules = [], en_anyProto = [], en_byProto = [], en_all = []\<rparr>"
    by (simp add: engine_index_def occurrences_def)
  ultimately show ?thesis by (simp add: NewEngine_def)
qed

section \<open>Samples\<close>

text \<open>A rule that observes the same sample several times.\<close>

fun observe_times :: "'f float_ops \<Rightarrow> Sample \<Rightarrow> nat \<Rightarrow> ('f, 'p) Rule \<Rightarrow> ('f, 'p) Rule option" where
  "observe_times F s 0 r = Some r"
| "observe_times F s (Suc n) r = do { r' \<leftarrow> Observe F r s; observe_times F s n r' }"

lemma observe_once [simp]: "m \<bind> observe_times F s 0 = m"
  by (cases m) simp_all

lemma count_list_distinct: "distinct xs \<Longrightarrow> count_list xs x = (if x \<in> set xs then 1 else 0)"
  by (induction xs) auto

lemma observe_at_append:
  "observe_at F s (is @ js) rules = do { rules' \<leftarrow> observe_at F s is rules; observe_at F s js rules' }"
  by (induction "is" arbitrary: rules) (auto split: bind_splits)

lemma observe_at_replicate:
  assumes "i < length rules"
  shows "observe_at F s (replicate n i) rules = do { r' \<leftarrow> observe_times F s n (rules ! i); Some (rules[i := r']) }"
  using assms by (induction n arbitrary: rules) (auto simp: elem_at_def split: bind_splits)

text \<open>Observing along the index gives every rule its samples, in whatever order the index lists the rules.\<close>

lemma observe_at_occurrences:
  assumes "length f = length rules" and "\<And>i. i < length rules \<Longrightarrow> observe_times F s (k i) (rules ! i) = Some (f ! i)"
  shows "observe_at F s (occurrences k (length rules)) rules = Some f"
proof -
  have "n \<le> length rules \<Longrightarrow> observe_at F s (occurrences k n) rules = Some (take n f @ drop n rules)" for n
  proof (induction n)
    case 0
    then show ?case by (simp add: occurrences_def)
  next
    case (Suc n)
    then have n: "n < length rules" by simp
    let ?mid = "take n f @ drop n rules"
    have "?mid ! n = rules ! n" and "n < length ?mid" using n assms(1) by (simp_all add: nth_append)
    moreover have "?mid[n := f ! n] = take (Suc n) f @ drop (Suc n) rules"
      using n assms(1) by (simp add: take_Suc_conv_app_nth list_update_append Cons_nth_drop_Suc [symmetric])
    ultimately show ?case
      using Suc n assms(2) [OF n] by (simp add: occurrences_Suc observe_at_append observe_at_replicate)
  qed
  from this [of "length rules"] assms(1) show ?thesis by simp
qed

lemma Observe_match: "Observe F r s = Some r' \<Longrightarrow> ru_match r' = ru_match r \<and> ru_name r' = ru_name r"
  by (auto simp: Observe_def Let_def split: if_splits bind_splits option.splits)


text \<open>What the index promises: every rule sees the sample once if its protocol filter names no protocol twice.\<close>

lemma observe_times_visits:
  assumes "distinct (mf_protoFilter (ru_match r))"
  shows "observe_times F s (visits r (s_Proto s)) r = Observe F r s"
proof (cases "mf_protoFilter (ru_match r) = [] \<or> s_Proto s \<in> set (mf_protoFilter (ru_match r))")
  case True
  then have "visits r (s_Proto s) = 1" using assms by (auto simp: visits_def count_list_distinct)
  then show ?thesis by simp
next
  case False
  then have "visits r (s_Proto s) = 0" and "\<not> matches (ru_match r) s"
    by (auto simp: visits_def matches_def count_list_0_iff)
  then show ?thesis by (simp add: Observe_def)
qed

definition engine_ok :: "('f, 'p) Engine \<Rightarrow> bool" where
  "engine_ok e \<longleftrightarrow> engine_index e \<and> list_all (\<lambda>r. rule_inv r \<and> distinct (mf_protoFilter (ru_match r))) (en_rules e)"

lemma engine_index_cong:
  assumes "engine_index e" and "map ru_match rs = map ru_match (en_rules e)"
  shows "engine_index (e\<lparr>en_rules := rs\<rparr>)"
proof -
  have n: "length rs = length (en_rules e)" using assms(2) by (metis length_map)
  have m: "ru_match (rs ! i) = ru_match (en_rules e ! i)" if "i < length (en_rules e)" for i
    using assms(2) n that by (metis nth_map)
  have c1: "occurrences (\<lambda>i. if mf_protoFilter (ru_match (rs ! i)) = [] then 1 else 0) (length (en_rules e)) =
      occurrences (\<lambda>i. if mf_protoFilter (ru_match (en_rules e ! i)) = [] then 1 else 0) (length (en_rules e))"
    by (rule occurrences_cong) (simp add: m)
  have c2: "occurrences (\<lambda>i. count_list (mf_protoFilter (ru_match (rs ! i))) p) (length (en_rules e)) =
      occurrences (\<lambda>i. count_list (mf_protoFilter (ru_match (en_rules e ! i))) p) (length (en_rules e))" for p
    by (rule occurrences_cong) (simp add: m)
  show ?thesis using assms(1) by (simp add: engine_index_def Let_def n c1 c2)
qed

text \<open>The engine hands the sample to each rule \<^const>\<open>visits\<close> many times.\<close>

lemma Engine_Observe_visits:
  assumes "engine_index e" and "length rs = length (en_rules e)"
    and "\<And>i. i < length rs \<Longrightarrow> observe_times F s (visits (en_rules e ! i) (s_Proto s)) (en_rules e ! i) = Some (rs ! i)"
  shows "Engine_Observe F e s = Some (e\<lparr>en_rules := rs\<rparr>)"
proof -
  let ?R = "en_rules e" and ?pf = "\<lambda>i. mf_protoFilter (ru_match (en_rules e ! i))"
  define mid where "mid = map (\<lambda>i. if ?pf i = [] then rs ! i else ?R ! i) [0..<length ?R]"
  have len: "length mid = length ?R" by (simp add: mid_def)
  have "observe_at F s (occurrences (\<lambda>i. if ?pf i = [] then 1 else 0) (length ?R)) ?R = Some mid"
    using len assms(2,3) by (intro observe_at_occurrences) (fastforce simp: mid_def visits_def)+
  moreover have "observe_at F s (occurrences (\<lambda>i. count_list (?pf i) (s_Proto s)) (length mid)) mid = Some rs"
  proof (rule observe_at_occurrences)
    show "observe_times F s (count_list (?pf i) (s_Proto s)) (mid ! i) = Some (rs ! i)" if "i < length mid" for i
      using that len assms(2) assms(3) [of i] by (auto simp: mid_def visits_def)
  qed (simp add: assms(2) len)
  ultimately show ?thesis using assms(1) len by (simp add: Engine_Observe_def engine_index_def Let_def)
qed

lemma Observe_all:
  assumes "float_laws F" and "list_all rule_inv rs" and "sample_wf s"
  obtains rs' where "list_all2 (\<lambda>r r'. Observe F r s = Some r' \<and> rule_inv r') rs rs'"
  using assms(2)
proof (induction rs arbitrary: thesis)
  case (Cons r rs)
  then obtain rs' where "list_all2 (\<lambda>r r'. Observe F r s = Some r' \<and> rule_inv r') rs rs'" by auto
  moreover obtain r' where "Observe F r s = Some r'" "rule_inv r'"
    using Observe_inv [OF assms(1) _ assms(3), of r] Cons.prems(2) by auto
  ultimately show ?case by (intro Cons.prems(1) [of "r' # rs'"]) simp
qed simp

text \<open>One sample: every rule observes it exactly once.\<close>

lemma Engine_Observe_exact:
  assumes "float_laws F" and ok: "engine_ok e" and "sample_wf s"
  shows "\<exists>rs. Engine_Observe F e s = Some (e\<lparr>en_rules := rs\<rparr>) \<and> engine_ok (e\<lparr>en_rules := rs\<rparr>) \<and>
    list_all2 (\<lambda>r r'. Observe F r s = Some r') (en_rules e) rs"
proof -
  have inv: "list_all rule_inv (en_rules e)" and d: "list_all (\<lambda>r. distinct (mf_protoFilter (ru_match r))) (en_rules e)"
    and idx: "engine_index e" using ok by (auto simp: engine_ok_def list_all_iff)
  from Observe_all [OF assms(1) inv assms(3)] obtain rs where
    rs: "list_all2 (\<lambda>r r'. Observe F r s = Some r' \<and> rule_inv r') (en_rules e) rs" by blast
  then have len: "length rs = length (en_rules e)" by (simp add: list_all2_conv_all_nth)
  have nth: "Observe F (en_rules e ! i) s = Some (rs ! i)" "rule_inv (rs ! i)" if "i < length rs" for i
    using rs that by (auto simp: list_all2_conv_all_nth)
  have "Engine_Observe F e s = Some (e\<lparr>en_rules := rs\<rparr>)"
    by (rule Engine_Observe_visits [OF idx len]) (use nth d len in \<open>simp add: observe_times_visits list_all_length\<close>)
  moreover have m: "ru_match (rs ! i) = ru_match (en_rules e ! i)" if "i < length rs" for i
    using Observe_match [OF nth(1) [OF that]] by simp
  then have "engine_index (e\<lparr>en_rules := rs\<rparr>)" by (intro engine_index_cong [OF idx] nth_equalityI) (simp_all add: len)
  then have "engine_ok (e\<lparr>en_rules := rs\<rparr>)" using d m nth(2) len by (simp add: engine_ok_def list_all_length)
  moreover have "list_all2 (\<lambda>r r'. Observe F r s = Some r') (en_rules e) rs" using nth(1) len by (simp add: list_all2_conv_all_nth)
  ultimately show ?thesis by blast
qed

section \<open>Ticks\<close>

lemma Tick_match: "Tick F run r now ctx = Some (r', evs) \<Longrightarrow> ru_match r' = ru_match r"
  by (auto simp: Tick_def ageSketch_def Let_def split: if_splits bind_splits)

text \<open>Each rule of the list ticks once, in the order of the list.\<close>

lemma tick_at_all:
  "list_all2 (\<lambda>r x. Tick F run r now ctx = Some x) rules res \<Longrightarrow>
   tick_at F run now ctx [length done..<length done + length rules] (done @ rules) =
     Some (done @ map fst res, concat (map snd res))"
proof (induction rules res arbitrary: "done" rule: list_all2_induct)
  case (Cons r rules x res)
  obtain r' evs where x: "x = (r', evs)" by fastforce
  have "[length done..<length done + length (r # rules)] = length done # [length (done @ [r'])..<length (done @ [r']) + length rules]"
    by (simp del: upt_Suc add: upt_conv_Cons)
  then show ?case using Cons.IH [of "done @ [r']"] Cons.hyps x by (simp add: elem_at_def)
qed simp

lemma Tick_all:
  assumes "list_all rule_inv rs"
  obtains res where "list_all2 (\<lambda>r x. Tick F run r now ctx = Some x \<and> rule_inv (fst x)) rs res"
  using assms
proof (induction rs arbitrary: thesis)
  case (Cons r rs)
  then obtain res where "list_all2 (\<lambda>r x. Tick F run r now ctx = Some x \<and> rule_inv (fst x)) rs res" by auto
  moreover obtain r' evs where "Tick F run r now ctx = Some (r', evs)" "rule_inv r'"
    using Tick_inv [of r F run now ctx] Cons.prems(2) by auto
  ultimately show ?case by (intro Cons.prems(1) [of "(r', evs) # res"]) simp
qed simp

lemma Engine_Tick_exact:
  assumes ok: "engine_ok e"
  shows "\<exists>res. Engine_Tick F run e now ctx = Some (e\<lparr>en_rules := map fst res\<rparr>, concat (map snd res)) \<and>
    engine_ok (e\<lparr>en_rules := map fst res\<rparr>) \<and>
    list_all2 (\<lambda>r x. Tick F run r now ctx = Some x) (en_rules e) res"
proof -
  have idx: "engine_index e" and inv: "list_all rule_inv (en_rules e)"
    and d: "list_all (\<lambda>r. distinct (mf_protoFilter (ru_match r))) (en_rules e)"
    using ok by (auto simp: engine_ok_def list_all_iff)
  from Tick_all [OF inv] obtain res where
    res: "list_all2 (\<lambda>r x. Tick F run r now ctx = Some x \<and> rule_inv (fst x)) (en_rules e) res" by blast
  then have len: "length res = length (en_rules e)" by (simp add: list_all2_conv_all_nth)
  have nth: "Tick F run (en_rules e ! i) now ctx = Some (res ! i)" "rule_inv (fst (res ! i))" if "i < length res" for i
    using res that by (auto simp: list_all2_conv_all_nth)
  have all: "list_all2 (\<lambda>r x. Tick F run r now ctx = Some x) (en_rules e) res"
    using nth(1) len by (simp add: list_all2_conv_all_nth)
  from tick_at_all [OF this, of "[]"] idx
  have "Engine_Tick F run e now ctx = Some (e\<lparr>en_rules := map fst res\<rparr>, concat (map snd res))"
    by (simp add: Engine_Tick_def engine_index_def Let_def)
  moreover have m: "ru_match (fst (res ! i)) = ru_match (en_rules e ! i)" if "i < length res" for i
    using Tick_match [of F run _ now ctx "fst (res ! i)" "snd (res ! i)"] nth(1) [OF that] by simp
  then have "engine_index (e\<lparr>en_rules := map fst res\<rparr>)" by (intro engine_index_cong [OF idx] nth_equalityI) (simp_all add: len)
  then have "engine_ok (e\<lparr>en_rules := map fst res\<rparr>)" using d m nth(2) len by (simp add: engine_ok_def list_all_length)
  ultimately show ?thesis using all by blast
qed


section \<open>Runs\<close>

fun engine_step :: "'f float_ops \<Rightarrow> ('f, 'p) machine \<Rightarrow> ('f, 'p) Engine \<Rightarrow> 'f rule_input \<Rightarrow> (('f, 'p) Engine \<times> 'f Event list) option" where
  "engine_step F run e (InSample s) = do { e' \<leftarrow> Engine_Observe F e s; Some (e', []) }"
| "engine_step F run e (InTick now ctx) = Engine_Tick F run e now ctx"

fun engine_run :: "'f float_ops \<Rightarrow> ('f, 'p) machine \<Rightarrow> ('f, 'p) Engine \<Rightarrow> 'f rule_input list \<Rightarrow> (('f, 'p) Engine \<times> 'f Event list) option" where
  "engine_run F run e [] = Some (e, [])"
| "engine_run F run e (x # xs) = do {
     (e1, evs) \<leftarrow> engine_step F run e x;
     (e2, evs') \<leftarrow> engine_run F run e1 xs;
     Some (e2, evs @ evs')
   }"

lemma engine_step_exact:
  assumes "float_laws F" and ok: "engine_ok e" and "input_wf x"
  shows "\<exists>e1 evs res. engine_step F run e x = Some (e1, evs) \<and> engine_ok e1 \<and> en_rules e1 = map fst res \<and>
    list_all2 (\<lambda>r y. rule_step F run r x = Some y) (en_rules e) res \<and> evs = concat (map snd res)"
proof (cases x)
  case (InSample s)
  with assms(3) have "sample_wf s" by simp
  from Engine_Observe_exact [OF assms(1) ok this] obtain rs where
    e: "Engine_Observe F e s = Some (e\<lparr>en_rules := rs\<rparr>)" "engine_ok (e\<lparr>en_rules := rs\<rparr>)"
    and rs: "list_all2 (\<lambda>r r'. Observe F r s = Some r') (en_rules e) rs" by blast
  let ?res = "map (\<lambda>r. (r, [])) rs"
  have "list_all2 (\<lambda>r y. rule_step F run r x = Some y) (en_rules e) ?res"
    using rs InSample by (simp add: list_all2_conv_all_nth)
  moreover have "concat (map snd ?res) = []" by (simp add: o_def)
  moreover have "map fst ?res = rs" by (simp add: o_def)
  ultimately show ?thesis using e InSample
    by - (rule exI [of _ "e\<lparr>en_rules := rs\<rparr>"], rule exI [of _ "[]"], rule exI [of _ ?res], simp add: o_def)
next
  case (InTick now ctx)
  with Engine_Tick_exact [OF ok, of F run now ctx] show ?thesis by fastforce
qed

definition then_run :: "'a \<times> 'e list \<Rightarrow> 'b \<times> 'e list \<Rightarrow> 'b \<times> 'e list" where
  "then_run x y = (fst y, snd x @ snd y)"

lemma mset_then_run:
  "length xs = length ys \<Longrightarrow>
   mset (concat (map snd (map2 then_run xs ys))) = mset (concat (map snd xs)) + mset (concat (map snd ys))"
  by (induction xs ys rule: list_induct2) (simp_all add: then_run_def)

lemma map_fst_then_run: "length xs = length ys \<Longrightarrow> map fst (map2 then_run xs ys) = map fst ys"
  by (induction xs ys rule: list_induct2) (simp_all add: then_run_def)

lemma rule_run_then:
  "rule_step F run r x = Some y \<Longrightarrow> rule_run F run (fst y) xs = Some z \<Longrightarrow> rule_run F run r (x # xs) = Some (then_run y z)"
  by (cases y; cases z) (simp add: then_run_def)

lemma engine_run_exact:
  assumes "float_laws F"
  shows "engine_ok e \<Longrightarrow> list_all input_wf xs \<Longrightarrow>
    \<exists>e' evs res. engine_run F run e xs = Some (e', evs) \<and> engine_ok e' \<and> en_rules e' = map fst res \<and>
      list_all2 (\<lambda>r y. rule_run F run r xs = Some y) (en_rules e) res \<and> mset evs = mset (concat (map snd res))"
proof (induction xs arbitrary: e)
  case Nil
  let ?res = "map (\<lambda>r. (r, [])) (en_rules e)"
  have "map fst ?res = en_rules e" "concat (map snd ?res) = []" by (simp_all add: o_def)
  with Nil show ?case
    by - (rule exI [of _ e], rule exI [of _ "[]"], rule exI [of _ ?res], simp add: list_all2_conv_all_nth o_def)
next
  case (Cons x xs)
  then obtain e1 evs res where 1: "engine_step F run e x = Some (e1, evs)" "engine_ok e1" "en_rules e1 = map fst res"
    "list_all2 (\<lambda>r y. rule_step F run r x = Some y) (en_rules e) res" "evs = concat (map snd res)"
    using engine_step_exact [OF assms, of e x run] by auto
  from Cons.IH [OF 1(2)] Cons.prems(2) obtain e2 evs2 res2 where 2: "engine_run F run e1 xs = Some (e2, evs2)" "engine_ok e2"
    "en_rules e2 = map fst res2" "list_all2 (\<lambda>r y. rule_run F run r xs = Some y) (map fst res) res2"
    "mset evs2 = mset (concat (map snd res2))" unfolding 1(3) by auto
  have len: "length res = length res2" "length (en_rules e) = length res"
    using 2(4) 1(4) by (auto dest: list_all2_lengthD)
  let ?res = "map2 then_run res res2"
  have "list_all2 (\<lambda>r y. rule_run F run r (x # xs) = Some y) (en_rules e) ?res"
    using 1(4) 2(4) len by (auto simp: list_all2_conv_all_nth simp del: rule_run.simps intro!: rule_run_then)
  with 1 2 len show ?case
    by (intro exI [of _ e2] exI [of _ "evs @ evs2"] exI [of _ ?res]) (simp add: mset_then_run map_fst_then_run del: map_map)
qed

lemma NewEngine_ok:
  "list_all (\<lambda>r. rule_inv r \<and> distinct (mf_protoFilter (ru_match r))) rules \<Longrightarrow> engine_ok (NewEngine rules)"
  by (simp add: engine_ok_def NewEngine_index NewEngine_rules)


definition real_compile :: "RuleConfig \<Rightarrow> verr + (real, string) Rule" where
  "real_compile cfg = compileRule real_ops (\<lambda>src names. Inr src) (\<lambda>cfg. ''fp'') cfg"

lemma tcp_scan_protocols: "case real_compile tcp_scan_ipv4 of Inr r \<Rightarrow> mf_protoFilter (ru_match r) = [6] | Inl e \<Rightarrow> False"
  by code_simp

lemma tcp_scan_rule:
  obtains r where "real_compile tcp_scan_ipv4 = Inr r"
    and "list_all (\<lambda>r. rule_inv r \<and> distinct (mf_protoFilter (ru_match r))) [r]"
proof -
  obtain r where r: "real_compile tcp_scan_ipv4 = Inr r" using tcp_scan_compiles by (auto simp: real_compile_def)
  then have "rule_inv r" using compileRule_inv [OF _ tcp_scan_typed] by (auto simp: real_compile_def)
  with tcp_scan_protocols r show thesis by (intro that [of r]) simp_all
qed


section \<open>A protocol named twice\<close>

definition scan_twice :: RuleConfig where
  "scan_twice = tcp_scan_ipv4\<lparr>rc_Match := (rc_Match tcp_scan_ipv4)\<lparr>mc_Proto := [''tcp'', ''6'']\<rparr>, rc_RatioDetection := []\<rparr>"

lemma scan_twice_protocols:
  "case real_compile scan_twice of Inr r \<Rightarrow> mf_protoFilter (ru_match r) = [6, 6] | Inl e \<Rightarrow> False"
  by code_simp

lemma Engine_Observe_twice:
  "mf_protoFilter (ru_match r) = [p, p] \<Longrightarrow>
   Engine_Observe F (NewEngine [r]) (s\<lparr>s_Proto := p\<rparr>) = do {
     r1 \<leftarrow> Observe F r (s\<lparr>s_Proto := p\<rparr>);
     r2 \<leftarrow> Observe F r1 (s\<lparr>s_Proto := p\<rparr>);
     Some ((NewEngine [r])\<lparr>en_rules := [r2]\<rparr>)
   }"
  by (simp add: Engine_Observe_def NewEngine_def index_rule_def index_proto_def Let_def elem_at_def)

text \<open>
  C40: A rule whose protocol list names one protocol in two ways (\<^verbatim>\<open>[tcp, 6]\<close>) compiles, and the engine
  folds every sample of that protocol into it twice.
\<close>

theorem duplicate_protocol_counted_twice:
  "\<exists>r. real_compile scan_twice = Inr r \<and>
     (\<forall>s. Engine_Observe real_ops (NewEngine [r]) (s\<lparr>s_Proto := 6\<rparr>) = do {
        r1 \<leftarrow> Observe real_ops r (s\<lparr>s_Proto := 6\<rparr>);
        r2 \<leftarrow> Observe real_ops r1 (s\<lparr>s_Proto := 6\<rparr>);
        Some ((NewEngine [r])\<lparr>en_rules := [r2]\<rparr>)
      })"
  using scan_twice_protocols by (cases "real_compile scan_twice") (auto intro!: Engine_Observe_twice)

end
