(* ===== verification/DetRuntime.thy ===== *)
theory DetRuntime
  imports DetEngine "HOL-Library.Sublist"
begin

text \<open>
  The status snapshot of the detection engine (snapshot.go) and the runner that feeds the engine
  with samples and ticks and passes its events on through a bounded queue (runtime.go). One step
  of the runner is one case of the \<^verbatim>\<open>select\<close> of its loop; which case is ready is the input. \<open>None\<close>
  is a run-time panic.
\<close>

section \<open>Snapshots\<close>

definition icmpSnap :: "u8 \<Rightarrow> bool \<Rightarrow> string" where
  "icmpSnap v wild = (if wild then '''' else dec (unat v))"

record 'f InstanceSnapshot =
  sn_Key :: string
  sn_Family :: string
  sn_Proto :: string
  sn_Src :: string
  sn_Dst :: string
  sn_SrcPort :: string
  sn_DstPort :: string
  sn_ICMPType :: string
  sn_ICMPCode :: string
  sn_IngressIf :: string
  sn_LastSeen :: gotime
  sn_PPS :: 'f
  sn_BPS :: 'f
  sn_Score :: 'f
  sn_Firing :: bool
  sn_Terms :: "(string, 'f) gomap"
  sn_Spread :: "(string, int) gomap"

record 'f RuleSnapshot =
  sn_Name :: string
  sn_InstanceCount :: int
  sn_MaxInstances :: int
  sn_Instances :: "'f InstanceSnapshot list"

record 'f EngineSnapshot =
  sn_At :: gotime
  sn_Rules :: "'f RuleSnapshot list"

fun snap_terms :: "'f float_ops \<Rightarrow> ring_term list \<Rightarrow> inst \<Rightarrow> gotime \<Rightarrow> 'f EvalContext \<Rightarrow> (string, 'f) gomap \<Rightarrow> (string, 'f) gomap option" where
  "snap_terms F [] i now ctx m = Some m"
| "snap_terms F (t # ts) i now ctx m = do { v \<leftarrow> termValue F t i now ctx; snap_terms F ts i now ctx (gput (t_name t) v m) }"

fun snap_spread :: "spreadField list \<Rightarrow> spreadEstimator list \<Rightarrow> (string, int) gomap \<Rightarrow> (string, int) gomap option" where
  "snap_spread [] es m = Some m"
| "snap_spread (f # fs) [] m = None"
| "snap_spread (f # fs) (e # es) m = do { pct \<leftarrow> ratioPct e; snap_spread fs es (gput (spreadField_String (sf_kind f)) pct m) }"

definition snap_field :: "granularity \<Rightarrow> descriptor \<Rightarrow> string \<Rightarrow> string" where
  "snap_field g d name = (case resolveDescriptorVar g d name of Some v \<Rightarrow> v | None \<Rightarrow> '''')"

definition instanceSnapshot :: "'f float_ops \<Rightarrow> ('f, 'p) Rule \<Rightarrow> inst \<Rightarrow> gotime \<Rightarrow> 'f EvalContext \<Rightarrow> 'f InstanceSnapshot option" where
  "instanceSnapshot F r i now ctx = do {
     terms \<leftarrow> snap_terms F (ru_terms r) i now ctx [];
     spread \<leftarrow> (case in_spread i of None \<Rightarrow> Some [] | Some es \<Rightarrow> snap_spread (ru_spreadFields r) es []);
     pps \<leftarrow> rate F (in_fine i) now 1 metricPPS;
     bps \<leftarrow> rate F (in_fine i) now 1 metricBPS;
     score \<leftarrow> estimate F (ru_sketch r) (in_keyHash i);
     let field = snap_field (ru_gran r) (in_key i);
     Some \<lparr>sn_Key = descriptorString (ru_gran r) (in_key i), sn_Family = field ''family'', sn_Proto = field ''proto'',
       sn_Src = field ''src'', sn_Dst = field ''dst'', sn_SrcPort = field ''src_port'', sn_DstPort = field ''dst_port'',
       sn_ICMPType = icmpSnap (d_icmpType (in_key i)) (d_icmpTypeWild (in_key i)),
       sn_ICMPCode = icmpSnap (d_icmpCode (in_key i)) (d_icmpCodeWild (in_key i)),
       sn_IngressIf = in_lastIngressIf i, sn_LastSeen = in_lastSeen i, sn_PPS = pps, sn_BPS = bps, sn_Score = score,
       sn_Firing = (\<not> IsZero (in_trueSince i)), sn_Terms = terms, sn_Spread = spread\<rparr>
   }"

text \<open>A loop that appends one result per element.\<close>

fun omap :: "('a \<Rightarrow> 'b option) \<Rightarrow> 'a list \<Rightarrow> 'b list option" where
  "omap f [] = Some []"
| "omap f (x # xs) = do { y \<leftarrow> f x; ys \<leftarrow> omap f xs; Some (y # ys) }"

definition rule_snapshot :: "'f float_ops \<Rightarrow> ('f, 'p) Rule \<Rightarrow> gotime \<Rightarrow> 'f EvalContext \<Rightarrow> 'f RuleSnapshot option" where
  "rule_snapshot F r now ctx = do {
     instances \<leftarrow> omap (\<lambda>(k, i). instanceSnapshot F r i now ctx) (is_items (ru_store r));
     Some \<lparr>sn_Name = ru_name r, sn_InstanceCount = store_len (ru_store r), sn_MaxInstances = is_max (ru_store r),
       sn_Instances = instances\<rparr>
   }"

definition Engine_Snapshot :: "'f float_ops \<Rightarrow> ('f, 'p) Engine \<Rightarrow> gotime \<Rightarrow> 'f EvalContext \<Rightarrow> 'f EngineSnapshot option" where
  "Engine_Snapshot F e now ctx = do {
     rules \<leftarrow> omap (\<lambda>i. do { r \<leftarrow> elem_at (en_rules e) i; rule_snapshot F r now ctx }) (en_all e);
     Some \<lparr>sn_At = now, sn_Rules = rules\<rparr>
   }"

lemma omap_Some: "omap f xs = Some ys \<longleftrightarrow> list_all2 (\<lambda>x y. f x = Some y) xs ys"
  by (induction xs arbitrary: ys) (auto simp: list_all2_Cons1 Option.bind_eq_Some_conv)

lemma omap_total: "(\<And>x. x \<in> set xs \<Longrightarrow> \<exists>y. f x = Some y) \<Longrightarrow> \<exists>ys. omap f xs = Some ys"
  by (induction xs) fastforce+

lemma snap_terms_total: "inst_fits h k i \<Longrightarrow> \<exists>m'. snap_terms F ts i now ctx m = Some m'"
proof (induction ts arbitrary: m)
  case (Cons t ts)
  with termValue_total [OF Cons.prems, of F t now ctx] show ?case by auto
qed simp

lemma snap_spread_total:
  "list_all2 (\<lambda>f e. spread_ok e \<and> se_buckets e = sf_buckets f) fs es \<Longrightarrow> \<exists>m'. snap_spread fs es m = Some m'"
proof (induction arbitrary: m rule: list_all2_induct)
  case (Cons f fs e es)
  then have "se_buckets e \<noteq> 0" by (auto simp: spread_ok_def)
  with Cons.IH show ?case by (simp add: ratioPct_def)
qed simp

lemma rate_total: "ring_fits r sh \<Longrightarrow> \<exists>v. rate F r now 1 m = Some v"
proof -
  assume "ring_fits r sh"
  then have n: "0 < length (rg_slots r)" "rg_resolution r \<noteq> 0" by (auto simp: ring_fits_def shape_ok_def)
  obtain p b where "slot_at (rg_slots r) (quot (UnixNano now) (rg_resolution r)) = Some (p, b)"
    using slot_at_total [OF n(1)] by fastforce
  with n(2) show ?thesis by (simp add: rate_def ring_epoch_def rate_loop_def Let_def)
qed

lemma instanceSnapshot_total:
  assumes "rule_inv r" and "(k, i) \<in> set (is_items (ru_store r))"
  shows "\<exists>s. instanceSnapshot F r i now ctx = Some s"
proof -
  have fits: "inst_fits (ru_history r) k i" and spr: "spread_fits (ru_spreadFields r) i" and sk: "hk_shape (ru_sketch r)"
    using assms by (auto simp: rule_inv_def pool_ok_def list_all_iff)
  then have "ring_fits (in_fine i) (ring_shape (ru_history r) ringFine)" by (simp add: inst_fits_def)
  then obtain p b where "rate F (in_fine i) now 1 metricPPS = Some p" "rate F (in_fine i) now 1 metricBPS = Some b"
    using rate_total by metis
  moreover obtain sc where "estimate F (ru_sketch r) (in_keyHash i) = Some sc"
    using fits estimate_est_of [OF sk, of F k] by (auto simp: inst_fits_def)
  moreover obtain m where "snap_terms F (ru_terms r) i now ctx [] = Some m"
    using snap_terms_total [OF fits] by blast
  moreover obtain m' where "(case in_spread i of None \<Rightarrow> Some [] | Some es \<Rightarrow> snap_spread (ru_spreadFields r) es []) = Some m'"
    using spr snap_spread_total by (cases "in_spread i") (fastforce simp: spread_fits_def)+
  ultimately show ?thesis by (simp add: instanceSnapshot_def Let_def)
qed

lemma rule_snapshot_total:
  assumes "rule_inv r"
  shows "\<exists>s. rule_snapshot F r now ctx = Some s \<and> sn_Name s = ru_name r \<and> sn_InstanceCount s = int (length (sn_Instances s)) \<and>
    sn_InstanceCount s \<le> sn_MaxInstances s"
proof -
  have "\<exists>y. (\<lambda>(k, i). instanceSnapshot F r i now ctx) x = Some y" if "x \<in> set (is_items (ru_store r))" for x
    using that instanceSnapshot_total [OF assms, of "fst x" "snd x" F now ctx] by (simp add: case_prod_beta)
  then obtain xs where xs: "omap (\<lambda>(k, i). instanceSnapshot F r i now ctx) (is_items (ru_store r)) = Some xs"
    using omap_total [of "is_items (ru_store r)" "\<lambda>(k, i). instanceSnapshot F r i now ctx"] by blast
  then have "length xs = length (is_items (ru_store r))" by (auto simp: omap_Some dest: list_all2_lengthD)
  with xs rule_inv_count [OF assms] show ?thesis
    by (auto simp: rule_snapshot_def store_len_def InstanceCount_def MaxInstances_def)
qed

lemma Engine_Snapshot_total:
  assumes "engine_ok e"
  shows "\<exists>s. Engine_Snapshot F e now ctx = Some s \<and> map sn_Name (sn_Rules s) = map ru_name (en_rules e) \<and>
    list_all (\<lambda>q. sn_InstanceCount q = int (length (sn_Instances q)) \<and> sn_InstanceCount q \<le> sn_MaxInstances q) (sn_Rules s)"
proof -
  have all: "en_all e = [0..<length (en_rules e)]" and inv: "list_all rule_inv (en_rules e)"
    using assms by (auto simp: engine_ok_def engine_index_def Let_def list_all_iff)
  let ?f = "\<lambda>i. do { r \<leftarrow> elem_at (en_rules e) i; rule_snapshot F r now ctx }"
  have f: "\<exists>s. ?f i = Some s \<and> sn_Name s = ru_name (en_rules e ! i) \<and> sn_InstanceCount s = int (length (sn_Instances s)) \<and>
      sn_InstanceCount s \<le> sn_MaxInstances s" if "i < length (en_rules e)" for i
    using that inv rule_snapshot_total [of "en_rules e ! i" F now ctx] by (simp add: elem_at_def list_all_length)
  obtain ss where ss: "omap ?f (en_all e) = Some ss" using omap_total [of "en_all e" ?f] f all by fastforce
  then have l2: "list_all2 (\<lambda>i s. ?f i = Some s) [0..<length (en_rules e)] ss" by (simp add: omap_Some all)
  then have len: "length ss = length (en_rules e)" by (auto dest: list_all2_lengthD)
  have nth: "?f i = Some (ss ! i)" if "i < length ss" for i
    using l2 len that by (simp add: list_all2_conv_all_nth)
  have "map sn_Name ss = map ru_name (en_rules e)"
    using f nth len by (intro nth_equalityI) fastforce+
  moreover have "list_all (\<lambda>q. sn_InstanceCount q = int (length (sn_Instances q)) \<and> sn_InstanceCount q \<le> sn_MaxInstances q) ss"
    using f nth len by (fastforce simp: list_all_length)
  ultimately show ?thesis using ss by (simp add: Engine_Snapshot_def)
qed

section \<open>The runner\<close>

text \<open>
  The queue of events is the buffered channel to the local rule controller; \<open>rn_received\<close> is what
  the controller has taken from it. \<open>rn_done\<close> is the closed channel \<^verbatim>\<open>done\<close>.
\<close>

record ('f, 'p) Runner =
  rn_engine :: "('f, 'p) Engine"
  rn_ctx :: "'f EvalContext"
  rn_interval :: duration
  rn_cap :: nat
  rn_events :: "'f Event list"
  rn_received :: "'f Event list"
  rn_dropped :: int
  rn_done :: bool

definition NewRunnerWithContext :: "('f, 'p) Engine \<Rightarrow> nat \<Rightarrow> 'f EvalContext \<Rightarrow> ('f, 'p) Runner" where
  "NewRunnerWithContext e cap ctx =
     (let interval = TickInterval e
      in \<lparr>rn_engine = e, rn_ctx = ctx, rn_interval = (if interval \<le> 0 then second else interval), rn_cap = cap,
          rn_events = [], rn_received = [], rn_dropped = 0, rn_done = False\<rparr>)"

definition NewRunner :: "('f, 'p) Engine \<Rightarrow> nat \<Rightarrow> ('f, 'p) Runner" where
  "NewRunner e cap = NewRunnerWithContext e cap None"

definition SetEvalContext :: "('f, 'p) Runner \<Rightarrow> 'f EvalContext \<Rightarrow> ('f, 'p) Runner" where
  "SetEvalContext r ctx = r\<lparr>rn_ctx := ctx\<rparr>"

definition DroppedEvents :: "('f, 'p) Runner \<Rightarrow> int" where
  "DroppedEvents r = rn_dropped r"

text \<open>A send that does not wait: an event for a full queue is counted and lost.\<close>

definition offer :: "('f, 'p) Runner \<Rightarrow> 'f Event \<Rightarrow> ('f, 'p) Runner" where
  "offer r ev =
     (if length (rn_events r) < rn_cap r then r\<lparr>rn_events := rn_events r @ [ev]\<rparr>
      else r\<lparr>rn_dropped := wrap64 (rn_dropped r + 1)\<rparr>)"

datatype runner_input =
    CtxDone
  | SampleIn Sample
  | SamplesClosed
  | TickerC gotime
  | SnapshotReq gotime
  | Receive

fun runner_step :: "'f float_ops \<Rightarrow> ('f, 'p) machine \<Rightarrow> ('f, 'p) Runner \<Rightarrow> runner_input \<Rightarrow> ('f, 'p) Runner option" where
  "runner_step F run r Receive =
     Some (case rn_events r of [] \<Rightarrow> r | ev # evs \<Rightarrow> r\<lparr>rn_events := evs, rn_received := rn_received r @ [ev]\<rparr>)"
| "runner_step F run r CtxDone = Some (r\<lparr>rn_done := True\<rparr>)"
| "runner_step F run r SamplesClosed = Some (r\<lparr>rn_done := True\<rparr>)"
| "runner_step F run r (SampleIn s) =
     (if rn_done r then Some r else do { e \<leftarrow> Engine_Observe F (rn_engine r) s; Some (r\<lparr>rn_engine := e\<rparr>) })"
| "runner_step F run r (TickerC now) =
     (if rn_done r then Some r
      else do {
        (e, evs) \<leftarrow> Engine_Tick F run (rn_engine r) now (rn_ctx r);
        Some (foldl offer (r\<lparr>rn_engine := e\<rparr>) evs)
      })"
| "runner_step F run r (SnapshotReq now) =
     (if rn_done r then Some r else do { _ \<leftarrow> Engine_Snapshot F (rn_engine r) now (rn_ctx r); Some r })"

fun runner_run :: "'f float_ops \<Rightarrow> ('f, 'p) machine \<Rightarrow> ('f, 'p) Runner \<Rightarrow> runner_input list \<Rightarrow> ('f, 'p) Runner option" where
  "runner_run F run r [] = Some r"
| "runner_run F run r (x # xs) = do { r' \<leftarrow> runner_step F run r x; runner_run F run r' xs }"

text \<open>The reply to a status request: an empty snapshot once the runner has stopped.\<close>

definition Runner_Snapshot :: "'f float_ops \<Rightarrow> ('f, 'p) Runner \<Rightarrow> gotime \<Rightarrow> 'f EngineSnapshot option" where
  "Runner_Snapshot F r now =
     (if rn_done r then Some \<lparr>sn_At = Time_zero, sn_Rules = []\<rparr> else Engine_Snapshot F (rn_engine r) now (rn_ctx r))"

text \<open>What the engine sees: the samples and ticks up to the end of the loop.\<close>

fun engine_inputs :: "'f EvalContext \<Rightarrow> runner_input list \<Rightarrow> 'f rule_input list" where
  "engine_inputs ctx [] = []"
| "engine_inputs ctx (x # xs) =
     (case x of
        CtxDone \<Rightarrow> []
      | SamplesClosed \<Rightarrow> []
      | SampleIn s \<Rightarrow> InSample s # engine_inputs ctx xs
      | TickerC now \<Rightarrow> InTick now ctx # engine_inputs ctx xs
      | SnapshotReq now \<Rightarrow> engine_inputs ctx xs
      | Receive \<Rightarrow> engine_inputs ctx xs)"

fun runner_wf :: "runner_input \<Rightarrow> bool" where
  "runner_wf (SampleIn s) = sample_wf s"
| "runner_wf x = True"

lemma engine_inputs_wf: "list_all runner_wf xs \<Longrightarrow> list_all input_wf (engine_inputs ctx xs)"
  by (induction xs) (auto split: runner_input.splits)

text \<open>
  The queue against the events fired so far: what was taken and what waits are the fired events
  in order, less the dropped ones, which are counted.
\<close>

definition queue_ok :: "('f, 'p) Runner \<Rightarrow> 'f Event list \<Rightarrow> bool" where
  "queue_ok r fired \<longleftrightarrow> length (rn_events r) \<le> rn_cap r \<and> subseq (rn_received r @ rn_events r) fired \<and>
     rn_dropped r = wrap64 (int (length fired) - int (length (rn_received r @ rn_events r)))"

lemma wrap64_Suc: "wrap64 (wrap64 a + 1) = wrap64 (a + 1)"
  by (simp add: wrap64_def)

lemma offer_ok: "queue_ok r fired \<Longrightarrow> queue_ok (offer r ev) (fired @ [ev])"
proof (cases "length (rn_events r) < rn_cap r")
  case True
  assume "queue_ok r fired"
  moreover then have "subseq ((rn_received r @ rn_events r) @ [ev]) (fired @ [ev])"
    by (intro list_emb_append_mono) (auto simp: queue_ok_def)
  ultimately show ?thesis using True by (simp add: queue_ok_def offer_def)
next
  case False
  assume q: "queue_ok r fired"
  then have "subseq ((rn_received r @ rn_events r) @ []) (fired @ [ev])"
    by (intro list_emb_append_mono) (auto simp: queue_ok_def)
  moreover have "wrap64 (rn_dropped r + 1) = wrap64 (int (length (fired @ [ev])) - int (length (rn_received r @ rn_events r)))"
    using q wrap64_Suc by (simp add: queue_ok_def algebra_simps)
  ultimately show ?thesis using False q by (simp add: queue_ok_def offer_def)
qed

lemma offer_all_ok: "queue_ok r fired \<Longrightarrow> queue_ok (foldl offer r evs) (fired @ evs)"
  by (induction evs arbitrary: r fired) (use offer_ok in force)+

lemma offer_all_keeps [simp]:
  "rn_engine (foldl offer r evs) = rn_engine r" "rn_ctx (foldl offer r evs) = rn_ctx r" "rn_done (foldl offer r evs) = rn_done r"
  by (induction evs arbitrary: r) (simp_all add: offer_def)

lemma offer_all_cap [simp]: "rn_cap (foldl offer r evs) = rn_cap r"
  by (induction evs arbitrary: r) (simp_all add: offer_def)

lemma runner_step_cap: "runner_step F run r x = Some r' \<Longrightarrow> rn_cap r' = rn_cap r"
  by (cases x) (auto simp: Option.bind_eq_Some_conv split: list.splits if_splits)

lemma runner_run_cap: "runner_run F run r xs = Some r' \<Longrightarrow> rn_cap r' = rn_cap r"
  by (induction xs arbitrary: r) (auto simp: Option.bind_eq_Some_conv dest: runner_step_cap)

lemma queue_ok_engine [simp]: "queue_ok (r\<lparr>rn_engine := e\<rparr>) fired = queue_ok r fired"
  by (simp add: queue_ok_def)

lemma queue_ok_done [simp]: "queue_ok (r\<lparr>rn_done := b\<rparr>) fired = queue_ok r fired"
  by (simp add: queue_ok_def)

lemma receive_ok: "queue_ok r fired \<Longrightarrow> \<exists>r'. runner_step F run r Receive = Some r' \<and> queue_ok r' fired \<and>
    rn_engine r' = rn_engine r \<and> rn_ctx r' = rn_ctx r \<and> rn_done r' = rn_done r"
  by (cases "rn_events r") (simp_all add: queue_ok_def add.assoc)

lemma stopped_run:
  "rn_done r \<Longrightarrow> queue_ok r fired \<Longrightarrow> \<exists>r'. runner_run F run r xs = Some r' \<and> rn_engine r' = rn_engine r \<and> queue_ok r' fired"
proof (induction xs arbitrary: r)
  case (Cons x xs)
  have "\<exists>r1. runner_step F run r x = Some r1 \<and> rn_done r1 \<and> queue_ok r1 fired \<and> rn_engine r1 = rn_engine r"
    using Cons.prems receive_ok [OF Cons.prems(2), of F run] by (cases x) auto
  with Cons.IH show ?case by fastforce
qed simp

lemma runner_run_exact:
  assumes "float_laws F"
  shows "\<not> rn_done r \<Longrightarrow> engine_ok (rn_engine r) \<Longrightarrow> queue_ok r fired \<Longrightarrow> list_all runner_wf xs \<Longrightarrow>
    \<exists>r' evs. runner_run F run r xs = Some r' \<and>
      engine_run F run (rn_engine r) (engine_inputs (rn_ctx r) xs) = Some (rn_engine r', evs) \<and> queue_ok r' (fired @ evs)"
proof (induction xs arbitrary: r fired)
  case (Cons x xs)
  show ?case
  proof (cases x)
    case (SampleIn s)
    with Cons.prems Engine_Observe_exact [OF assms, of "rn_engine r" s]
    obtain e where e: "Engine_Observe F (rn_engine r) s = Some e" "engine_ok e" by auto
    with Cons.IH [of "r\<lparr>rn_engine := e\<rparr>" fired] Cons.prems SampleIn show ?thesis by auto
  next
    case (TickerC now)
    from Engine_Tick_exact [OF Cons.prems(2)] obtain e evs where
      e: "Engine_Tick F run (rn_engine r) now (rn_ctx r) = Some (e, evs)" "engine_ok e" by blast
    let ?r = "foldl offer (r\<lparr>rn_engine := e\<rparr>) evs"
    have "queue_ok ?r (fired @ evs)" by (rule offer_all_ok) (simp add: Cons.prems)
    with Cons.IH [of ?r "fired @ evs"] Cons.prems e TickerC show ?thesis by auto
  next
    case (SnapshotReq now)
    with Cons Engine_Snapshot_total [OF Cons.prems(2), of F now "rn_ctx r"] show ?thesis by auto
  next
    case Receive
    from receive_ok [OF Cons.prems(3), of F run] obtain r1 where r1: "runner_step F run r Receive = Some r1"
      "queue_ok r1 fired" "rn_engine r1 = rn_engine r" "rn_ctx r1 = rn_ctx r" "rn_done r1 = rn_done r" by blast
    with Cons.IH [of r1 fired] Cons.prems Receive show ?thesis by (simp del: runner_step.simps)
  qed (use Cons.prems stopped_run [of "r\<lparr>rn_done := True\<rparr>" fired F run xs] in auto)
qed simp

text \<open>
  C32: The runner never panics, answers every status request, and loses no event silently: for
  every interleaving of samples, ticks, status requests, receptions and the end of the loop its
  engine is in the state of running the samples and ticks alone, the queue never exceeds its
  capacity, the events received and waiting are the events fired, in order and without those
  that found the queue full, and exactly these are counted as dropped.
\<close>

theorem runner_accounts:
  assumes "float_laws F" and "list_all (\<lambda>r. rule_inv r \<and> distinct (mf_protoFilter (ru_match r))) rules"
    and "list_all runner_wf xs"
  shows "\<exists>r fired. runner_run F run (NewRunnerWithContext (NewEngine rules) cap ctx) xs = Some r \<and>
    engine_run F run (NewEngine rules) (engine_inputs ctx xs) = Some (rn_engine r, fired) \<and>
    length (rn_events r) \<le> cap \<and> subseq (rn_received r @ rn_events r) fired \<and>
    DroppedEvents r = wrap64 (int (length fired) - int (length (rn_received r) + length (rn_events r)))"
proof -
  let ?r = "NewRunnerWithContext (NewEngine rules) cap ctx"
  have "engine_ok (rn_engine ?r)" "\<not> rn_done ?r" "queue_ok ?r []" "rn_cap ?r = cap" "rn_ctx ?r = ctx"
    using NewEngine_ok [OF assms(2)] by (simp_all add: NewRunnerWithContext_def Let_def queue_ok_def wrap64_def)
  with runner_run_exact [OF assms(1), of ?r "[]" xs run] assms(3) show ?thesis
    by (fastforce simp: queue_ok_def DroppedEvents_def NewRunnerWithContext_def Let_def dest: runner_run_cap)
qed

theorem runner_accounts_witness:
  "\<exists>q r fired. real_compile tcp_scan_ipv4 = Inr q \<and>
     runner_run real_ops (\<lambda>p env. Inr (Some True)) (NewRunnerWithContext (NewEngine [q]) 1 None)
       [SampleIn scan_sample, TickerC (1700000001 * second), SnapshotReq (1700000002 * second), CtxDone, Receive] = Some r \<and>
     length (rn_events r) \<le> 1 \<and> subseq (rn_received r @ rn_events r) fired"
proof -
  obtain q where q: "real_compile tcp_scan_ipv4 = Inr q"
    and rules: "list_all (\<lambda>r. rule_inv r \<and> distinct (mf_protoFilter (ru_match r))) [q]" by (rule tcp_scan_rule)
  have "list_all runner_wf [SampleIn scan_sample, TickerC (1700000001 * second), SnapshotReq (1700000002 * second), CtxDone, Receive]"
    by (simp add: sample_wf_def scan_sample_def Sample_zero_def)
  from runner_accounts [OF real_laws.float_laws_axioms rules this, of "\<lambda>p env. Inr (Some True)" 1 None] q
  show ?thesis by blast
qed

end
