(* ===== verification/DetPersist.thy ===== *)
theory DetPersist
  imports DetEngine Packet
begin

text \<open>
  The history of the detection engine across a restart (persist.go): \<^verbatim>\<open>Export\<close> turns the instances of
  every rule into plain data, \<^verbatim>\<open>Import\<close> puts them back into rules whose fingerprint and ring shapes
  are unchanged. The encoding of the data (gob) is a library. An address with a zone is refused as
  it is by the parser; the family of a descriptor is kept as a family instead of its number.
\<close>

section \<open>Addresses as bytes\<close>

fun MarshalBinary :: "addr \<Rightarrow> bytes" where
  "MarshalBinary Addr_zero = []"
| "MarshalBinary (Addr4 x) = be_bytes 4 x"
| "MarshalBinary (Addr6 x) = be_bytes 16 x"

definition UnmarshalBinary :: "bytes \<Rightarrow> addr option" where
  "UnmarshalBinary b =
     (if length b = 0 then Some Addr_zero
      else if length b = 4 then Some (Addr4 (be_word b))
      else if length b = 16 then Some (Addr6 (be_word b))
      else None)"

section \<open>States\<close>

record RingShapes =
  FineRes :: duration
  FineSlots :: int
  MediumRes :: duration
  MediumSlots :: int
  CoarseRes :: duration
  CoarseSlots :: int

record SlotState =
  ss_Epoch :: int
  ss_Packets :: u64
  ss_Bytes :: u64

record DescriptorState =
  ds_Family :: fs_family
  ds_Proto :: u8
  ds_ProtoWild :: bool
  ds_Src :: bytes
  ds_Dst :: bytes
  ds_SrcPortLo :: u16
  ds_SrcPortHi :: u16
  ds_DstPortLo :: u16
  ds_DstPortHi :: u16
  ds_IcmpType :: u8
  ds_IcmpCode :: u8
  ds_IcmpTypeWild :: bool
  ds_IcmpCodeWild :: bool

record InstanceState =
  st_Desc :: DescriptorState
  st_LastSeen :: gotime
  st_LastEvent :: gotime
  st_TrueSince :: gotime
  st_IngressIf :: string
  st_Fine :: "SlotState list"
  st_Medium :: "SlotState list"
  st_Coarse :: "SlotState list"

record RuleState =
  st_Name :: string
  st_Fingerprint :: string
  st_Shape :: RingShapes
  st_Instances :: "InstanceState list"

type_synonym EngineState = "RuleState list"

section \<open>Export\<close>

definition ringShapes :: "('f, 'p) Rule \<Rightarrow> RingShapes" where
  "ringShapes r =
     (let h = ru_history r
      in \<lparr>FineRes = h_fineResolution h, FineSlots = h_fineSlots h, MediumRes = h_mediumResolution h,
          MediumSlots = h_mediumSlots h, CoarseRes = h_coarseResolution h, CoarseSlots = h_coarseSlots h\<rparr>)"

definition exportSlots :: "sampleRing option \<Rightarrow> SlotState list" where
  "exportSlots r =
     (case r of
        None \<Rightarrow> []
      | Some x \<Rightarrow> map (\<lambda>s. \<lparr>ss_Epoch = sl_epoch s, ss_Packets = sl_packets s, ss_Bytes = sl_bytes s\<rparr>) (rg_slots x))"

definition descriptor_export :: "descriptor \<Rightarrow> DescriptorState" where
  "descriptor_export d =
     \<lparr>ds_Family = d_family d, ds_Proto = d_proto d, ds_ProtoWild = d_protoWild d,
      ds_Src = MarshalBinary (d_src d), ds_Dst = MarshalBinary (d_dst d),
      ds_SrcPortLo = d_srcPortLo d, ds_SrcPortHi = d_srcPortHi d, ds_DstPortLo = d_dstPortLo d, ds_DstPortHi = d_dstPortHi d,
      ds_IcmpType = d_icmpType d, ds_IcmpCode = d_icmpCode d,
      ds_IcmpTypeWild = d_icmpTypeWild d, ds_IcmpCodeWild = d_icmpCodeWild d\<rparr>"

definition instance_export :: "inst \<Rightarrow> InstanceState" where
  "instance_export i =
     \<lparr>st_Desc = descriptor_export (in_key i), st_LastSeen = in_lastSeen i, st_LastEvent = in_lastEvent i,
      st_TrueSince = in_trueSince i, st_IngressIf = in_lastIngressIf i, st_Fine = exportSlots (Some (in_fine i)),
      st_Medium = exportSlots (in_medium i), st_Coarse = exportSlots (in_coarse i)\<rparr>"

definition rule_export :: "('f, 'p) Rule \<Rightarrow> RuleState" where
  "rule_export r =
     \<lparr>st_Name = ru_name r, st_Fingerprint = ru_fingerprint r, st_Shape = ringShapes r,
      st_Instances = map (\<lambda>(k, i). instance_export i) (is_items (ru_store r))\<rparr>"

definition Export :: "('f, 'p) Engine \<Rightarrow> EngineState" where
  "Export e = map (\<lambda>i. rule_export (en_rules e ! i)) (en_all e)"

section \<open>Import\<close>

definition toDescriptor :: "DescriptorState \<Rightarrow> descriptor option" where
  "toDescriptor d = do {
     src \<leftarrow> (if length (ds_Src d) > 0 then UnmarshalBinary (ds_Src d) else Some Addr_zero);
     dst \<leftarrow> (if length (ds_Dst d) > 0 then UnmarshalBinary (ds_Dst d) else Some Addr_zero);
     Some \<lparr>d_family = ds_Family d, d_proto = ds_Proto d, d_protoWild = ds_ProtoWild d, d_src = src, d_dst = dst,
       d_srcPortLo = ds_SrcPortLo d, d_srcPortHi = ds_SrcPortHi d, d_dstPortLo = ds_DstPortLo d, d_dstPortHi = ds_DstPortHi d,
       d_icmpType = ds_IcmpType d, d_icmpCode = ds_IcmpCode d,
       d_icmpTypeWild = ds_IcmpTypeWild d, d_icmpCodeWild = ds_IcmpCodeWild d\<rparr>
   }"

definition copy_slots :: "sampleRing \<Rightarrow> SlotState list \<Rightarrow> sampleRing" where
  "copy_slots x slots =
     (if length slots \<noteq> length (rg_slots x) then x
      else x\<lparr>rg_slots := map (\<lambda>s. \<lparr>sl_epoch = ss_Epoch s, sl_packets = ss_Packets s, sl_bytes = ss_Bytes s\<rparr>) slots\<rparr>)"

definition importSlots :: "sampleRing option \<Rightarrow> SlotState list \<Rightarrow> sampleRing option" where
  "importSlots r slots = (case r of None \<Rightarrow> None | Some x \<Rightarrow> Some (copy_slots x slots))"

definition import_instance :: "historySpec \<Rightarrow> descriptor \<Rightarrow> InstanceState \<Rightarrow> inst" where
  "import_instance h d st =
     (let i = newInstance d h (st_LastSeen st)
      in i\<lparr>in_lastEvent := st_LastEvent st, in_trueSince := st_TrueSince st, in_lastIngressIf := st_IngressIf st,
           in_fine := copy_slots (in_fine i) (st_Fine st),
           in_medium := importSlots (in_medium i) (st_Medium st), in_coarse := importSlots (in_coarse i) (st_Coarse st)\<rparr>)"

fun import_loop :: "historySpec \<Rightarrow> InstanceState list \<Rightarrow> instanceStore \<Rightarrow> instanceStore" where
  "import_loop h [] s = s"
| "import_loop h (st # sts) s =
     (if store_len s \<ge> is_max s then s
      else case toDescriptor (st_Desc st) of
             None \<Rightarrow> import_loop h sts s
           | Some d \<Rightarrow> import_loop h sts (s\<lparr>is_items := gput d (import_instance h d st) (is_items s)\<rparr>))"

definition rules_by_name :: "('f, 'p) Engine \<Rightarrow> (string, nat) gomap" where
  "rules_by_name e = fold (\<lambda>i m. gput (ru_name (en_rules e ! i)) i m) (en_all e) []"

definition import_rule :: "(string, nat) gomap \<Rightarrow> ('f, 'p) Rule list \<Rightarrow> RuleState \<Rightarrow> ('f, 'p) Rule list" where
  "import_rule byName rules rs =
     (case map_of byName (st_Name rs) of
        None \<Rightarrow> rules
      | Some i \<Rightarrow>
          let r = rules ! i
          in if ru_fingerprint r \<noteq> st_Fingerprint rs \<or> ringShapes r \<noteq> st_Shape rs then rules
             else rules[i := r\<lparr>ru_store := import_loop (ru_history r) (st_Instances rs) (ru_store r)\<rparr>])"

definition Import :: "('f, 'p) Engine \<Rightarrow> EngineState \<Rightarrow> ('f, 'p) Engine" where
  "Import e st = e\<lparr>en_rules := foldl (import_rule (rules_by_name e)) (en_rules e) st\<rparr>"

section \<open>Round trip of the parts\<close>

lemma Unmarshal_Marshal [simp]: "UnmarshalBinary (MarshalBinary a) = Some a"
  by (cases a) (simp_all add: UnmarshalBinary_def)

lemma toDescriptor_export [simp]: "toDescriptor (descriptor_export d) = Some d"
proof -
  have "(if length (MarshalBinary a) > 0 then UnmarshalBinary (MarshalBinary a) else Some Addr_zero) = Some a" for a
    using Unmarshal_Marshal [of a] by (cases a) simp_all
  note eq = this [of "d_src d"] this [of "d_dst d"]
  show ?thesis unfolding toDescriptor_def descriptor_export_def DescriptorState.simps eq by simp
qed

lemma copy_export_slots:
  assumes "length (rg_slots x) = length (rg_slots y)" and "rg_resolution x = rg_resolution y"
  shows "copy_slots x (exportSlots (Some y)) = y"
proof -
  have "map (\<lambda>s. \<lparr>sl_epoch = sl_epoch s, sl_packets = sl_packets s, sl_bytes = sl_bytes s\<rparr>) xs = xs" for xs :: "slot list"
    by (rule map_idI) simp
  with assms show ?thesis by (simp add: copy_slots_def exportSlots_def o_def)
qed

lemma copy_slots_fits: "ring_fits x sh \<Longrightarrow> ring_fits (copy_slots x slots) sh"
  by (simp add: copy_slots_def ring_fits_def)

lemma importSlots_fits: "opt_fits x sh \<Longrightarrow> opt_fits (importSlots x slots) sh"
  by (auto simp: opt_fits_def importSlots_def copy_slots_fits split: option.splits)

text \<open>An instance comes back as it was, without its diversity estimators.\<close>

lemma import_export_instance:
  assumes h: "history_ok h" and i: "inst_fits h k i"
  shows "import_instance h k (instance_export i) = i\<lparr>in_spread := None\<rparr>"
proof -
  note new = newInstance_fits [OF h, of k "in_lastSeen i"]
  have fine: "copy_slots (in_fine (newInstance k h (in_lastSeen i))) (exportSlots (Some (in_fine i))) = in_fine i"
    using new i by (intro copy_export_slots) (auto simp: inst_fits_def ring_fits_def)
  have opt: "importSlots x (exportSlots y) = y" if "opt_fits x sh" "opt_fits y sh" for x y sh
    using that copy_export_slots by (auto simp: opt_fits_def importSlots_def ring_fits_def split: option.splits)
  have "importSlots (in_medium (newInstance k h (in_lastSeen i))) (exportSlots (in_medium i)) = in_medium i"
    "importSlots (in_coarse (newInstance k h (in_lastSeen i))) (exportSlots (in_coarse i)) = in_coarse i"
    using new i by (auto intro: opt simp: inst_fits_def)
  with fine i show ?thesis
    by (simp add: import_instance_def instance_export_def newInstance_def Let_def inst_fits_def)
qed

section \<open>Import keeps the invariant\<close>

lemma import_instance_fits:
  "history_ok h \<Longrightarrow> inst_fits h d (import_instance h d st) \<and> in_spread (import_instance h d st) = None"
  using newInstance_fits [of h d "st_LastSeen st"]
  by (auto simp: import_instance_def Let_def inst_fits_def copy_slots_fits importSlots_fits) (simp add: newInstance_def)

lemma import_loop_ok:
  "pool_ok h s \<Longrightarrow> list_all (\<lambda>(k, i). spread_fits gates i) (is_items s) \<Longrightarrow>
   pool_ok h (import_loop h sts s) \<and> list_all (\<lambda>(k, i). spread_fits gates i) (is_items (import_loop h sts s))"
proof (induction h sts s rule: import_loop.induct)
  case (2 h st sts s)
  have step: "pool_ok h (s\<lparr>is_items := gput d (import_instance h d st) (is_items s)\<rparr>) \<and>
      list_all (\<lambda>(k, i). spread_fits gates i) (gput d (import_instance h d st) (is_items s))"
    if "store_len s < is_max s" for d
  proof -
    have fits: "inst_fits h d (import_instance h d st)" "spread_fits gates (import_instance h d st)"
      using import_instance_fits [of h d st] 2(3) by (auto simp: pool_ok_def spread_fits_def)
    show ?thesis
      using pool_put [OF 2(3) _ fits(1)] that fits(2) 2(4) set_gput_subset [of d "import_instance h d st" "is_items s"]
      by (auto simp: list_all_iff)
  qed
  with 2 show ?case by (auto simp: not_le split: option.splits)
qed simp

lemma nth_update_within: "n < length xs \<Longrightarrow> xs[i := v] ! n = (if i = n then v else xs ! n)"
  by simp

lemma import_rule_keeps:
  assumes "list_all (\<lambda>r. rule_inv r \<and> distinct (mf_protoFilter (ru_match r))) rules"
  shows "list_all (\<lambda>r. rule_inv r \<and> distinct (mf_protoFilter (ru_match r))) (import_rule m rules rs)"
    and "map ru_match (import_rule m rules rs) = map ru_match rules"
proof -
  have inv: "rule_inv (r\<lparr>ru_store := import_loop (ru_history r) sts (ru_store r)\<rparr>)" if "rule_inv r" for r :: "('a, 'b) Rule" and sts
    using import_loop_ok [of "ru_history r" "ru_store r" "ru_spreadFields r" sts] that by (simp add: rule_inv_def rule_ok_def)
  show "list_all (\<lambda>r. rule_inv r \<and> distinct (mf_protoFilter (ru_match r))) (import_rule m rules rs)"
    using assms inv by (auto simp: import_rule_def Let_def list_all_length nth_update_within split: option.splits)
  show "map ru_match (import_rule m rules rs) = map ru_match rules"
    by (auto simp: import_rule_def Let_def nth_update_within intro!: nth_equalityI split: option.splits)
qed

lemma Import_ok:
  assumes "engine_ok e"
  shows "engine_ok (Import e st)"
proof -
  have "list_all (\<lambda>r. rule_inv r \<and> distinct (mf_protoFilter (ru_match r))) (foldl (import_rule m) rules st) \<and>
      map ru_match (foldl (import_rule m) rules st) = map ru_match rules"
    if "list_all (\<lambda>r. rule_inv r \<and> distinct (mf_protoFilter (ru_match r))) rules" for m and rules :: "('a, 'b) Rule list"
    using that by (induction st arbitrary: rules) (simp_all add: import_rule_keeps)
  from this [of "en_rules e" "rules_by_name e"] assms show ?thesis
    by (simp add: engine_ok_def Import_def engine_index_cong)
qed

section \<open>Restart\<close>

text \<open>A freshly compiled rule of the same configuration: same name, fingerprint and history, no instances.\<close>

definition fresh_of :: "('f, 'p) Rule \<Rightarrow> ('f, 'p) Rule \<Rightarrow> bool" where
  "fresh_of r r0 \<longleftrightarrow> ru_name r0 = ru_name r \<and> ru_fingerprint r0 = ru_fingerprint r \<and> ru_history r0 = ru_history r \<and>
     ru_store r0 = newInstanceStore (ru_history r)"

definition restored :: "('f, 'p) Rule \<Rightarrow> ('f, 'p) Rule \<Rightarrow> ('f, 'p) Rule" where
  "restored r r0 = r0\<lparr>ru_store := (ru_store r)\<lparr>is_items := map (\<lambda>(k, i). (k, i\<lparr>in_spread := None\<rparr>)) (is_items (ru_store r))\<rparr>\<rparr>"

lemma import_loop_items:
  assumes "history_ok h"
  shows "list_all (\<lambda>(k, i). inst_fits h k i) xs \<Longrightarrow> gwf (is_items s @ xs) \<Longrightarrow>
    int (length (is_items s) + length xs) \<le> max 0 (is_max s) \<Longrightarrow>
    import_loop h (map (\<lambda>(k, i). instance_export i) xs) s =
      s\<lparr>is_items := is_items s @ map (\<lambda>(k, i). (k, i\<lparr>in_spread := None\<rparr>)) xs\<rparr>"
proof (induction xs arbitrary: s)
  case (Cons x xs)
  obtain k i where x: "x = (k, i)" by fastforce
  with Cons.prems(1) have i: "inst_fits h k i" "in_key i = k" by (auto simp: inst_fits_def)
  have "k \<notin> fst ` set (is_items s)" using Cons.prems(2) x by auto
  note put = gput_new [OF this]
  have "\<not> store_len s \<ge> is_max s" using Cons.prems(3) by (simp add: store_len_def)
  moreover have "toDescriptor (st_Desc (instance_export i)) = Some k" using i by (simp add: instance_export_def)
  moreover note Cons.IH [of "s\<lparr>is_items := is_items s @ [(k, i\<lparr>in_spread := None\<rparr>)]\<rparr>"]
  ultimately show ?case using Cons.prems x put import_export_instance [OF assms i(1)] by simp
qed simp

lemma import_rule_restores:
  assumes "rule_inv r" and f: "fresh_of r (rules ! j)" and "map_of m (ru_name r) = Some j"
  shows "import_rule m rules (rule_export r) = rules[j := restored r (rules ! j)]"
proof -
  let ?h = "ru_history r"
  have pool: "pool_ok ?h (ru_store r)" using assms(1) by (simp add: rule_inv_def)
  then have h: "history_ok ?h" "is_max (ru_store r) = h_maxInstances ?h" "is_history (ru_store r) = ?h" by (auto simp: pool_ok_def)
  have "import_loop ?h (map (\<lambda>(k, i). instance_export i) (is_items (ru_store r))) (newInstanceStore ?h) =
      (newInstanceStore ?h)\<lparr>is_items := map (\<lambda>(k, i). (k, i\<lparr>in_spread := None\<rparr>)) (is_items (ru_store r))\<rparr>"
    using import_loop_items [OF h(1), of "is_items (ru_store r)" "newInstanceStore ?h"] pool
    by (auto simp: pool_ok_def newInstanceStore_def store_len_def)
  moreover have "(newInstanceStore ?h)\<lparr>is_items := xs\<rparr> = (ru_store r)\<lparr>is_items := xs\<rparr>" for xs
    using h by (simp add: newInstanceStore_def)
  ultimately show ?thesis
    using f assms(3) by (simp add: import_rule_def rule_export_def fresh_of_def restored_def ringShapes_def Let_def)
qed

lemma rules_by_name_of:
  assumes "en_all e = [0..<length (en_rules e)]" and "distinct (map ru_name (en_rules e))" and "j < length (en_rules e)"
  shows "map_of (rules_by_name e) (ru_name (en_rules e ! j)) = Some j"
proof -
  let ?f = "\<lambda>i m. gput (ru_name (en_rules e ! i)) i m"
  have "n \<le> length (en_rules e) \<Longrightarrow> j < n \<Longrightarrow> map_of (fold ?f [0..<n] []) (ru_name (en_rules e ! j)) = Some j" for n j
  proof (induction n)
    case (Suc n)
    then show ?case using assms(2) by (cases "j = n") (auto simp: distinct_conv_nth)
  qed simp
  with assms(1,3) show ?thesis by (simp add: rules_by_name_def)
qed

lemma Import_Export:
  assumes e: "engine_index e" "list_all rule_inv (en_rules e)" "distinct (map ru_name (en_rules e))"
    and e0: "engine_index e0" and fresh: "list_all2 fresh_of (en_rules e) (en_rules e0)"
  shows "en_rules (Import e0 (Export e)) = map2 restored (en_rules e) (en_rules e0)"
proof -
  let ?R = "en_rules e" and ?Q = "en_rules e0"
  have len: "length ?Q = length ?R" using fresh by (auto dest: list_all2_lengthD)
  have all: "en_all e = [0..<length ?R]" "en_all e0 = [0..<length ?Q]" by (rule engine_index_all [OF e(1)], rule engine_index_all [OF e0])
  have f: "fresh_of (?R ! j) (?Q ! j)" if "j < length ?R" for j using fresh that by (simp add: list_all2_conv_all_nth)
  then have names: "map ru_name ?Q = map ru_name ?R" using len by (intro nth_equalityI) (auto simp: fresh_of_def)
  have nm: "map_of (rules_by_name e0) (ru_name (?R ! j)) = Some j" if "j < length ?R" for j
    using rules_by_name_of [OF all(2), of j] names e(3) len that by (metis nth_map)
  let ?new = "map2 restored ?R ?Q"
  have "n \<le> length ?R \<Longrightarrow> foldl (import_rule (rules_by_name e0)) ?Q (map (\<lambda>i. rule_export (?R ! i)) [0..<n]) =
      take n ?new @ drop n ?Q" for n
  proof (induction n)
    case (Suc n)
    then have n: "n < length ?R" by simp
    let ?mid = "take n ?new @ drop n ?Q"
    have mid: "?mid ! n = ?Q ! n" using n len by (simp add: nth_append)
    have "import_rule (rules_by_name e0) ?mid (rule_export (?R ! n)) = ?mid[n := restored (?R ! n) (?Q ! n)]"
      using import_rule_restores [of "?R ! n" ?mid n] mid f [OF n] nm [OF n] e(2) n by (simp add: list_all_length)
    also have "\<dots> = take (Suc n) ?new @ drop (Suc n) ?Q"
      using n len by (simp add: take_Suc_conv_app_nth list_update_append Cons_nth_drop_Suc [symmetric])
    finally show ?case using Suc by simp
  qed simp
  from this [of "length ?R"] len show ?thesis by (simp add: Import_def Export_def all)
qed


lemma rule_step_static:
  "rule_step F run r x = Some y \<Longrightarrow>
   ru_name (fst y) = ru_name r \<and> ru_fingerprint (fst y) = ru_fingerprint r \<and> ru_history (fst y) = ru_history r"
  by (cases x)
    (auto simp: Observe_def Tick_def ageSketch_def Let_def Option.bind_eq_Some_conv split: if_splits option.splits)

lemma rule_run_static:
  "rule_run F run r xs = Some y \<Longrightarrow>
   ru_name (fst y) = ru_name r \<and> ru_fingerprint (fst y) = ru_fingerprint r \<and> ru_history (fst y) = ru_history r"
  by (induction xs arbitrary: r y) (auto simp: Option.bind_eq_Some_conv dest: rule_step_static)

text \<open>
  C33: A restart loses no history: after any run of the engine, importing the exported state into
  freshly compiled rules of the same configuration gives every rule its instances back, in order,
  with the same rings, times and interface; only the diversity estimators and the sketch, which
  are not persisted, start anew. The rules have distinct names.
\<close>

theorem restart_restores:
  assumes "float_laws F" and rules: "list_all (\<lambda>r. rule_inv r \<and> distinct (mf_protoFilter (ru_match r))) rules"
    and new: "list_all (\<lambda>r. ru_store r = newInstanceStore (ru_history r)) rules" and names: "distinct (map ru_name rules)"
    and "list_all input_wf xs" and run: "engine_run F run (NewEngine rules) xs = Some (e, evs)"
  shows "en_rules (Import (NewEngine rules) (Export e)) = map2 restored (en_rules e) rules"
proof -
  from engine_run_exact [OF assms(1) NewEngine_ok [OF rules] assms(5), of run] run obtain res where
    ok: "engine_ok e" and res: "en_rules e = map fst res" "list_all2 (\<lambda>r y. rule_run F run r xs = Some y) rules res"
    by (auto simp: NewEngine_rules)
  then have "length rules = length res" by (auto dest: list_all2_lengthD)
  moreover have st: "fresh_of (fst (res ! i)) (rules ! i)" if "i < length rules" for i
    using res(2) that new rule_run_static [of F run "rules ! i" xs "res ! i"]
    by (simp add: list_all2_conv_all_nth fresh_of_def list_all_length)
  ultimately have fresh: "list_all2 fresh_of (en_rules e) (en_rules (NewEngine rules))"
    by (simp add: res(1) NewEngine_rules list_all2_conv_all_nth)
  then have "map ru_name (en_rules e) = map ru_name rules"
    by (intro nth_equalityI) (auto simp: NewEngine_rules list_all2_conv_all_nth fresh_of_def)
  with ok names fresh show ?thesis
    using Import_Export [of e "NewEngine rules"] by (auto simp: engine_ok_def NewEngine_index NewEngine_rules list_all_iff)
qed

lemma tcp_scan_new: "real_compile tcp_scan_ipv4 = Inr r \<Longrightarrow> ru_store r = newInstanceStore (ru_history r)"
  by (auto simp: real_compile_def elim!: compileRule_Inr)

theorem restart_restores_witness:
  "\<exists>r e evs. real_compile tcp_scan_ipv4 = Inr r \<and>
     engine_run real_ops (\<lambda>p env. Inr (Some True)) (NewEngine [r]) [InSample scan_sample] = Some (e, evs) \<and>
     en_rules (Import (NewEngine [r]) (Export e)) = map2 restored (en_rules e) [r]"
proof -
  obtain r where r: "real_compile tcp_scan_ipv4 = Inr r"
    and rules: "list_all (\<lambda>r. rule_inv r \<and> distinct (mf_protoFilter (ru_match r))) [r]" by (rule tcp_scan_rule)
  have wf: "list_all input_wf [InSample scan_sample :: real rule_input]" by (simp add: sample_wf_def scan_sample_def Sample_zero_def)
  from engine_run_exact [OF real_laws.float_laws_axioms NewEngine_ok [OF rules] wf, of "\<lambda>p env. Inr (Some True)"]
  obtain e evs where run: "engine_run real_ops (\<lambda>p env. Inr (Some True)) (NewEngine [r]) [InSample scan_sample] = Some (e, evs)"
    by blast
  from restart_restores [OF real_laws.float_laws_axioms rules _ _ wf run] tcp_scan_new [OF r] run r show ?thesis
    by (auto simp del: engine_run.simps zip_Cons1)
qed


definition foreign_state :: EngineState where
  "foreign_state = [\<lparr>st_Name = ''tcp-scan-ipv4'', st_Fingerprint = ''fp'',
     st_Shape = \<lparr>FineRes = second, FineSlots = 600, MediumRes = 0, MediumSlots = 0, CoarseRes = 0, CoarseSlots = 0\<rparr>,
     st_Instances = [\<lparr>st_Desc = (descriptor_export descriptor_zero)\<lparr>ds_Src := [1, 2, 3]\<rparr>, st_LastSeen = 0, st_LastEvent = 0,
       st_TrueSince = 0, st_IngressIf = '''', st_Fine = [], st_Medium = [], st_Coarse = []\<rparr>]\<rparr>]"


end
