(* ===== verification/VppStats.thy ===== *)
theory VppStats
  imports HistoryRings DetRule
begin

text \<open>
  The interface statistics of VPP (package \<^verbatim>\<open>internal/vppstats\<close>): the store of rates in time-indexed
  rings (store.go) and the poller that turns counters into rates (poller.go). The code reaches the
  rings of an interface by its name and by aliases through pointers; here the ring sets are
  kept in a list and a reference is a position. \<open>None\<close> is a run-time panic, an absent result of a
  lookup is the inner option.
\<close>

section \<open>Rates\<close>

definition addRates :: "'f float_ops \<Rightarrow> 'f Rates \<Rightarrow> 'f Rates \<Rightarrow> 'f Rates" where
  "addRates F a b =
     \<lparr>RXPPS = f_add F (RXPPS a) (RXPPS b), TXPPS = f_add F (TXPPS a) (TXPPS b), RXBPS = f_add F (RXBPS a) (RXBPS b),
      TXBPS = f_add F (TXBPS a) (TXBPS b), SWDropPPS = f_add F (SWDropPPS a) (SWDropPPS b),
      HWDropPPS = f_add F (HWDropPPS a) (HWDropPPS b)\<rparr>"

definition maxRates :: "'f float_ops \<Rightarrow> 'f Rates \<Rightarrow> 'f Rates \<Rightarrow> 'f Rates" where
  "maxRates F a b =
     \<lparr>RXPPS = f_max F (RXPPS a) (RXPPS b), TXPPS = f_max F (TXPPS a) (TXPPS b), RXBPS = f_max F (RXBPS a) (RXBPS b),
      TXBPS = f_max F (TXBPS a) (TXBPS b), SWDropPPS = f_max F (SWDropPPS a) (SWDropPPS b),
      HWDropPPS = f_max F (HWDropPPS a) (HWDropPPS b)\<rparr>"

definition scaleRates :: "'f float_ops \<Rightarrow> 'f Rates \<Rightarrow> 'f \<Rightarrow> 'f Rates" where
  "scaleRates F a f =
     \<lparr>RXPPS = f_mul F (RXPPS a) f, TXPPS = f_mul F (TXPPS a) f, RXBPS = f_mul F (RXBPS a) f,
      TXBPS = f_mul F (TXBPS a) f, SWDropPPS = f_mul F (SWDropPPS a) f, HWDropPPS = f_mul F (HWDropPPS a) f\<rparr>"

definition mean1 :: "'f float_ops \<Rightarrow> 'f \<Rightarrow> 'f \<Rightarrow> 'f \<Rightarrow> 'f" where
  "mean1 F cur x n = f_add F cur (f_div F (f_sub F x cur) n)"

definition meanRates :: "'f float_ops \<Rightarrow> 'f Rates \<Rightarrow> 'f Rates \<Rightarrow> 'f \<Rightarrow> 'f Rates" where
  "meanRates F cur x n =
     \<lparr>RXPPS = mean1 F (RXPPS cur) (RXPPS x) n, TXPPS = mean1 F (TXPPS cur) (TXPPS x) n,
      RXBPS = mean1 F (RXBPS cur) (RXBPS x) n, TXBPS = mean1 F (TXBPS cur) (TXBPS x) n,
      SWDropPPS = mean1 F (SWDropPPS cur) (SWDropPPS x) n, HWDropPPS = mean1 F (HWDropPPS cur) (HWDropPPS x) n\<rparr>"

definition Rates_zero :: "'f float_ops \<Rightarrow> 'f Rates" where
  "Rates_zero F =
     \<lparr>RXPPS = f_zero F, TXPPS = f_zero F, RXBPS = f_zero F, TXBPS = f_zero F, SWDropPPS = f_zero F, HWDropPPS = f_zero F\<rparr>"

section \<open>Ring sizes\<close>

record StatRingConfig =
  FineResolution :: duration
  FineDuration :: duration
  MediumResolution :: duration
  MediumDuration :: duration
  CoarseResolution :: duration
  CoarseDuration :: duration

definition DefaultRingConfig :: StatRingConfig where
  "DefaultRingConfig =
     \<lparr>FineResolution = second, FineDuration = 5 * minute, MediumResolution = minute, MediumDuration = 24 * hour,
      CoarseResolution = hour, CoarseDuration = 30 * 24 * hour\<rparr>"

definition withDefaults :: "StatRingConfig \<Rightarrow> StatRingConfig" where
  "withDefaults c =
     (let d = DefaultRingConfig; pick = (\<lambda>f. if f c \<le> (0 :: int) then f d else f c)
      in \<lparr>FineResolution = pick FineResolution, FineDuration = pick FineDuration,
          MediumResolution = pick MediumResolution, MediumDuration = pick MediumDuration,
          CoarseResolution = pick CoarseResolution, CoarseDuration = pick CoarseDuration\<rparr>)"

definition ringCovers :: "duration \<Rightarrow> int \<Rightarrow> duration \<Rightarrow> duration \<Rightarrow> bool" where
  "ringCovers res slots window offset =
     (if res \<le> 0 \<or> slots < 1 \<or> res > window then False
      else if rem window res \<noteq> 0 \<or> rem offset res \<noteq> 0 then False
      else wrap64 (slots * res) \<ge> wrap64 (window + offset))"

definition Covers :: "StatRingConfig \<Rightarrow> duration \<Rightarrow> duration \<Rightarrow> bool" where
  "Covers c0 window offset =
     (let c = withDefaults c0
      in list_ex (\<lambda>(res, dur). ringCovers res (quot dur res) window offset)
           [(FineResolution c, FineDuration c), (MediumResolution c, MediumDuration c), (CoarseResolution c, CoarseDuration c)])"

section \<open>Rings\<close>

record 'f StatSample =
  vp_At :: gotime
  vp_Name :: string
  vp_Aliases :: "string list"
  vp_RXPPS :: 'f
  vp_TXPPS :: 'f
  vp_RXBPS :: 'f
  vp_TXBPS :: 'f
  vp_SWDropPPS :: 'f
  vp_HWDropPPS :: 'f

definition StatSample_zero :: "'f float_ops \<Rightarrow> 'f StatSample" where
  "StatSample_zero F =
     \<lparr>vp_At = Time_zero, vp_Name = '''', vp_Aliases = [], vp_RXPPS = f_zero F, vp_TXPPS = f_zero F, vp_RXBPS = f_zero F,
      vp_TXBPS = f_zero F, vp_SWDropPPS = f_zero F, vp_HWDropPPS = f_zero F\<rparr>"

definition rates :: "'f StatSample \<Rightarrow> 'f Rates" where
  "rates s = \<lparr>RXPPS = vp_RXPPS s, TXPPS = vp_TXPPS s, RXBPS = vp_RXBPS s, TXBPS = vp_TXBPS s,
     SWDropPPS = vp_SWDropPPS s, HWDropPPS = vp_HWDropPPS s\<rparr>"

record 'f stat_slot =
  vs_epoch :: int
  vs_count :: u64
  vs_rates :: "'f Rates"

record 'f stat_ring =
  vr_resolution :: duration
  vr_slots :: "'f stat_slot list"

definition stat_slot_zero :: "'f float_ops \<Rightarrow> 'f stat_slot" where
  "stat_slot_zero F = \<lparr>vs_epoch = 0, vs_count = 0, vs_rates = Rates_zero F\<rparr>"

definition newRing :: "'f float_ops \<Rightarrow> duration \<Rightarrow> duration \<Rightarrow> 'f stat_ring option" where
  "newRing F resolution dur =
     (if resolution = 0 then None
      else let n = quot dur resolution; n' = (if n < 1 then 1 else n)
           in Some \<lparr>vr_resolution = resolution, vr_slots = replicate (nat n') (stat_slot_zero F)\<rparr>)"

definition stat_epoch :: "'f stat_ring \<Rightarrow> gotime \<Rightarrow> int option" where
  "stat_epoch r t = (if vr_resolution r = 0 then None else Some (quot (UnixNano t) (vr_resolution r)))"

definition stat_slotIndex :: "int \<Rightarrow> nat \<Rightarrow> nat option" where
  "stat_slotIndex epoch n =
     (if n = 0 then None else let i = rem epoch (int n) in Some (nat (if i < 0 then i + int n else i)))"

definition ring_put :: "'f float_ops \<Rightarrow> 'f stat_ring \<Rightarrow> 'f StatSample \<Rightarrow> 'f stat_ring option" where
  "ring_put F r s = do {
     epoch \<leftarrow> stat_epoch r (vp_At s);
     i \<leftarrow> stat_slotIndex epoch (length (vr_slots r));
     let sl = (if vs_epoch (vr_slots r ! i) \<noteq> epoch then (stat_slot_zero F)\<lparr>vs_epoch := epoch\<rparr> else vr_slots r ! i);
     let n = vs_count sl + 1;
     Some (r\<lparr>vr_slots := (vr_slots r)[i := sl\<lparr>vs_count := n, vs_rates := meanRates F (vs_rates sl) (rates s) (f_of_u64 F n)\<rparr>]\<rparr>)
   }"

definition agg_rates_step :: "'f float_ops \<Rightarrow> 'f stat_slot list \<Rightarrow> (int \<times> 'f Rates \<times> 'f Rates) option \<Rightarrow> int \<Rightarrow>
    (int \<times> 'f Rates \<times> 'f Rates) option" where
  "agg_rates_step F slots acc e = do {
     (n, sm, mx) \<leftarrow> acc;
     i \<leftarrow> stat_slotIndex e (length slots);
     let sl = slots ! i;
     if vs_epoch sl \<noteq> e then Some (n, sm, mx)
     else Some (n + 1, addRates F sm (vs_rates sl), maxRates F mx (vs_rates sl))
   }"

definition ring_aggregate :: "'f float_ops \<Rightarrow> 'f stat_ring \<Rightarrow> gotime \<Rightarrow> duration \<Rightarrow> duration \<Rightarrow> bool \<Rightarrow> 'f Rates option" where
  "ring_aggregate F r now window offset peak = do {
     endEpoch \<leftarrow> stat_epoch r (now - offset);
     let count = quot window (vr_resolution r);
     let startEpoch = endEpoch - (if count < 1 then 1 else count) + 1;
     (n, sm, mx) \<leftarrow> foldl (agg_rates_step F (vr_slots r)) (Some (0, Rates_zero F, Rates_zero F)) [startEpoch..endEpoch];
     Some (if peak then mx
           else if n = 0 then Rates_zero F
           else scaleRates F sm (f_div F (f_of_int F 1) (f_of_int F n)))
   }"

record 'f interfaceRings =
  ir_fine :: "'f stat_ring"
  ir_medium :: "'f stat_ring"
  ir_coarse :: "'f stat_ring"
  ir_last :: "'f StatSample"

definition newInterfaceRings :: "'f float_ops \<Rightarrow> StatRingConfig \<Rightarrow> 'f interfaceRings option" where
  "newInterfaceRings F c = do {
     fine \<leftarrow> newRing F (FineResolution c) (FineDuration c);
     medium \<leftarrow> newRing F (MediumResolution c) (MediumDuration c);
     coarse \<leftarrow> newRing F (CoarseResolution c) (CoarseDuration c);
     Some \<lparr>ir_fine = fine, ir_medium = medium, ir_coarse = coarse, ir_last = StatSample_zero F\<rparr>
   }"

definition rings_add :: "'f float_ops \<Rightarrow> 'f interfaceRings \<Rightarrow> 'f StatSample \<Rightarrow> 'f interfaceRings option" where
  "rings_add F r s = do {
     fine \<leftarrow> ring_put F (ir_fine r) s;
     medium \<leftarrow> ring_put F (ir_medium r) s;
     coarse \<leftarrow> ring_put F (ir_coarse r) s;
     Some \<lparr>ir_fine = fine, ir_medium = medium, ir_coarse = coarse, ir_last = s\<rparr>
   }"

definition choose_step :: "duration \<Rightarrow> duration \<Rightarrow> 'f stat_ring option \<Rightarrow> 'f stat_ring \<Rightarrow> 'f stat_ring option" where
  "choose_step window offset best rg =
     (if \<not> ringCovers (vr_resolution rg) (int (length (vr_slots rg))) window offset then best
      else case best of
             None \<Rightarrow> Some rg
           | Some b \<Rightarrow> if vr_resolution rg > vr_resolution b then Some rg else best)"

definition rings_choose :: "'f interfaceRings \<Rightarrow> duration \<Rightarrow> duration \<Rightarrow> 'f stat_ring option" where
  "rings_choose r window offset = foldl (choose_step window offset) None [ir_fine r, ir_medium r, ir_coarse r]"

section \<open>The store\<close>

record 'f StatStore =
  so_objs :: "'f interfaceRings list"
  so_rings :: "(string, nat) gomap"
  so_byAlias :: "(string, nat) gomap"
  so_total :: "'f Rates"
  so_config :: StatRingConfig

definition NewStore :: "'f float_ops \<Rightarrow> StatRingConfig \<Rightarrow> 'f StatStore" where
  "NewStore F config =
     \<lparr>so_objs = [], so_rings = [], so_byAlias = [], so_total = Rates_zero F, so_config = withDefaults config\<rparr>"

definition recomputeTotal :: "'f float_ops \<Rightarrow> 'f StatStore \<Rightarrow> 'f StatStore" where
  "recomputeTotal F s =
     s\<lparr>so_total := foldl (\<lambda>t (name, p). addRates F t (rates (ir_last (so_objs s ! p)))) (Rates_zero F) (so_rings s)\<rparr>"

definition add_aliases :: "nat \<Rightarrow> string \<Rightarrow> string list \<Rightarrow> (string, nat) gomap \<Rightarrow> (string, nat) gomap" where
  "add_aliases p name als m = fold (\<lambda>a m. if a \<noteq> '''' \<and> a \<noteq> name then gput a p m else m) als m"

definition store_ring :: "'f float_ops \<Rightarrow> 'f StatStore \<Rightarrow> string \<Rightarrow> (nat \<times> 'f StatStore) option" where
  "store_ring F s name =
     (case map_of (so_rings s) name of
        Some p \<Rightarrow> Some (p, s)
      | None \<Rightarrow> do {
          r \<leftarrow> newInterfaceRings F (so_config s);
          let p = length (so_objs s);
          Some (p, s\<lparr>so_objs := so_objs s @ [r], so_rings := gput name p (so_rings s)\<rparr>)
        })"

definition store_Add :: "'f float_ops \<Rightarrow> 'f StatStore \<Rightarrow> 'f StatSample \<Rightarrow> 'f StatStore option" where
  "store_Add F s x = do {
     (p, s1) \<leftarrow> store_ring F s (vp_Name x);
     r \<leftarrow> elem_at (so_objs s1) p;
     r' \<leftarrow> rings_add F r x;
     Some (recomputeTotal F (s1\<lparr>so_objs := (so_objs s1)[p := r'],
       so_byAlias := add_aliases p (vp_Name x) (vp_Aliases x) (so_byAlias s1)\<rparr>))
   }"

definition Interfaces :: "'f StatStore \<Rightarrow> int" where
  "Interfaces s = int (length (so_rings s))"

definition findRing :: "'f StatStore \<Rightarrow> string \<Rightarrow> nat option" where
  "findRing s name = (case map_of (so_rings s) name of Some p \<Rightarrow> Some p | None \<Rightarrow> map_of (so_byAlias s) name)"

definition InterfaceRates :: "'f StatStore \<Rightarrow> string \<Rightarrow> 'f Rates option" where
  "InterfaceRates s name = map_option (\<lambda>p. rates (ir_last (so_objs s ! p))) (findRing s name)"

definition TotalRates :: "'f StatStore \<Rightarrow> 'f Rates" where
  "TotalRates s = so_total s"

definition InterfaceWindow :: "'f float_ops \<Rightarrow> 'f StatStore \<Rightarrow> string \<Rightarrow> gotime \<Rightarrow> duration \<Rightarrow> duration \<Rightarrow> bool \<Rightarrow>
    'f Rates option option" where
  "InterfaceWindow F s name now window offset peak =
     (case findRing s name of
        None \<Rightarrow> Some None
      | Some p \<Rightarrow>
          (case rings_choose (so_objs s ! p) window offset of
             None \<Rightarrow> Some None
           | Some ring \<Rightarrow> map_option Some (ring_aggregate F ring now window offset peak)))"

fun total_loop :: "'f float_ops \<Rightarrow> 'f StatStore \<Rightarrow> gotime \<Rightarrow> duration \<Rightarrow> duration \<Rightarrow> bool \<Rightarrow> (string \<times> nat) list \<Rightarrow>
    'f Rates \<Rightarrow> bool \<Rightarrow> ('f Rates \<times> bool) option" where
  "total_loop F s now window offset peak [] t any = Some (t, any)"
| "total_loop F s now window offset peak ((name, p) # rest) t any =
     (case rings_choose (so_objs s ! p) window offset of
        None \<Rightarrow> total_loop F s now window offset peak rest t any
      | Some ring \<Rightarrow> do {
          v \<leftarrow> ring_aggregate F ring now window offset peak;
          total_loop F s now window offset peak rest (addRates F t v) True
        })"

definition TotalWindow :: "'f float_ops \<Rightarrow> 'f StatStore \<Rightarrow> gotime \<Rightarrow> duration \<Rightarrow> duration \<Rightarrow> bool \<Rightarrow> ('f Rates \<times> bool) option" where
  "TotalWindow F s now window offset peak = total_loop F s now window offset peak (so_rings s) (Rates_zero F) False"

record 'f StatInterfaceSnapshot =
  si_Name :: string
  si_At :: gotime
  si_Rates :: "'f Rates"

definition store_Snapshot :: "'f StatStore \<Rightarrow> 'f StatInterfaceSnapshot list" where
  "store_Snapshot s =
     map (\<lambda>(name, p). \<lparr>si_Name = name, si_At = vp_At (ir_last (so_objs s ! p)), si_Rates = rates (ir_last (so_objs s ! p))\<rparr>)
       (so_rings s)"

end
