(* ===== verification/StatsWindow.thy ===== *)
theory StatsWindow
  imports VppStats
begin

text \<open>
  What the statistics store answers: the rates of a window are computed from exactly the samples of
  the window, slot by slot, and every window that passes the startup check is answered.
\<close>

section \<open>A ring shows the samples of its span\<close>

text \<open>The number and the running mean of a sequence of samples, in the order the ring folds them.\<close>

fun running :: "'f float_ops \<Rightarrow> u64 \<times> 'f Rates \<Rightarrow> 'f StatSample list \<Rightarrow> u64 \<times> 'f Rates" where
  "running F acc [] = acc"
| "running F acc (x # xs) =
     running F (fst acc + 1, meanRates F (snd acc) (rates x) (f_of_u64 F (fst acc + 1))) xs"

abbreviation run0 :: "'f float_ops \<Rightarrow> 'f StatSample list \<Rightarrow> u64 \<times> 'f Rates" where
  "run0 F xs \<equiv> running F (0, Rates_zero F) xs"

lemma running_snoc:
  "running F acc (xs @ [x]) =
     (fst (running F acc xs) + 1, meanRates F (snd (running F acc xs)) (rates x) (f_of_u64 F (fst (running F acc xs) + 1)))"
  by (induction xs arbitrary: acc) simp_all

definition in_epoch :: "duration \<Rightarrow> int \<Rightarrow> 'f StatSample list \<Rightarrow> 'f StatSample list" where
  "in_epoch res e ys = filter (\<lambda>y. vp_At y div res = e) ys"

definition slot_shows :: "'f float_ops \<Rightarrow> 'f stat_slot \<Rightarrow> int \<Rightarrow> 'f StatSample list \<Rightarrow> bool" where
  "slot_shows F sl e zs \<longleftrightarrow>
     (if zs = [] then vs_epoch sl \<noteq> e else sl = \<lparr>vs_epoch = e, vs_count = fst (run0 F zs), vs_rates = snd (run0 F zs)\<rparr>)"

text \<open>Epoch 0, the first interval of 1970, is left out: an unused slot looks as if it counted for it.\<close>

definition ring_shows :: "'f float_ops \<Rightarrow> 'f stat_ring \<Rightarrow> duration \<Rightarrow> nat \<Rightarrow> gotime \<Rightarrow> 'f StatSample list \<Rightarrow> bool" where
  "ring_shows F r res n t ys \<longleftrightarrow> 0 < res \<and> 0 < n \<and> vr_resolution r = res \<and> length (vr_slots r) = n \<and>
     (\<forall>y\<in>set ys. vp_At y \<le> t) \<and>
     (\<forall>e. t div res - int n < e \<longrightarrow> 0 < e \<longrightarrow> slot_shows F (vr_slots r ! nat (e mod int n)) e (in_epoch res e ys))"

lemma stat_slotIndex_mod: "0 < n \<Longrightarrow> stat_slotIndex e n = Some (nat (e mod int n))"
  using slotIndex_mod [of n e] by (simp add: stat_slotIndex_def slotIndex_def)

lemma ring_shows_later:
  assumes "ring_shows F r res n t ys" and "t \<le> t'"
  shows "ring_shows F r res n t' ys"
proof -
  have "t div res \<le> t' div res" using assms by (auto simp: ring_shows_def intro: zdiv_mono1)
  with assms show ?thesis by (force simp: ring_shows_def)
qed

lemma newRing_shows:
  assumes "0 < res" and "newRing F res dur = Some r" and "n = nat (if quot dur res < 1 then 1 else quot dur res)"
  shows "ring_shows F r res n t []"
proof -
  have n: "0 < n" using assms(3) by auto
  have r: "r = \<lparr>vr_resolution = res, vr_slots = replicate n (stat_slot_zero F)\<rparr>"
    using assms by (simp add: newRing_def Let_def)
  have "nat (e mod int n) < n" for e using n by (simp add: nat_less_iff)
  then show ?thesis
    using n assms(1) by (simp add: r ring_shows_def slot_shows_def in_epoch_def stat_slot_zero_def)
qed

definition put_slot :: "'f float_ops \<Rightarrow> 'f stat_slot \<Rightarrow> int \<Rightarrow> 'f StatSample \<Rightarrow> 'f stat_slot" where
  "put_slot F sl k x =
     (let sl' = (if vs_epoch sl \<noteq> k then (stat_slot_zero F)\<lparr>vs_epoch := k\<rparr> else sl)
      in sl'\<lparr>vs_count := vs_count sl' + 1, vs_rates := meanRates F (vs_rates sl') (rates x) (f_of_u64 F (vs_count sl' + 1))\<rparr>)"

lemma put_slot_shows: "slot_shows F sl k zs \<Longrightarrow> slot_shows F (put_slot F sl k x) k (zs @ [x])"
  by (auto simp: slot_shows_def put_slot_def Let_def running_snoc stat_slot_zero_def split: if_splits)

lemma ring_put_shows:
  assumes "ring_shows F r res n t ys" and "t \<le> vp_At x" and "0 \<le> vp_At x" and "vp_At x < 2 ^ 63"
  shows "\<exists>r'. ring_put F r x = Some r' \<and> ring_shows F r' res n (vp_At x) (ys @ [x])"
proof -
  let ?t = "vp_At x"
  let ?k = "?t div res"
  define i where "i = nat (?k mod int n)"
  have r: "0 < res" "0 < n" "vr_resolution r = res" "length (vr_slots r) = n" using assms(1) by (auto simp: ring_shows_def)
  then have i: "i < n" "int i = ?k mod int n" by (simp_all add: i_def nat_less_iff)
  let ?r = "r\<lparr>vr_slots := (vr_slots r)[i := put_slot F (vr_slots r ! i) ?k x]\<rparr>"
  have put: "ring_put F r x = Some ?r"
    using r assms(3,4) by (simp add: ring_put_def stat_epoch_def UnixNano_def wrap64_id quot_pos stat_slotIndex_mod i_def put_slot_def Let_def)
  have old: "slot_shows F (vr_slots r ! nat (e mod int n)) e (in_epoch res e ys)" if "?k - int n < e" "0 < e" for e
    using ring_shows_later [OF assms(1,2)] that by (simp add: ring_shows_def)
  have "slot_shows F (vr_slots ?r ! nat (e mod int n)) e (in_epoch res e (ys @ [x]))" if e: "?k - int n < e" "0 < e" for e
  proof (cases "e = ?k")
    case True
    with old [OF e] put_slot_shows [of F "vr_slots r ! i" ?k] i r(4) show ?thesis by (simp add: in_epoch_def i_def)
  next
    case False
    then have same: "in_epoch res e (ys @ [x]) = in_epoch res e ys" by (simp add: in_epoch_def)
    show ?thesis
    proof (cases "e mod int n = ?k mod int n")
      case True
      then have later: "?k < e" by (rule mod_near [OF _ e(1) False])
      have "vp_At y div res \<noteq> e" if "y \<in> set ys" for y
      proof -
        have "vp_At y \<le> ?t" using assms(1,2) that by (force simp: ring_shows_def)
        then have "vp_At y div res \<le> ?k" using r(1) by (rule zdiv_mono1)
        with later show ?thesis by simp
      qed
      then have "in_epoch res e ys = []" by (simp add: in_epoch_def filter_empty_conv)
      moreover have "vs_epoch (put_slot F (vr_slots r ! i) ?k x) = ?k" by (auto simp: put_slot_def Let_def stat_slot_zero_def)
      ultimately show ?thesis using True False i r(4) same by (simp add: slot_shows_def i_def)
    next
      case False
      then have "nat (e mod int n) \<noteq> i" using i r(2) by (metis nat_0_le pos_mod_sign of_nat_0_less_iff)
      then show ?thesis using old [OF e] same by simp
    qed
  qed
  moreover have "\<forall>y\<in>set (ys @ [x]). vp_At y \<le> ?t" using assms(1,2) by (force simp: ring_shows_def)
  ultimately show ?thesis using put r by (auto simp: ring_shows_def)
qed

section \<open>Windows\<close>

text \<open>The rates of the epochs \<open>a\<close> to \<open>b\<close>: the mean, or the maximum, of the means of the epochs that have samples.\<close>

definition window_rates :: "'f float_ops \<Rightarrow> 'f StatSample list \<Rightarrow> duration \<Rightarrow> int \<Rightarrow> int \<Rightarrow> bool \<Rightarrow> 'f Rates" where
  "window_rates F ys res a b peak =
     (let means = map (\<lambda>e. snd (run0 F (in_epoch res e ys))) (filter (\<lambda>e. in_epoch res e ys \<noteq> []) [a..b])
      in if peak then foldl (maxRates F) (Rates_zero F) means
         else if means = [] then Rates_zero F
         else scaleRates F (foldl (addRates F) (Rates_zero F) means) (f_div F (f_of_int F 1) (f_of_int F (int (length means)))))"

lemma agg_rates_fold:
  assumes "\<forall>e\<in>set es. slot_shows F (slots ! nat (e mod int (length slots))) e (zs e)" and "slots \<noteq> []"
  shows "foldl (agg_rates_step F slots) (Some (n, sm, mx)) es =
    (let ms = map (\<lambda>e. snd (run0 F (zs e))) (filter (\<lambda>e. zs e \<noteq> []) es)
     in Some (n + int (length ms), foldl (addRates F) sm ms, foldl (maxRates F) mx ms))"
  using assms
proof (induction es arbitrary: n sm mx)
  case (Cons e es)
  then have "agg_rates_step F slots (Some (n, sm, mx)) e =
      (if zs e = [] then Some (n, sm, mx)
       else Some (n + 1, addRates F sm (snd (run0 F (zs e))), maxRates F mx (snd (run0 F (zs e)))))"
    by (auto simp: agg_rates_step_def stat_slotIndex_mod slot_shows_def Let_def split: if_splits)
  with Cons show ?case by (simp add: Let_def)
qed simp

lemma ring_aggregate_exact:
  assumes r: "ring_shows F r res n now ys" and w: "0 < window" "0 \<le> offset" "window + offset \<le> now" "now < 2 ^ 63"
    and dvd: "window mod res = 0" "offset mod res = 0" and span: "window div res + offset div res \<le> int n"
  shows "ring_aggregate F r now window offset peak =
    Some (window_rates F ys res ((now - offset) div res - window div res + 1) ((now - offset) div res) peak)"
proof -
  have res: "0 < res" "0 < n" "vr_resolution r = res" "length (vr_slots r) = n" using r by (auto simp: ring_shows_def)
  then have c: "0 < window div res" using w(1) dvd(1) by (metis div_mult_mod_eq mult_eq_0_iff add.right_neutral pos_imp_zdiv_nonneg_iff less_le less_imp_le)
  let ?last = "(now - offset) div res"
  have o: "?last = now div res - offset div res"
  proof -
    obtain q where "offset = res * q" using dvd(2) by auto
    then have "(now - offset) div res = (now + (- q) * res) div res" by (simp add: algebra_simps)
    also have "\<dots> = now div res - q" using res(1) by (subst div_mult_self1) simp_all
    finally show ?thesis using \<open>offset = res * q\<close> res(1) by simp
  qed
  have "window div res \<le> ?last" using w res(1) by (intro zdiv_mono1) simp_all
  moreover have ne: "vr_slots r \<noteq> []" using res by auto
  ultimately have "\<forall>e\<in>set [?last - window div res + 1..?last]. slot_shows F (vr_slots r ! nat (e mod int n)) e (in_epoch res e ys)"
    using r span o by (auto simp: ring_shows_def)
  note fold = agg_rates_fold [where zs = "\<lambda>e. in_epoch res e ys" and slots = "vr_slots r", unfolded res(4), OF this ne]
  have "quot (UnixNano (now - offset)) res = ?last" "quot window res = window div res"
    using w res(1) by (simp_all add: UnixNano_def wrap64_id quot_pos)
  then show ?thesis
    using res c fold [of 0 "Rates_zero F" "Rates_zero F"]
    by (auto simp: ring_aggregate_def stat_epoch_def window_rates_def Let_def)
qed


section \<open>The ring sets of the interfaces\<close>

definition slots_of :: "duration \<Rightarrow> duration \<Rightarrow> nat" where
  "slots_of res dur = nat (if quot dur res < 1 then 1 else quot dur res)"

definition rings_show :: "'f float_ops \<Rightarrow> StatRingConfig \<Rightarrow> gotime \<Rightarrow> 'f interfaceRings \<Rightarrow> 'f StatSample list \<Rightarrow> bool" where
  "rings_show F c t r ys \<longleftrightarrow>
     ring_shows F (ir_fine r) (FineResolution c) (slots_of (FineResolution c) (FineDuration c)) t ys \<and>
     ring_shows F (ir_medium r) (MediumResolution c) (slots_of (MediumResolution c) (MediumDuration c)) t ys \<and>
     ring_shows F (ir_coarse r) (CoarseResolution c) (slots_of (CoarseResolution c) (CoarseDuration c)) t ys \<and>
     (ys \<noteq> [] \<longrightarrow> ir_last r = last ys)"

definition config_ok :: "StatRingConfig \<Rightarrow> bool" where
  "config_ok c \<longleftrightarrow> 0 < FineResolution c \<and> 0 < MediumResolution c \<and> 0 < CoarseResolution c"

lemma withDefaults_ok: "config_ok (withDefaults c)"
  by (auto simp: config_ok_def withDefaults_def DefaultRingConfig_def Let_def second_def minute_def hour_def)

lemma newInterfaceRings_shows:
  assumes "config_ok c"
  shows "\<exists>r. newInterfaceRings F c = Some r \<and> rings_show F c t r []"
proof -
  have new: "\<exists>r. newRing F res dur = Some r \<and> ring_shows F r res (slots_of res dur) t []" if "0 < res" for res dur
    using newRing_shows [OF that, of F dur _ "slots_of res dur" t] that by (simp add: newRing_def slots_of_def Let_def)
  from assms obtain f m k where "newRing F (FineResolution c) (FineDuration c) = Some f"
    "ring_shows F f (FineResolution c) (slots_of (FineResolution c) (FineDuration c)) t []"
    "newRing F (MediumResolution c) (MediumDuration c) = Some m"
    "ring_shows F m (MediumResolution c) (slots_of (MediumResolution c) (MediumDuration c)) t []"
    "newRing F (CoarseResolution c) (CoarseDuration c) = Some k"
    "ring_shows F k (CoarseResolution c) (slots_of (CoarseResolution c) (CoarseDuration c)) t []"
    unfolding config_ok_def using new by metis
  then show ?thesis by (simp add: newInterfaceRings_def rings_show_def)
qed

lemma rings_add_shows:
  assumes "rings_show F c t r ys" and "t \<le> vp_At x" "0 \<le> vp_At x" "vp_At x < 2 ^ 63"
  shows "\<exists>r'. rings_add F r x = Some r' \<and> rings_show F c (vp_At x) r' (ys @ [x])"
proof -
  note put = ring_put_shows [OF _ assms(2-4)]
  from assms(1) obtain f m k where "ring_put F (ir_fine r) x = Some f"
    "ring_shows F f (FineResolution c) (slots_of (FineResolution c) (FineDuration c)) (vp_At x) (ys @ [x])"
    "ring_put F (ir_medium r) x = Some m"
    "ring_shows F m (MediumResolution c) (slots_of (MediumResolution c) (MediumDuration c)) (vp_At x) (ys @ [x])"
    "ring_put F (ir_coarse r) x = Some k"
    "ring_shows F k (CoarseResolution c) (slots_of (CoarseResolution c) (CoarseDuration c)) (vp_At x) (ys @ [x])"
    unfolding rings_show_def using put by metis
  then show ?thesis by (simp add: rings_add_def rings_show_def)
qed

lemma rings_show_later: "rings_show F c t r ys \<Longrightarrow> t \<le> t' \<Longrightarrow> rings_show F c t' r ys"
  by (auto simp: rings_show_def intro: ring_shows_later)

section \<open>The choice of a ring\<close>

definition ring_sizes :: "StatRingConfig \<Rightarrow> (duration \<times> nat) list" where
  "ring_sizes c = [(FineResolution c, slots_of (FineResolution c) (FineDuration c)),
     (MediumResolution c, slots_of (MediumResolution c) (MediumDuration c)),
     (CoarseResolution c, slots_of (CoarseResolution c) (CoarseDuration c))]"

definition size_covers :: "duration \<Rightarrow> duration \<Rightarrow> duration \<times> nat \<Rightarrow> bool" where
  "size_covers window offset d = ringCovers (fst d) (int (snd d)) window offset"

text \<open>The resolution of the coarsest ring that covers a window.\<close>

definition coarsest :: "StatRingConfig \<Rightarrow> duration \<Rightarrow> duration \<Rightarrow> duration" where
  "coarsest c window offset = Max (fst ` set (filter (size_covers window offset) (ring_sizes c)))"

lemma choose_fold:
  assumes "\<And>b. best = Some b \<Longrightarrow> P b \<and> ringCovers (vr_resolution b) (int (length (vr_slots b))) window offset"
    and "\<And>rg. rg \<in> set rgs \<Longrightarrow> P rg" and "best \<noteq> None \<or> (\<exists>rg\<in>set rgs. ringCovers (vr_resolution rg) (int (length (vr_slots rg))) window offset)"
  shows "\<exists>rg. foldl (choose_step window offset) best rgs = Some rg \<and> P rg \<and>
    ringCovers (vr_resolution rg) (int (length (vr_slots rg))) window offset \<and>
    (\<forall>b. best = Some b \<longrightarrow> vr_resolution b \<le> vr_resolution rg) \<and>
    (\<forall>x\<in>set rgs. ringCovers (vr_resolution x) (int (length (vr_slots x))) window offset \<longrightarrow> vr_resolution x \<le> vr_resolution rg)"
  using assms
proof (induction rgs arbitrary: best)
  case Nil
  then show ?case by auto
next
  case (Cons x rgs)
  let ?best = "choose_step window offset best x"
  let ?cov = "ringCovers (vr_resolution x) (int (length (vr_slots x))) window offset"
  have P: "P b \<and> ringCovers (vr_resolution b) (int (length (vr_slots b))) window offset" if "?best = Some b" for b
    using that Cons.prems(1,2) by (auto simp: choose_step_def split: if_splits option.splits)
  have some: "?best \<noteq> None \<or> (\<exists>rg\<in>set rgs. ringCovers (vr_resolution rg) (int (length (vr_slots rg))) window offset)"
    using Cons.prems(3) by (auto simp: choose_step_def split: if_splits option.splits)
  have mono: "\<exists>b'. ?best = Some b' \<and> vr_resolution b \<le> vr_resolution b'" if "best = Some b" for b
    using that by (auto simp: choose_step_def)
  have here: "\<exists>b'. ?best = Some b' \<and> vr_resolution x \<le> vr_resolution b'" if ?cov
    using that by (auto simp: choose_step_def split: option.splits)
  obtain rg where rg: "foldl (choose_step window offset) ?best rgs = Some rg" "P rg"
    "ringCovers (vr_resolution rg) (int (length (vr_slots rg))) window offset"
    "\<forall>b. ?best = Some b \<longrightarrow> vr_resolution b \<le> vr_resolution rg"
    "\<forall>y\<in>set rgs. ringCovers (vr_resolution y) (int (length (vr_slots y))) window offset \<longrightarrow> vr_resolution y \<le> vr_resolution rg"
    using Cons.IH [OF P _ some] Cons.prems(2) by auto
  with mono here show ?case by (fastforce intro: order_trans)
qed

text \<open>The startup check is sound: a covered window has a ring in every ring set.\<close>

lemma Covers_size:
  assumes "Covers c0 window offset"
  shows "\<exists>d\<in>set (ring_sizes (withDefaults c0)). size_covers window offset d"
proof -
  have "ringCovers res (int (slots_of res dur)) window offset" if "ringCovers res (quot dur res) window offset" for res dur
    using that by (auto simp: ringCovers_def slots_of_def split: if_splits)
  with assms show ?thesis by (auto simp: Covers_def ring_sizes_def size_covers_def Let_def)
qed

lemma rings_choose_exact:
  assumes shw: "rings_show F c t r ys" and "\<exists>d\<in>set (ring_sizes c). size_covers window offset d"
  shows "\<exists>rg n. rings_choose r window offset = Some rg \<and> ring_shows F rg (coarsest c window offset) n t ys \<and>
    (coarsest c window offset, n) \<in> set (ring_sizes c) \<and> size_covers window offset (coarsest c window offset, n)"
proof -
  let ?P = "\<lambda>rg. \<exists>n. ring_shows F rg (vr_resolution rg) n t ys \<and> (vr_resolution rg, n) \<in> set (ring_sizes c) \<and> length (vr_slots rg) = n"
  let ?rgs = "[ir_fine r, ir_medium r, ir_coarse r]"
  have sizes: "map (\<lambda>rg. (vr_resolution rg, length (vr_slots rg))) ?rgs = ring_sizes c"
    using shw by (simp add: rings_show_def ring_shows_def ring_sizes_def)
  have P: "?P rg" if "rg \<in> set ?rgs" for rg
    using that shw by (auto simp: rings_show_def ring_shows_def ring_sizes_def)
  have ex: "\<exists>rg\<in>set ?rgs. ringCovers (vr_resolution rg) (int (length (vr_slots rg))) window offset"
    using assms(2) unfolding sizes [symmetric] by (auto simp: size_covers_def)
  from choose_fold [of None ?P window offset ?rgs, OF _ P] ex obtain rg where
    rg: "rings_choose r window offset = Some rg" "?P rg" "ringCovers (vr_resolution rg) (int (length (vr_slots rg))) window offset"
    "\<forall>x\<in>set ?rgs. ringCovers (vr_resolution x) (int (length (vr_slots x))) window offset \<longrightarrow> vr_resolution x \<le> vr_resolution rg"
    unfolding rings_choose_def by auto
  have "coarsest c window offset = vr_resolution rg"
    unfolding coarsest_def
  proof (rule Max_eqI)
    show "vr_resolution rg \<in> fst ` set (filter (size_covers window offset) (ring_sizes c))"
      using rg(2,3) by (force simp: size_covers_def)
    show "y \<le> vr_resolution rg" if "y \<in> fst ` set (filter (size_covers window offset) (ring_sizes c))" for y
    proof -
      from that obtain d where d: "d \<in> set (ring_sizes c)" "size_covers window offset d" "y = fst d" by auto
      then obtain x where "x \<in> set ?rgs" "d = (vr_resolution x, length (vr_slots x))"
        unfolding sizes [symmetric] set_map by blast
      with d(2,3) rg(4) show ?thesis by (auto simp: size_covers_def)
    qed
  qed simp
  with rg show ?thesis by (auto simp: size_covers_def)
qed

section \<open>The store\<close>

fun store_adds :: "'f float_ops \<Rightarrow> 'f StatStore \<Rightarrow> 'f StatSample list \<Rightarrow> 'f StatStore option" where
  "store_adds F s [] = Some s"
| "store_adds F s (x # xs) = do { s' \<leftarrow> store_Add F s x; store_adds F s' xs }"

lemma store_adds_snoc: "store_adds F s (xs @ [x]) = do { s' \<leftarrow> store_adds F s xs; store_Add F s' x }"
  by (induction xs arbitrary: s) (auto split: bind_splits)

text \<open>The interface a key stands for: itself, or the interface that last gave it as an alias.\<close>

definition alias_step :: "string \<Rightarrow> string option \<Rightarrow> 'f StatSample \<Rightarrow> string option" where
  "alias_step a own x = (if a \<in> set (vp_Aliases x) \<and> a \<noteq> '''' \<and> a \<noteq> vp_Name x then Some (vp_Name x) else own)"

definition key_owner :: "'f StatSample list \<Rightarrow> string \<Rightarrow> string option" where
  "key_owner xs a = (if a \<in> vp_Name ` set xs then Some a else foldl (alias_step a) None xs)"

lemma alias_owner_known: "foldl (alias_step a) None xs = Some n \<Longrightarrow> n \<in> vp_Name ` set xs"
  by (induction xs rule: rev_induct) (auto simp: alias_step_def split: if_splits)

definition of_interface :: "string \<Rightarrow> 'f StatSample list \<Rightarrow> 'f StatSample list" where
  "of_interface name xs = filter (\<lambda>x. vp_Name x = name) xs"

definition store_shows :: "'f float_ops \<Rightarrow> StatRingConfig \<Rightarrow> gotime \<Rightarrow> 'f StatStore \<Rightarrow> 'f StatSample list \<Rightarrow> bool" where
  "store_shows F c t s xs \<longleftrightarrow> so_config s = c \<and> config_ok c \<and> gwf (so_rings s) \<and> gwf (so_byAlias s) \<and>
     dom (map_of (so_rings s)) = vp_Name ` set xs \<and> inj_on (map_of (so_rings s)) (vp_Name ` set xs) \<and>
     (\<forall>name p. map_of (so_rings s) name = Some p \<longrightarrow> p < length (so_objs s) \<and>
        rings_show F c t (so_objs s ! p) (of_interface name xs)) \<and>
     (\<forall>a. map_of (so_byAlias s) a = Option.bind (foldl (alias_step a) None xs) (map_of (so_rings s)))"

lemma add_aliases_lookup:
  "map_of (add_aliases p name als m) a = (if a \<in> set als \<and> a \<noteq> '''' \<and> a \<noteq> name then Some p else map_of m a)"
proof -
  have "map_of (fold (\<lambda>a m. if a \<noteq> '''' \<and> a \<noteq> name then gput a p m else m) als m) a =
      (if a \<in> set als \<and> a \<noteq> '''' \<and> a \<noteq> name then Some p else map_of m a)"
    by (induction als arbitrary: m) auto
  then show ?thesis by (simp add: add_aliases_def)
qed

lemma gwf_add_aliases: "gwf m \<Longrightarrow> gwf (add_aliases p name als m)"
proof -
  have "gwf m \<Longrightarrow> gwf (fold (\<lambda>a m. if a \<noteq> '''' \<and> a \<noteq> name then gput a p m else m) als m)"
    by (induction als arbitrary: m) auto
  then show "gwf m \<Longrightarrow> ?thesis" by (simp add: add_aliases_def)
qed

lemma store_ring_gwf: "store_ring F s name = Some (p, s1) \<Longrightarrow> gwf (so_rings s) \<Longrightarrow> gwf (so_rings s1)"
  by (auto simp: store_ring_def Let_def split: option.splits bind_splits)

lemma recomputeTotal_keeps [simp]:
  "so_objs (recomputeTotal F s) = so_objs s" "so_rings (recomputeTotal F s) = so_rings s"
  "so_byAlias (recomputeTotal F s) = so_byAlias s" "so_config (recomputeTotal F s) = so_config s"
  by (simp_all add: recomputeTotal_def)

text \<open>The ring set of the sample's interface: present, or new and empty.\<close>

lemma store_ring_shows:
  assumes "store_shows F c t s xs"
  shows "\<exists>p s1. store_ring F s name = Some (p, s1) \<and> map_of (so_rings s1) = (map_of (so_rings s))(name \<mapsto> p) \<and>
    p < length (so_objs s1) \<and> rings_show F c t (so_objs s1 ! p) (of_interface name xs) \<and> so_byAlias s1 = so_byAlias s \<and>
    so_config s1 = so_config s \<and> length (so_objs s) \<le> length (so_objs s1) \<and>
    (\<forall>q < length (so_objs s). so_objs s1 ! q = so_objs s ! q) \<and>
    (\<forall>m. map_of (so_rings s) m = Some p \<longrightarrow> m = name) \<and> (\<forall>q. map_of (so_rings s) name = Some q \<longrightarrow> q = p)"
proof (cases "map_of (so_rings s) name")
  case (Some p)
  have uniq: "\<forall>m. map_of (so_rings s) m = Some p \<longrightarrow> m = name"
    using assms Some unfolding store_shows_def by (metis domI inj_onD)
  have obj: "p < length (so_objs s)" "rings_show F c t (so_objs s ! p) (of_interface name xs)"
    using Some assms by (simp_all add: store_shows_def)
  have same: "map_of (so_rings s) = (map_of (so_rings s))(name \<mapsto> p)" using Some by (simp add: map_upd_triv)
  have "store_ring F s name = Some (p, s)" using Some by (simp add: store_ring_def)
  then show ?thesis by - (rule exI [of _ p], rule exI [of _ s], intro conjI obj same uniq, simp_all add: Some)
next
  case None
  obtain r where r: "newInterfaceRings F (so_config s) = Some r" "rings_show F c t r []"
    using newInterfaceRings_shows [of c F t] assms by (auto simp: store_shows_def)
  have "dom (map_of (so_rings s)) = vp_Name ` set xs" using assms by (simp add: store_shows_def)
  with None have "name \<notin> vp_Name ` set xs" by (metis domIff)
  then have "of_interface name xs = []" by (auto simp: of_interface_def filter_empty_conv)
  moreover have "map_of (so_rings s) m \<noteq> Some (length (so_objs s))" for m
    using assms unfolding store_shows_def by (metis less_irrefl)
  ultimately show ?thesis using None r by (auto simp: store_ring_def nth_append Let_def)
qed

lemma store_Add_shows:
  assumes s: "store_shows F c t s xs" and "t \<le> vp_At x" "0 \<le> vp_At x" "vp_At x < 2 ^ 63"
  shows "\<exists>s'. store_Add F s x = Some s' \<and> store_shows F c (vp_At x) s' (xs @ [x])"
proof -
  let ?name = "vp_Name x"
  from store_ring_shows [OF s, of ?name] obtain p s1 where
    1: "store_ring F s ?name = Some (p, s1)" "map_of (so_rings s1) = (map_of (so_rings s))(?name \<mapsto> p)" "p < length (so_objs s1)"
    "rings_show F c t (so_objs s1 ! p) (of_interface ?name xs)" "so_byAlias s1 = so_byAlias s" "so_config s1 = so_config s"
    "length (so_objs s) \<le> length (so_objs s1)" "\<forall>q < length (so_objs s). so_objs s1 ! q = so_objs s ! q"
    "\<forall>m. map_of (so_rings s) m = Some p \<longrightarrow> m = ?name" "\<forall>q. map_of (so_rings s) ?name = Some q \<longrightarrow> q = p" by blast
  from rings_add_shows [OF 1(4) assms(2-4)] obtain r where
    r: "rings_add F (so_objs s1 ! p) x = Some r" "rings_show F c (vp_At x) r (of_interface ?name xs @ [x])" by blast
  define s2 where "s2 = s1\<lparr>so_objs := (so_objs s1)[p := r], so_byAlias := add_aliases p ?name (vp_Aliases x) (so_byAlias s1)\<rparr>"
  have add: "store_Add F s x = Some (recomputeTotal F s2)"
    using 1(1,3) r(1) by (simp add: store_Add_def elem_at_def s2_def)
  note s' = s [unfolded store_shows_def]
  have dom: "dom (map_of (so_rings s2)) = vp_Name ` set (xs @ [x])" using s' 1(2) by (auto simp: s2_def)
  have inj: "inj_on (map_of (so_rings s2)) (vp_Name ` set (xs @ [x]))"
    using s' 1(2,9) by (auto simp: s2_def inj_on_def)
  have rings: "q < length (so_objs s2) \<and> rings_show F c (vp_At x) (so_objs s2 ! q) (of_interface m (xs @ [x]))"
    if m: "map_of (so_rings s2) m = Some q" for m q
  proof (cases "m = ?name")
    case True
    with m 1(2,3) r(2) show ?thesis by (simp add: s2_def of_interface_def)
  next
    case False
    with m 1(2) have old: "map_of (so_rings s) m = Some q" by (simp add: s2_def)
    then have q: "q < length (so_objs s)" "rings_show F c t (so_objs s ! q) (of_interface m xs)" using s' by auto
    moreover have "q \<noteq> p" using old False 1(9) by auto
    ultimately show ?thesis
      using 1(7,8) False rings_show_later [OF _ assms(2)] by (auto simp: s2_def of_interface_def)
  qed
  have als: "map_of (so_byAlias s2) a = Option.bind (foldl (alias_step a) None (xs @ [x])) (map_of (so_rings s2))" for a
  proof (cases "a \<in> set (vp_Aliases x) \<and> a \<noteq> '''' \<and> a \<noteq> ?name")
    case True
    then show ?thesis using 1(2) by (simp add: s2_def add_aliases_lookup alias_step_def)
  next
    case False
    then have "map_of (so_byAlias s2) a = Option.bind (foldl (alias_step a) None xs) (map_of (so_rings s))"
      using s' 1(5) by (auto simp: s2_def add_aliases_lookup)
    moreover have "map_of (so_rings s2) n = map_of (so_rings s) n" if "foldl (alias_step a) None xs = Some n" for n
    proof -
      have "n \<in> dom (map_of (so_rings s))" using alias_owner_known [OF that] s' by simp
      then show ?thesis using 1(2,10) by (cases "n = ?name") (auto simp: s2_def)
    qed
    ultimately show ?thesis using False by (cases "foldl (alias_step a) None xs") (auto simp: alias_step_def)
  qed
  have "gwf (so_rings s2)" "gwf (so_byAlias s2)"
    using s' store_ring_gwf [OF 1(1)] gwf_add_aliases 1(5) by (simp_all add: s2_def)
  then show ?thesis using add s' dom inj rings als 1(6) by (auto simp: store_shows_def s2_def [symmetric]) (simp add: s2_def)
qed


lemma NewStore_shows: "store_shows F (withDefaults c0) t (NewStore F c0) []"
  by (simp add: store_shows_def NewStore_def withDefaults_ok)

lemma store_shows_later: "store_shows F c t s xs \<Longrightarrow> t \<le> t' \<Longrightarrow> store_shows F c t' s xs"
  using rings_show_later by (fastforce simp: store_shows_def)

lemma store_adds_shows:
  "sorted (map vp_At xs) \<Longrightarrow> list_all (\<lambda>x. 0 \<le> vp_At x \<and> vp_At x \<le> now) xs \<Longrightarrow> now < 2 ^ 63 \<Longrightarrow>
   \<exists>s. store_adds F (NewStore F c0) xs = Some s \<and> store_shows F (withDefaults c0) now s xs"
proof (induction xs arbitrary: now rule: rev_induct)
  case Nil
  then show ?case by (simp add: NewStore_shows)
next
  case (snoc x xs)
  then have x: "0 \<le> vp_At x" "vp_At x \<le> now" "vp_At x < 2 ^ 63" and "sorted (map vp_At xs)"
    "list_all (\<lambda>y. 0 \<le> vp_At y \<and> vp_At y \<le> vp_At x) xs"
    by (auto simp: sorted_append list_all_iff)
  with snoc.IH [of "vp_At x"] obtain s where s: "store_adds F (NewStore F c0) xs = Some s"
    "store_shows F (withDefaults c0) (vp_At x) s xs" by auto
  with store_Add_shows [OF s(2) order_refl x(1,3)] store_shows_later x(2) show ?case
    by (fastforce simp: store_adds_snoc)
qed

text \<open>Durations of the configuration are \<^verbatim>\<open>int64\<close> values.\<close>

definition stats_typed :: "StatRingConfig \<Rightarrow> bool" where
  "stats_typed c \<longleftrightarrow> FineResolution c < 2 ^ 63 \<and> FineDuration c < 2 ^ 63 \<and> MediumResolution c < 2 ^ 63 \<and>
     MediumDuration c < 2 ^ 63 \<and> CoarseResolution c < 2 ^ 63 \<and> CoarseDuration c < 2 ^ 63"

lemma slots_of_span:
  assumes "0 < res" "res < 2 ^ 63" "0 < dur" "dur < 2 ^ 63"
  shows "int (slots_of res dur) * res < 2 ^ 63" "0 < slots_of res dur"
proof -
  have "quot dur res = dur div res" using assms by (simp add: quot_pos)
  moreover have "dur div res * res \<le> dur" using assms(1) by (simp add: minus_mod_eq_div_mult [symmetric])
  ultimately show "int (slots_of res dur) * res < 2 ^ 63" using assms by (auto simp: slots_of_def)
  show "0 < slots_of res dur" by (simp add: slots_of_def)
qed

lemma ring_sizes_span:
  assumes "stats_typed c0" and "(res, n) \<in> set (ring_sizes (withDefaults c0))"
  shows "0 < res" "int n * res < 2 ^ 63"
proof -
  let ?c = "withDefaults c0"
  have t: "FineResolution ?c < 2 ^ 63" "FineDuration ?c < 2 ^ 63" "MediumResolution ?c < 2 ^ 63"
    "MediumDuration ?c < 2 ^ 63" "CoarseResolution ?c < 2 ^ 63" "CoarseDuration ?c < 2 ^ 63"
    using assms(1) by (simp_all add: stats_typed_def withDefaults_def DefaultRingConfig_def Let_def second_def minute_def hour_def)
  have p: "0 < FineResolution ?c" "0 < FineDuration ?c" "0 < MediumResolution ?c" "0 < MediumDuration ?c"
    "0 < CoarseResolution ?c" "0 < CoarseDuration ?c"
    by (auto simp: withDefaults_def DefaultRingConfig_def Let_def second_def minute_def hour_def)
  show "0 < res" using assms(2) p by (auto simp: ring_sizes_def)
  show "int n * res < 2 ^ 63" using assms(2) p t slots_of_span(1) by (auto simp: ring_sizes_def)
qed

lemma size_covers_window:
  assumes "size_covers window offset (res, n)" and "0 < res" "int n * res < 2 ^ 63" and "0 \<le> offset" "window + offset < 2 ^ 63"
  shows "0 < window" "window mod res = 0" "offset mod res = 0" "window div res + offset div res \<le> int n"
proof -
  show w: "0 < window" using assms(1,2) by (auto simp: size_covers_def ringCovers_def split: if_splits)
  then show m: "window mod res = 0" "offset mod res = 0"
    using assms(1,2,4) by (auto simp: size_covers_def ringCovers_def rem_pos split: if_splits)
  have "wrap64 (int n * res) = int n * res" using assms(2,3) by (intro wrap64_id) (auto intro: order_trans [OF _ mult_nonneg_nonneg])
  moreover have "wrap64 (window + offset) = window + offset" using assms(4,5) w by (intro wrap64_id) auto
  ultimately have "window + offset \<le> int n * res" using assms(1) by (auto simp: size_covers_def ringCovers_def split: if_splits)
  then have "(window + offset) div res \<le> int n" using assms(2) zdiv_mono1 [of "window + offset" "int n * res" res] by simp
  with m show "window div res + offset div res \<le> int n" by (simp add: div_add dvd_eq_mod_eq_0)
qed



definition default_rings :: StatRingConfig where
  "default_rings = \<lparr>FineResolution = 0, FineDuration = 0, MediumResolution = 0, MediumDuration = 0, CoarseResolution = 0, CoarseDuration = 0\<rparr>"

definition two_polls :: "real StatSample list" where
  "two_polls = map (\<lambda>k. (StatSample_zero real_ops)\<lparr>vp_At := (1700000000 + k) * second, vp_Name := ''eth0'',
     vp_Aliases := [''ifindex:1''], vp_RXPPS := 100\<rparr>) [0, 1]"


end
