(* ===== verification/StatsPersist.thy ===== *)
theory StatsPersist
  imports StatsWindow
begin

text \<open>
  The poller of interface counters (poller.go) and the history of the statistics store across a
  restart (persist.go). The counters VPP reports are input data; connecting to its statistics
  segment is a library. The encoding of the state (gob) is a library too.
\<close>

section \<open>The poller\<close>

text \<open>What VPP reports of an interface.\<close>

record InterfaceCounters =
  ic_Index :: u32
  ic_Name :: string
  ic_RxPackets :: u64
  ic_TxPackets :: u64
  ic_RxBytes :: u64
  ic_TxBytes :: u64
  ic_Drops :: u64
  ic_RxMiss :: u64

record counters =
  co_at :: gotime
  co_name :: string
  co_ifindex :: string
  co_rxPackets :: u64
  co_txPackets :: u64
  co_rxBytes :: u64
  co_txBytes :: u64
  co_drops :: u64
  co_rxMiss :: u64

definition stringIndex :: "u32 \<Rightarrow> string" where
  "stringIndex i = ''ifindex:'' @ dec (unat i)"

definition poll_snapshot :: "gotime \<Rightarrow> InterfaceCounters list \<Rightarrow> (string, counters) gomap" where
  "poll_snapshot now stats =
     fold (\<lambda>i m. let k = stringIndex (ic_Index i)
                 in gput k \<lparr>co_at = now, co_name = ic_Name i, co_ifindex = k, co_rxPackets = ic_RxPackets i,
                      co_txPackets = ic_TxPackets i, co_rxBytes = ic_RxBytes i, co_txBytes = ic_TxBytes i,
                      co_drops = ic_Drops i, co_rxMiss = ic_RxMiss i\<rparr> m) stats []"

definition deltaRate :: "'f float_ops \<Rightarrow> u64 \<Rightarrow> u64 \<Rightarrow> 'f \<Rightarrow> 'f" where
  "deltaRate F old cur seconds = (if cur < old then f_zero F else f_div F (f_of_u64 F (cur - old)) seconds)"

definition poll_sample :: "'f float_ops \<Rightarrow> gotime \<Rightarrow> counters \<Rightarrow> counters \<Rightarrow> 'f \<Rightarrow> 'f StatSample" where
  "poll_sample F now old c seconds =
     (let eight = f_of_int F 8
      in \<lparr>vp_At = now, vp_Name = (if co_name c \<noteq> '''' then co_name c else co_ifindex c),
          vp_Aliases = (if co_name c \<noteq> '''' then [co_ifindex c] else []),
          vp_RXPPS = deltaRate F (co_rxPackets old) (co_rxPackets c) seconds,
          vp_TXPPS = deltaRate F (co_txPackets old) (co_txPackets c) seconds,
          vp_RXBPS = f_mul F (deltaRate F (co_rxBytes old) (co_rxBytes c) seconds) eight,
          vp_TXBPS = f_mul F (deltaRate F (co_txBytes old) (co_txBytes c) seconds) eight,
          vp_SWDropPPS = deltaRate F (co_drops old) (co_drops c) seconds,
          vp_HWDropPPS = deltaRate F (co_rxMiss old) (co_rxMiss c) seconds\<rparr>)"

text \<open>The sample of one interface, if its counters were read before, at an earlier time.\<close>

definition poll_one :: "'f float_ops \<Rightarrow> gotime \<Rightarrow> (string, counters) gomap \<Rightarrow> string \<times> counters \<Rightarrow> 'f StatSample list" where
  "poll_one F now prev = (\<lambda>(k, c).
     case map_of prev k of
       None \<Rightarrow> []
     | Some old \<Rightarrow>
         if \<not> co_at c > co_at old then []
         else let seconds = f_seconds F (time_Sub (co_at c) (co_at old))
              in if f_le F seconds (f_zero F) then [] else [poll_sample F now old c seconds])"

definition poll_addRates :: "'f float_ops \<Rightarrow> 'f StatStore \<Rightarrow> gotime \<Rightarrow> (string, counters) gomap \<Rightarrow> (string, counters) gomap \<Rightarrow>
    'f StatStore option" where
  "poll_addRates F s now prev cur = store_adds F s (concat (map (poll_one F now prev) cur))"

record 'f Poller =
  po_interval :: duration
  po_store :: "'f StatStore"
  po_prev :: "(string, counters) gomap option"

definition NewPoller :: "'f float_ops \<Rightarrow> duration \<Rightarrow> 'f StatStore option \<Rightarrow> 'f Poller" where
  "NewPoller F interval store =
     \<lparr>po_interval = (if interval \<le> 0 then second else interval),
      po_store = (case store of None \<Rightarrow> NewStore F DefaultRingConfig | Some s \<Rightarrow> s), po_prev = None\<rparr>"

text \<open>A tick with the counters read, or with a read error, after which the poller connects anew and forgets the last counters.\<close>

definition poll_tick :: "'f float_ops \<Rightarrow> 'f Poller \<Rightarrow> gotime \<times> InterfaceCounters list option \<Rightarrow> 'f Poller option" where
  "poll_tick F p = (\<lambda>(now, stats).
     case stats of
       None \<Rightarrow> Some (p\<lparr>po_prev := None\<rparr>)
     | Some st \<Rightarrow> do {
         let cur = poll_snapshot now st;
         store \<leftarrow> (case po_prev p of None \<Rightarrow> Some (po_store p) | Some prev \<Rightarrow> poll_addRates F (po_store p) now prev cur);
         Some (p\<lparr>po_store := store, po_prev := Some cur\<rparr>)
       })"

fun poll_run :: "'f float_ops \<Rightarrow> 'f Poller \<Rightarrow> (gotime \<times> InterfaceCounters list option) list \<Rightarrow> 'f Poller option" where
  "poll_run F p [] = Some p"
| "poll_run F p (x # xs) = do { p' \<leftarrow> poll_tick F p x; poll_run F p' xs }"

text \<open>The samples the ticks give, in the order they reach the store.\<close>

fun polled :: "'f float_ops \<Rightarrow> (string, counters) gomap option \<Rightarrow> (gotime \<times> InterfaceCounters list option) list \<Rightarrow> 'f StatSample list" where
  "polled F prev [] = []"
| "polled F prev ((now, None) # ticks) = polled F None ticks"
| "polled F prev ((now, Some st) # ticks) =
     (case prev of None \<Rightarrow> [] | Some pr \<Rightarrow> concat (map (poll_one F now pr) (poll_snapshot now st))) @
     polled F (Some (poll_snapshot now st)) ticks"

lemma store_adds_append: "store_adds F s (xs @ ys) = do { s' \<leftarrow> store_adds F s xs; store_adds F s' ys }"
  by (induction xs arbitrary: s) (auto split: bind_splits)

lemma poll_run_store:
  "map_option po_store (poll_run F p ticks) = store_adds F (po_store p) (polled F (po_prev p) ticks)"
proof (induction ticks arbitrary: p)
  case (Cons x ticks)
  obtain now stats where x: "x = (now, stats)" by fastforce
  show ?case
  proof (cases stats)
    case None
    with Cons.IH [of "p\<lparr>po_prev := None\<rparr>"] x show ?thesis by (simp add: poll_tick_def)
  next
    case (Some st)
    let ?cur = "poll_snapshot now st"
    let ?put = "case po_prev p of None \<Rightarrow> Some (po_store p) | Some prev \<Rightarrow> poll_addRates F (po_store p) now prev ?cur"
    have put: "?put = store_adds F (po_store p) (case po_prev p of None \<Rightarrow> [] | Some pr \<Rightarrow> concat (map (poll_one F now pr) ?cur))"
      by (simp add: poll_addRates_def split: option.splits)
    show ?thesis
      using Cons.IH x Some by (cases ?put) (simp_all add: poll_tick_def put [symmetric] store_adds_append Let_def)
  qed
qed simp

lemma poll_one_at: "y \<in> set (poll_one F now prev kc) \<Longrightarrow> vp_At y = now"
  by (auto simp: poll_one_def poll_sample_def Let_def split: prod.splits option.splits if_splits)

lemma polled_at: "y \<in> set (polled F prev ticks) \<Longrightarrow> vp_At y \<in> fst ` set ticks"
  by (induction F prev ticks rule: polled.induct) (auto dest: poll_one_at split: option.splits)

lemma sorted_const: "\<forall>y\<in>set zs. f y = (c :: 'a :: linorder) \<Longrightarrow> sorted (map f zs)"
  by (induction zs) auto

lemma polled_sorted: "sorted (map fst ticks) \<Longrightarrow> sorted (map vp_At (polled F prev ticks))"
proof (induction F prev ticks rule: polled.induct)
  case (3 F prev now st ticks)
  let ?here = "case prev of None \<Rightarrow> [] | Some pr \<Rightarrow> concat (map (poll_one F now pr) (poll_snapshot now st))"
  have here: "vp_At y = now" if "y \<in> set ?here" for y using that by (auto dest: poll_one_at split: option.splits)
  then have "sorted (map vp_At ?here)" by (intro sorted_const) blast
  with 3 here show ?case by (auto simp: sorted_append dest!: polled_at)
qed simp_all

section \<open>State\<close>

record 'f SampleState =
  sp_At :: gotime
  sp_RXPPS :: 'f
  sp_TXPPS :: 'f
  sp_RXBPS :: 'f
  sp_TXBPS :: 'f
  sp_SWDropPPS :: 'f
  sp_HWDropPPS :: 'f

record 'f VPPSlotState =
  vt_Epoch :: int
  vt_Count :: u64
  vt_Rates :: "'f Rates"

record 'f RingState =
  vt_Resolution :: duration
  vt_Slots :: "'f VPPSlotState list"

record 'f InterfaceState =
  if_Name :: string
  if_Aliases :: "string list"
  if_Last :: "'f SampleState"
  if_Fine :: "'f RingState"
  if_Medium :: "'f RingState"
  if_Coarse :: "'f RingState"

definition sampleState :: "'f StatSample \<Rightarrow> 'f SampleState" where
  "sampleState s = \<lparr>sp_At = vp_At s, sp_RXPPS = vp_RXPPS s, sp_TXPPS = vp_TXPPS s, sp_RXBPS = vp_RXBPS s,
     sp_TXBPS = vp_TXBPS s, sp_SWDropPPS = vp_SWDropPPS s, sp_HWDropPPS = vp_HWDropPPS s\<rparr>"

definition state_sample :: "'f SampleState \<Rightarrow> string \<Rightarrow> 'f StatSample" where
  "state_sample s name = \<lparr>vp_At = sp_At s, vp_Name = name, vp_Aliases = [], vp_RXPPS = sp_RXPPS s, vp_TXPPS = sp_TXPPS s,
     vp_RXBPS = sp_RXBPS s, vp_TXBPS = sp_TXBPS s, vp_SWDropPPS = sp_SWDropPPS s, vp_HWDropPPS = sp_HWDropPPS s\<rparr>"

definition exportRing :: "'f stat_ring \<Rightarrow> 'f RingState" where
  "exportRing r = \<lparr>vt_Resolution = vr_resolution r,
     vt_Slots = map (\<lambda>sl. \<lparr>vt_Epoch = vs_epoch sl, vt_Count = vs_count sl, vt_Rates = vs_rates sl\<rparr>) (vr_slots r)\<rparr>"

text \<open>The ring with the slots of the state, unless their numbers differ.\<close>

definition importRing :: "'f stat_ring \<Rightarrow> 'f RingState \<Rightarrow> 'f stat_ring option" where
  "importRing r st =
     (if length (vt_Slots st) \<noteq> length (vr_slots r) then None
      else Some (r\<lparr>vr_slots := map (\<lambda>s. \<lparr>vs_epoch = vt_Epoch s, vs_count = vt_Count s, vs_rates = vt_Rates s\<rparr>) (vt_Slots st)\<rparr>))"

definition aliases_of :: "'f StatStore \<Rightarrow> nat \<Rightarrow> string list" where
  "aliases_of s p = map fst (filter (\<lambda>(a, q). q = p) (so_byAlias s))"

definition export_interface :: "'f StatStore \<Rightarrow> string \<times> nat \<Rightarrow> 'f InterfaceState" where
  "export_interface s = (\<lambda>(name, p). let r = so_objs s ! p
     in \<lparr>if_Name = name, if_Aliases = aliases_of s p, if_Last = sampleState (ir_last r),
         if_Fine = exportRing (ir_fine r), if_Medium = exportRing (ir_medium r), if_Coarse = exportRing (ir_coarse r)\<rparr>)"

definition store_Export :: "'f StatStore \<Rightarrow> 'f InterfaceState list" where
  "store_Export s = map (export_interface s) (so_rings s)"

definition import_rings :: "'f interfaceRings \<Rightarrow> 'f InterfaceState \<Rightarrow> 'f interfaceRings option" where
  "import_rings r is' = do {
     fine \<leftarrow> importRing (ir_fine r) (if_Fine is');
     medium \<leftarrow> importRing (ir_medium r) (if_Medium is');
     coarse \<leftarrow> importRing (ir_coarse r) (if_Coarse is');
     Some \<lparr>ir_fine = fine, ir_medium = medium, ir_coarse = coarse, ir_last = state_sample (if_Last is') (if_Name is')\<rparr>
   }"

text \<open>The outer \<open>None\<close> is the panic of a division by a resolution of zero.\<close>

definition import_interface :: "'f float_ops \<Rightarrow> 'f StatStore \<Rightarrow> 'f InterfaceState \<Rightarrow> 'f StatStore option" where
  "import_interface F s is' = do {
     r \<leftarrow> newInterfaceRings F (so_config s);
     case import_rings r is' of
       None \<Rightarrow> Some s
     | Some r' \<Rightarrow>
         let p = length (so_objs s)
         in Some (s\<lparr>so_objs := so_objs s @ [r'], so_rings := gput (if_Name is') p (so_rings s),
                    so_byAlias := add_aliases p (if_Name is') (if_Aliases is') (so_byAlias s)\<rparr>)
   }"

fun import_interfaces :: "'f float_ops \<Rightarrow> 'f StatStore \<Rightarrow> 'f InterfaceState list \<Rightarrow> 'f StatStore option" where
  "import_interfaces F s [] = Some s"
| "import_interfaces F s (x # xs) = do { s' \<leftarrow> import_interface F s x; import_interfaces F s' xs }"

definition store_Import :: "'f float_ops \<Rightarrow> 'f StatStore \<Rightarrow> 'f InterfaceState list \<Rightarrow> 'f StatStore option" where
  "store_Import F s st = map_option (recomputeTotal F) (import_interfaces F s st)"

section \<open>Restart\<close>

lemma import_export_ring:
  assumes "length (vr_slots x) = length (vr_slots y)" and "vr_resolution x = vr_resolution y"
  shows "importRing x (exportRing y) = Some y"
proof -
  have "map (\<lambda>s. \<lparr>vs_epoch = vs_epoch s, vs_count = vs_count s, vs_rates = vs_rates s\<rparr>) zs = zs" for zs :: "'a stat_slot list"
    by (rule map_idI) simp
  with assms show ?thesis by (simp add: importRing_def exportRing_def o_def)
qed

definition kept_rings :: "'f StatStore \<Rightarrow> string \<times> nat \<Rightarrow> 'f interfaceRings" where
  "kept_rings s = (\<lambda>(name, p). let r = so_objs s ! p in r\<lparr>ir_last := (ir_last r)\<lparr>vp_Name := name, vp_Aliases := []\<rparr>\<rparr>)"

lemma import_kept:
  assumes "rings_show F c t (so_objs s ! p) ys" and "rings_show F c t' r []"
  shows "import_rings r (export_interface s (name, p)) = Some (kept_rings s (name, p))"
proof -
  have same: "importRing x (exportRing y) = Some y" if "ring_shows F x res n t1 []" "ring_shows F y res n t2 ys" for x y res n t1 t2
    using that by (intro import_export_ring) (simp_all add: ring_shows_def)
  have "importRing (ir_fine r) (exportRing (ir_fine (so_objs s ! p))) = Some (ir_fine (so_objs s ! p))"
    "importRing (ir_medium r) (exportRing (ir_medium (so_objs s ! p))) = Some (ir_medium (so_objs s ! p))"
    "importRing (ir_coarse r) (exportRing (ir_coarse (so_objs s ! p))) = Some (ir_coarse (so_objs s ! p))"
    using assms by (auto simp: rings_show_def intro: same)
  then show ?thesis
    by (simp add: import_rings_def export_interface_def kept_rings_def Let_def state_sample_def sampleState_def)
qed

lemma alias_owner_ne: "foldl (alias_step a) None xs = Some n \<Longrightarrow> a \<noteq> '''' \<and> a \<noteq> n"
  by (induction xs rule: rev_induct) (auto simp: alias_step_def split: if_splits)

lemma import_interfaces_snoc:
  "import_interfaces F s (xs @ [x]) = do { s' \<leftarrow> import_interfaces F s xs; import_interface F s' x }"
  by (induction xs arbitrary: s) (auto split: bind_splits)

text \<open>What the store invariant says of the lists behind the two maps.\<close>

lemma store_lists:
  assumes "store_shows F c t s xs"
  shows "distinct (map fst (so_rings s))" "distinct (map snd (so_rings s))"
    "\<And>name p. (name, p) \<in> set (so_rings s) \<Longrightarrow> rings_show F c t (so_objs s ! p) (of_interface name xs)"
    "\<And>a p. map_of (so_byAlias s) a = Some p \<Longrightarrow> p \<in> snd ` set (so_rings s)"
    "\<And>a p name. map_of (so_byAlias s) a = Some p \<Longrightarrow> (name, p) \<in> set (so_rings s) \<Longrightarrow> a \<noteq> '''' \<and> a \<noteq> name"
    "\<And>a p. a \<in> set (aliases_of s p) \<longleftrightarrow> map_of (so_byAlias s) a = Some p"
proof -
  note s = assms [unfolded store_shows_def]
  show d: "distinct (map fst (so_rings s))" using s by blast
  have m: "map_of (so_rings s) name = Some p" if "(name, p) \<in> set (so_rings s)" for name p using d that by simp
  have uniq: "n = n'" if "map_of (so_rings s) n = Some p" "map_of (so_rings s) n' = Some p" for n n' p
  proof -
    have "inj_on (map_of (so_rings s)) (dom (map_of (so_rings s)))" using s by simp
    with that show ?thesis by (metis domI inj_onD)
  qed
  have "inj_on snd (set (so_rings s))"
  proof (rule inj_onI)
    fix x y assume xy: "x \<in> set (so_rings s)" "y \<in> set (so_rings s)" "snd x = snd y"
    have "fst x = fst y" by (rule uniq [of _ "snd x"]) (use m xy in \<open>metis prod.collapse\<close>)+
    with xy(3) show "x = y" by (simp add: prod_eq_iff)
  qed
  then show "distinct (map snd (so_rings s))" using d by (simp add: distinct_map)
  show "rings_show F c t (so_objs s ! p) (of_interface name xs)" if "(name, p) \<in> set (so_rings s)" for name p
    using s m [OF that] by blast
  have al: "map_of (so_byAlias s) a = Option.bind (foldl (alias_step a) None xs) (map_of (so_rings s))" for a using s by blast
  have own: "\<exists>n. foldl (alias_step a) None xs = Some n \<and> map_of (so_rings s) n = Some p" if "map_of (so_byAlias s) a = Some p" for a p
    using that unfolding al by (cases "foldl (alias_step a) None xs") auto
  show "p \<in> snd ` set (so_rings s)" if "map_of (so_byAlias s) a = Some p" for a p
    using own [OF that] by (force dest: map_of_SomeD)
  show "a \<noteq> '''' \<and> a \<noteq> name" if "map_of (so_byAlias s) a = Some p" "(name, p) \<in> set (so_rings s)" for a p name
    using own [OF that(1)] alias_owner_ne uniq [OF _ m [OF that(2)]] by metis
  show "a \<in> set (aliases_of s p) \<longleftrightarrow> map_of (so_byAlias s) a = Some p" for a p
  proof -
    have "gwf (so_byAlias s)" using s by blast
    then have "(a, p) \<in> set (so_byAlias s) \<longleftrightarrow> map_of (so_byAlias s) a = Some p" by simp
    then show ?thesis by (force simp: aliases_of_def)
  qed
qed

lemma import_prefix:
  assumes s: "store_shows F c t s xs" and c: "c = withDefaults c0"
  defines "L \<equiv> so_rings s"
  shows "n \<le> length L \<Longrightarrow> \<exists>s'. import_interfaces F (NewStore F c0) (map (export_interface s) (take n L)) = Some s' \<and>
    so_config s' = c \<and> so_objs s' = map (kept_rings s) (take n L) \<and> so_rings s' = zip (map fst (take n L)) [0..<n] \<and>
    (\<forall>a j. map_of (so_byAlias s') a = Some j \<longleftrightarrow> j < n \<and> map_of (so_byAlias s) a = Some (snd (L ! j)))"
proof (induction n)
  case 0
  then show ?case by (simp add: NewStore_def c)
next
  case (Suc n)
  then obtain s' where s': "import_interfaces F (NewStore F c0) (map (export_interface s) (take n L)) = Some s'"
    "so_config s' = c" "so_objs s' = map (kept_rings s) (take n L)" "so_rings s' = zip (map fst (take n L)) [0..<n]"
    "\<forall>a j. map_of (so_byAlias s') a = Some j \<longleftrightarrow> j < n \<and> map_of (so_byAlias s) a = Some (snd (L ! j))" by auto
  have n: "n < length L" using Suc.prems by simp
  obtain name p where np: "L ! n = (name, p)" by fastforce
  have mem: "(name, p) \<in> set (so_rings s)" using n np by (metis L_def nth_mem)
  note lists = store_lists [OF s]
  obtain r where r: "newInterfaceRings F c = Some r" "rings_show F c t r []"
    using newInterfaceRings_shows [of c F t] withDefaults_ok c by blast
  define s2 where "s2 = s'\<lparr>so_objs := so_objs s' @ [kept_rings s (name, p)], so_rings := gput name n (so_rings s'),
     so_byAlias := add_aliases n name (aliases_of s p) (so_byAlias s')\<rparr>"
  have step: "import_interface F s' (export_interface s (name, p)) = Some s2"
    using r s'(2,3) n import_kept [OF lists(3) [OF mem] r(2), of name]
    by (simp add: import_interface_def Let_def s2_def) (simp add: export_interface_def Let_def)
  have take: "take (Suc n) L = take n L @ [(name, p)]" using n np by (simp add: take_Suc_conv_app_nth)
  have "name \<notin> set (map fst (take n L))"
  proof -
    have "distinct (take (Suc n) (map fst L))" using lists(1) by (simp add: L_def)
    then show ?thesis using take by (simp add: take_map)
  qed
  then have "name \<notin> fst ` set (zip (map fst (take n L)) [0..<n])" by (auto dest: set_zip_leftD)
  then have rings: "so_rings s2 = zip (map fst (take (Suc n) L)) [0..<Suc n]"
    using s'(4) n take by (simp add: s2_def gput_new zip_append)
  have al: "map_of (so_byAlias s2) a = Some j \<longleftrightarrow> j < Suc n \<and> map_of (so_byAlias s) a = Some (snd (L ! j))" for a j
  proof (cases "map_of (so_byAlias s) a = Some p")
    case True
    then have "a \<in> set (aliases_of s p) \<and> a \<noteq> '''' \<and> a \<noteq> name" using lists(5) [OF True mem] lists(6) by blast
    moreover have "snd (L ! j) = p \<longleftrightarrow> j = n" if "j < Suc n"
      using that n np lists(2) nth_eq_iff_index_eq [of "map snd L" j n] by (auto simp: L_def)
    ultimately show ?thesis using True by (auto simp: s2_def add_aliases_lookup)
  next
    case False
    then have "a \<notin> set (aliases_of s p)" using lists(6) by blast
    with False s'(5) np show ?thesis by (auto simp: s2_def add_aliases_lookup less_Suc_eq)
  qed
  show ?case using s' step np take rings al by (auto simp: import_interfaces_snoc s2_def)
qed

lemma so_total_adds: "store_adds F (NewStore F c0) xs = Some s \<Longrightarrow> so_total (recomputeTotal F s) = so_total s"
proof (induction xs arbitrary: s rule: rev_induct)
  case Nil
  then show ?case by (auto simp: NewStore_def recomputeTotal_def)
next
  case (snoc x xs)
  then show ?case by (auto simp: store_adds_snoc store_Add_def recomputeTotal_def Option.bind_eq_Some_conv)
qed

text \<open>A restored store finds the same interface, by name or by alias.\<close>

lemma find_restored:
  assumes s: "store_shows F c t s xs" and r: "so_rings s' = zip (map fst (so_rings s)) [0..<length (so_rings s)]"
    and a: "\<forall>a j. map_of (so_byAlias s') a = Some j \<longleftrightarrow> j < length (so_rings s) \<and> map_of (so_byAlias s) a = Some (snd (so_rings s ! j))"
  shows "(findRing s' key = None \<and> findRing s key = None) \<or>
    (\<exists>j < length (so_rings s). findRing s' key = Some j \<and> findRing s key = Some (snd (so_rings s ! j)))"
proof -
  let ?L = "so_rings s"
  note lists = store_lists [OF s]
  have "distinct (map fst (so_rings s'))" using lists(1) r by simp
  then have name': "map_of (so_rings s') key = Some j \<longleftrightarrow> j < length ?L \<and> fst (?L ! j) = key" for key j
    unfolding r using lists(1) by (auto simp: in_set_zip intro: exI [of _ j])
  show ?thesis
  proof (cases "map_of ?L key")
    case (Some p)
    then obtain j where "j < length ?L" "?L ! j = (key, p)" by (metis map_of_SomeD in_set_conv_nth)
    with Some name' [of key j] show ?thesis by (auto simp: findRing_def)
  next
    case None
    then have "key \<notin> fst ` set ?L" by (simp add: map_of_eq_None_iff)
    then have none: "map_of (so_rings s') key = None" using name' [of key] by (metis image_eqI not_Some_eq nth_mem)
    show ?thesis
    proof (cases "map_of (so_byAlias s) key")
      case (Some p)
      with lists(4) obtain j where "j < length ?L" "snd (?L ! j) = p" by (metis in_set_conv_nth image_iff)
      with a Some None none show ?thesis by (auto simp: findRing_def)
    next
      case None': None
      then have "map_of (so_byAlias s') key = None" using a by (metis not_Some_eq option.distinct(1))
      with None None' none show ?thesis by (simp add: findRing_def)
    qed
  qed
qed

lemma findRing_recompute [simp]: "findRing (recomputeTotal F s) key = findRing s key"
  by (simp add: findRing_def cong: option.case_cong)

lemma kept_rings_same:
  "rates (ir_last (kept_rings s x)) = rates (ir_last (so_objs s ! snd x))"
  "rings_choose (kept_rings s x) w off = rings_choose (so_objs s ! snd x) w off"
  by (simp_all add: kept_rings_def rates_def rings_choose_def Let_def case_prod_beta)

text \<open>
  C36: A restart loses no statistics: after any samples in time order, importing the exported
  state into a new store of the same configuration gives a store that answers every lookup of rates
  and of windows, by interface name and by alias, as the old store did, and has the same total (the
  sum over the interfaces in the same order).
\<close>

theorem stats_restart:
  assumes xs: "sorted (map vp_At xs)" "list_all (\<lambda>x. 0 \<le> vp_At x \<and> vp_At x \<le> now) xs" "now < 2 ^ 63"
    and run: "store_adds F (NewStore F c0) xs = Some s"
  shows "\<exists>s'. store_Import F (NewStore F c0) (store_Export s) = Some s' \<and> TotalRates s' = TotalRates s \<and>
    (\<forall>key. InterfaceRates s' key = InterfaceRates s key) \<and>
    (\<forall>key at' w off peak. InterfaceWindow F s' key at' w off peak = InterfaceWindow F s key at' w off peak)"
proof -
  let ?L = "so_rings s"
  from store_adds_shows [OF xs, of F c0] run have s: "store_shows F (withDefaults c0) now s xs" by auto
  from import_prefix [OF s refl, of "length ?L"] obtain s1 where
    s1: "import_interfaces F (NewStore F c0) (store_Export s) = Some s1" "so_objs s1 = map (kept_rings s) ?L"
    "so_rings s1 = zip (map fst ?L) [0..<length ?L]"
    "\<forall>a j. map_of (so_byAlias s1) a = Some j \<longleftrightarrow> j < length ?L \<and> map_of (so_byAlias s) a = Some (snd (?L ! j))"
    by (auto simp: store_Export_def)
  have obj: "so_objs s1 ! j = kept_rings s (?L ! j)" if "j < length ?L" for j using s1(2) that by simp
  note find = find_restored [OF s s1(3,4)]
  have "foldl (\<lambda>t (name, p). addRates F t (rates (ir_last (so_objs s1 ! p)))) z (so_rings s1) =
      foldl (\<lambda>t (name, p). addRates F t (rates (ir_last (so_objs s ! p)))) z ?L" for z
  proof -
    have "map (\<lambda>(name, p). rates (ir_last (so_objs s1 ! p))) (so_rings s1) = map (\<lambda>(name, p). rates (ir_last (so_objs s ! p))) ?L"
      by (rule nth_equalityI) (simp_all add: s1(3) obj kept_rings_same case_prod_beta)
    then have "foldl (addRates F) z (map (\<lambda>(name, p). rates (ir_last (so_objs s1 ! p))) (so_rings s1)) =
        foldl (addRates F) z (map (\<lambda>(name, p). rates (ir_last (so_objs s ! p))) ?L)" by simp
    then show ?thesis by (simp add: foldl_map split_def)
  qed
  then have "TotalRates (recomputeTotal F s1) = TotalRates s"
    using so_total_adds [OF run] by (simp add: TotalRates_def recomputeTotal_def)
  moreover have "InterfaceRates (recomputeTotal F s1) key = InterfaceRates s key" for key
    using find [of key] by (auto simp: InterfaceRates_def obj kept_rings_same)
  moreover have "InterfaceWindow F (recomputeTotal F s1) key at' w off peak = InterfaceWindow F s key at' w off peak" for key at' w off peak
    using find [of key] by (auto simp: InterfaceWindow_def obj kept_rings_same)
  ultimately show ?thesis using s1(1) by (simp add: store_Import_def)
qed

theorem stats_restart_witness:
  "\<exists>s s'. store_adds real_ops (NewStore real_ops default_rings) two_polls = Some s \<and>
     store_Import real_ops (NewStore real_ops default_rings) (store_Export s) = Some s' \<and> TotalRates s' = TotalRates s"
proof -
  have xs: "sorted (map vp_At two_polls)" "list_all (\<lambda>x. 0 \<le> vp_At x \<and> vp_At x \<le> 1700000002 * second) two_polls"
    "1700000002 * second < 2 ^ 63" by (simp_all add: two_polls_def second_def)
  from store_adds_shows [OF xs, of real_ops default_rings] obtain s where
    s: "store_adds real_ops (NewStore real_ops default_rings) two_polls = Some s" by blast
  from stats_restart [OF xs s] s show ?thesis by blast
qed

end
