(* ===== verification/NetipText.thy ===== *)
theory NetipText
  imports NetipParse
begin

text \<open>
  The text of an address or of a prefix is parsed back to it: \<^verbatim>\<open>ParseAddr\<close> and \<^verbatim>\<open>ParsePrefix\<close> invert
  \<^verbatim>\<open>String\<close>, for dotted quads, for IPv6 with and without an ellipsis, and for mapped addresses.
\<close>

section \<open>Digits\<close>

text \<open>The digits of a number, most significant first, give the number back.\<close>

lemma horner_digits:
  "foldl (\<lambda>a d. a * b + d) 0 (map (\<lambda>i. (n :: nat) div b ^ (k - 1 - i) mod b) [0..<k]) = n mod b ^ k"
proof (induction k arbitrary: n)
  case (Suc k)
  have m: "map (\<lambda>i. n div b ^ (Suc k - 1 - i) mod b) [0..<k] = map (\<lambda>i. n div b div b ^ (k - 1 - i) mod b) [0..<k]"
  proof (rule map_cong [OF refl])
    fix i assume "i \<in> set [0..<k]"
    then have "Suc k - 1 - i = Suc (k - 1 - i)" by auto
    then show "n div b ^ (Suc k - 1 - i) mod b = n div b div b ^ (k - 1 - i) mod b" by (simp add: div_mult2_eq)
  qed
  have l: "map (\<lambda>i. n div b ^ (Suc k - 1 - i) mod b) [0..<Suc k] = map (\<lambda>i. n div b div b ^ (k - 1 - i) mod b) [0..<k] @ [n mod b]"
    unfolding upt_Suc_append [OF le0] map_append m by simp
  have "foldl (\<lambda>a d. a * b + d) 0 (map (\<lambda>i. n div b ^ (Suc k - 1 - i) mod b) [0..<Suc k]) = (n div b mod b ^ k) * b + n mod b"
    unfolding l foldl_append foldl.simps Suc.IH ..
  also have "\<dots> = n mod b ^ Suc k" by (simp add: mod_mult2_eq mult.commute)
  finally show ?case .
qed simp

lemma foldl_of_nat:
  "foldl (\<lambda>a d. a * of_nat b + of_nat d) (of_nat n) ds = (of_nat (foldl (\<lambda>a d. a * b + d) n ds) :: 'a :: len word)"
proof (induction ds arbitrary: n)
  case (Cons d ds)
  from Cons.IH [of "n * b + d"] show ?case by simp
qed simp

lemma word_digit: "unat (ucast (drop_bit m x) :: 'b :: len word) = unat (x :: 'a :: len word) div 2 ^ m mod 2 ^ LENGTH('b)"
proof -
  have "unat (drop_bit m x) = unat x div 2 ^ m" by (rule trans [OF unat_drop_bit_eq drop_bit_eq_div])
  then show ?thesis by (simp only: unsigned_ucast_eq take_bit_eq_mod)
qed

lemma pow_digit: "(2 ^ c) ^ j = (2 :: nat) ^ (c * j)"
  by (simp add: power_mult)

lemma of_bytes4_bytes4: "of_bytes4 (bytes4 x) = x"
proof -
  have "bytes4 x = map (\<lambda>i. unat x div 256 ^ (4 - 1 - i) mod 256) [0..<4]"
    unfolding bytes4_def word_digit
    using pow_digit [of 8] by (intro map_cong [OF refl]) (simp add: diff_mult_distrib2)
  then have "of_bytes4 (bytes4 x) = word_of_nat (unat x mod 256 ^ 4)"
    using foldl_of_nat [of 256 0 "bytes4 x"] horner_digits [of 256 "unat x" 4] by (simp add: of_bytes4_def)
  moreover have "unat x < 2 ^ LENGTH(32)" by (rule unsigned_less)
  ultimately show ?thesis by simp
qed

lemma of_groups6_groups6: "of_groups6 (groups6 x) = x"
proof -
  have "groups6 x = map (\<lambda>i. unat x div 65536 ^ (8 - 1 - i) mod 65536) [0..<8]"
    unfolding groups6_def word_digit
    using pow_digit [of 16] by (intro map_cong [OF refl]) (simp add: diff_mult_distrib2)
  then have "of_groups6 (groups6 x) = word_of_nat (unat x mod 65536 ^ 8)"
    using foldl_of_nat [of 65536 0 "groups6 x"] horner_digits [of 65536 "unat x" 8] by (simp add: of_groups6_def)
  moreover have "unat x < 2 ^ LENGTH(128)" by (rule unsigned_less)
  ultimately show ?thesis by simp
qed

lemma length_radix: "2 \<le> b \<Longrightarrow> n < b ^ k \<Longrightarrow> 0 < k \<Longrightarrow> length (radix b n) \<le> k"
proof (induction b n arbitrary: k rule: radix.induct)
  case (1 b n)
  show ?case
  proof (cases "n < b")
    case True
    then show ?thesis using 1 by (simp add: radix.simps [of b n])
  next
    case False
    with 1 obtain j where k: "k = Suc j" "0 < j" by (cases k; cases "k - 1") auto
    with 1 False have "n div b < b ^ j" by (simp add: div_less_iff_less_mult mult.commute)
    with 1 False k show ?thesis by (simp add: radix.simps [of b n])
  qed
qed

lemma hd_radix: "2 \<le> b \<Longrightarrow> b \<le> 16 \<Longrightarrow> 0 < n \<Longrightarrow> hd (radix b n) \<noteq> CHR ''0''"
proof (induction b n rule: radix.induct)
  case (1 b n)
  show ?case
  proof (cases "n < b")
    case True
    then have "hexval (hexdigit n) = n" using 1 by (simp add: hexval_hexdigit)
    moreover have "hexval (CHR ''0'') = 0" by (simp add: hexval_def)
    ultimately have "hexdigit n \<noteq> CHR ''0''" using 1 by (metis less_irrefl)
    then show ?thesis using True by (simp add: radix.simps [of b n])
  next
    case False
    with 1 have "0 < n div b" by (simp add: div_greater_zero_iff)
    with 1 False show ?thesis by (simp add: radix.simps [of b n])
  qed
qed

section \<open>Decimal numbers\<close>

lemma hexdigit_digit: "n < 10 \<Longrightarrow> is_digit (hexdigit n)"
proof -
  assume "n < 10"
  then have "n \<in> {0, 1, 2, 3, 4, 5, 6, 7, 8, 9}" by auto
  then show ?thesis by (auto simp: is_digit_def hexdigit_def less_eq_char_def)
qed

lemma dec_digits_text: "list_all is_digit (dec n)"
  unfolding dec_def
proof (induction "10 :: nat" n rule: radix.induct)
  case (1 n)
  then show ?case by (cases "n < 10") (simp_all add: radix.simps [of 10 n] hexdigit_digit)
qed

lemma dec_no_zero: "length (dec n) = 1 \<or> hd (dec n) \<noteq> CHR ''0''"
  unfolding dec_def using hd_radix [of 10 n] by (cases "n = 0") (simp_all add: radix.simps [of 10 0])

lemma unradix_dec: "unradix 10 (dec n) = n"
  by (simp add: dec_def unradix_radix)

lemma parse_octet_dec: "n \<le> 255 \<Longrightarrow> parse_octet (dec n) = Some n"
  using dec_no_zero [of n] by (simp add: parse_octet_def dec_digits_text unradix_dec)

lemma parse_bits_dec: "parse_bits (dec n) = Some (int n)"
  using dec_no_zero [of n] by (simp add: parse_bits_def dec_digits_text unradix_dec)

lemma bytes4_le: "n \<in> set (bytes4 x) \<Longrightarrow> n \<le> 255"
  by (auto simp: bytes4_def less_Suc_eq_le [symmetric])

lemma parseIPv4Fields_string4: "parseIPv4Fields (string4 x) = Some (bytes4 x)"
proof -
  have "split_on (CHR ''.'') (string4 x) = map dec (bytes4 x)"
    unfolding string4_def by (rule split_on_join [OF _ no_sep_dec]) (auto simp: bytes4_def)
  moreover have "map (\<lambda>n. parse_octet (dec n)) (bytes4 x) = map Some (bytes4 x)"
    by (rule map_cong [OF refl]) (simp add: parse_octet_dec bytes4_le)
  ultimately have "map parse_octet (split_on (CHR ''.'') (string4 x)) = map Some (bytes4 x)" by (simp add: o_def)
  moreover have "map the (map Some (bytes4 x)) = bytes4 x" by (simp add: o_def)
  ultimately show ?thesis by (simp add: parseIPv4Fields_def del: map_map)
qed

section \<open>Groups\<close>

lemma hexchars_hexdigit: "c \<in> hexchars \<Longrightarrow> is_hexdigit c \<and> hexval_any c = hexval c"
  by (auto simp: hexchars_def is_hexdigit_def is_digit_def hexval_any_def less_eq_char_def)

lemma unhex_any_hex: "unhex_any (hex n) = n"
proof -
  have "set s \<subseteq> hexchars \<Longrightarrow> foldl (\<lambda>a c. a * 16 + hexval_any c) m s = foldl (\<lambda>a c. a * 16 + hexval c) m s" for s m
    by (induction s arbitrary: m) (simp_all add: hexchars_hexdigit)
  moreover have "set (hex n) \<subseteq> hexchars" using hex_chars by blast
  ultimately show ?thesis using unradix_hex [of n] by (simp add: unhex_any_def unradix_def)
qed

lemma length_hex: "n < 65536 \<Longrightarrow> length (hex n) \<le> 4"
  unfolding hex_def by (rule length_radix) simp_all

lemma takeWhile_hexdigits:
  assumes "set h \<subseteq> hexchars" and "rest = [] \<or> \<not> is_hexdigit (hd rest)"
  shows "takeWhile is_hexdigit (h @ rest) = h" "dropWhile is_hexdigit (h @ rest) = rest"
proof -
  have "\<forall>c\<in>set h. is_hexdigit c" using assms(1) hexchars_hexdigit by blast
  with assms(2) show "takeWhile is_hexdigit (h @ rest) = h" "dropWhile is_hexdigit (h @ rest) = rest"
    by (cases rest; simp add: takeWhile_append2 dropWhile_append2)+
qed

lemma set_hex: "set (hex n) \<subseteq> hexchars" and set_dec: "set (dec n) \<subseteq> hexchars"
  using hex_chars dec_chars by blast+

lemma colon_not_hexdigit: "\<not> is_hexdigit (CHR '':'')" "\<not> is_hexdigit (CHR ''.'')"
  by (simp_all add: is_hexdigit_def is_digit_def less_eq_char_def)

lemma groups_text_Cons: "groups_text (n # ns) = hex n @ (if ns = [] then [] else CHR '':'' # groups_text ns)"
  by (cases ns) (simp_all add: groups_text_def)

lemma hd_groups_text: "ns \<noteq> [] \<Longrightarrow> hd (groups_text ns @ s) \<noteq> CHR '':'' \<and> groups_text ns \<noteq> []"
proof -
  assume "ns \<noteq> []"
  then obtain n ns' where ns: "ns = n # ns'" by (cases ns) auto
  obtain c h where "hex n = c # h" by (cases "hex n") auto
  moreover from this have "c \<in> hexchars" using set_hex [of n] by auto
  ultimately show ?thesis by (auto simp: ns groups_text_Cons)
qed

text \<open>One group of the loop.\<close>

lemma v6_loop_group:
  assumes "length acc < 8" and "n < 65536" and "rest = [] \<or> hd rest = CHR '':''"
  shows "v6_loop acc ell (hex n @ rest) =
    (case rest of
       [] \<Rightarrow> Some (acc @ [n], ell)
     | c # s1 \<Rightarrow>
         if s1 = [] then None
         else if hd s1 = CHR '':'' then
           if ell \<noteq> None then None
           else if tl s1 = [] then Some (acc @ [n], Some (length acc + 1))
           else v6_loop (acc @ [n]) (Some (length acc + 1)) (tl s1)
         else v6_loop (acc @ [n]) ell s1)"
proof -
  have r: "rest = [] \<or> \<not> is_hexdigit (hd rest)" using assms(3) colon_not_hexdigit by auto
  note tw = takeWhile_hexdigits [OF set_hex r, of n]
  from assms length_hex [of n] show ?thesis
    by (subst v6_loop.simps) (auto simp: tw unhex_any_hex Let_def split: list.splits)
qed

lemma v6_loop_groups:
  "ns \<noteq> [] \<Longrightarrow> length acc + length ns \<le> 8 \<Longrightarrow> \<forall>n\<in>set ns. n < 65536 \<Longrightarrow> v6_loop acc ell (groups_text ns) = Some (acc @ ns, ell)"
proof (induction ns arbitrary: acc)
  case (Cons n ns)
  then show ?case
    using hd_groups_text [of ns "[]"] v6_loop_group [of acc n "[]" ell]
    by (cases "ns = []") (auto simp: groups_text_Cons v6_loop_group)
qed simp

lemma v6_loop_ellipsis:
  "as \<noteq> [] \<Longrightarrow> length acc + length as + length bs < 8 \<Longrightarrow> \<forall>n\<in>set as \<union> set bs. n < 65536 \<Longrightarrow>
   v6_loop acc None (groups_text as @ ''::'' @ groups_text bs) = Some (acc @ as @ bs, Some (length acc + length as))"
proof (induction as arbitrary: acc)
  case (Cons n as)
  show ?case
  proof (cases "as = []")
    case True
    with Cons.prems hd_groups_text [of bs "[]"] show ?thesis
      by (cases "bs = []") (auto simp: groups_text_Cons v6_loop_group v6_loop_groups, simp add: groups_text_def)
  next
    case False
    with Cons hd_groups_text [of as "''::'' @ groups_text bs"] show ?thesis by (auto simp: groups_text_Cons v6_loop_group)
  qed
qed simp

section \<open>Addresses\<close>

lemma groups6_less: "n \<in> set (groups6 x) \<Longrightarrow> n < 65536"
  by (auto simp: groups6_def)

lemma take2_groups: "ns \<noteq> [] \<Longrightarrow> take 2 (groups_text ns @ s) \<noteq> ''::''"
proof -
  assume "ns \<noteq> []"
  with hd_groups_text [of ns s] have "hd (groups_text ns @ s) \<noteq> CHR '':''" by blast
  then show ?thesis by (cases "groups_text ns @ s") auto
qed

lemma parseIPv6_ellipsis:
  assumes "as \<noteq> []" and "length as + length bs < 8" and "\<forall>n\<in>set as \<union> set bs. n < 65536"
  shows "parseIPv6 (groups_text as @ ''::'' @ groups_text bs) =
    Some (Addr6 (of_groups6 (as @ replicate (8 - (length as + length bs)) 0 @ bs)))"
proof -
  let ?s = "groups_text as @ ''::'' @ groups_text bs"
  have "take 2 ?s \<noteq> ''::''" by (rule take2_groups [OF assms(1)])
  moreover have "?s \<noteq> ''::''" using hd_groups_text [OF assms(1), of "[]"] by (auto dest!: arg_cong [of _ _ length])
  moreover have "v6_loop [] None ?s = Some (as @ bs, Some (length as))" using v6_loop_ellipsis [of as "[]" bs] assms by simp
  ultimately show ?thesis using assms(2) by (simp add: parseIPv6_def expand6_def)
qed

lemma parseIPv6_string6: "parseIPv6 (string6 x) = Some (Addr6 x)"
proof (cases "fst (zero_run (groups6 x)) = 255")
  case True
  have ne: "groups6 x \<noteq> []" using length_groups6 [of x] by (metis list.size(3) zero_neq_numeral)
  have loop: "v6_loop [] None (groups_text (groups6 x)) = Some (groups6 x, None)"
    using v6_loop_groups [OF ne, of "[]" None] groups6_less by simp
  have "groups_text (groups6 x) \<noteq> ''::''" "take 2 (groups_text (groups6 x)) \<noteq> ''::''"
    using take2_groups [OF ne, of "[]"] by auto
  with True loop show ?thesis by (simp add: string6_def Let_def parseIPv6_def expand6_def of_groups6_groups6)
next
  case False
  let ?gs = "groups6 x" and ?r = "zero_run (groups6 x)"
  define a where "a = take (fst ?r) ?gs"
  define b where "b = drop (snd ?r) ?gs"
  from zero_run_ok [of ?gs] False have r: "fst ?r \<le> snd ?r" "snd ?r \<le> 8" "?gs = a @ replicate (snd ?r - fst ?r) 0 @ b"
    by (simp_all add: zero_run_ok_def a_def b_def)
  have pos: "0 < snd ?r - fst ?r"
  proof -
    have step: "fst r = 255 \<or> fst r < snd r \<Longrightarrow> fst (zero_run_step gs r i) = 255 \<or> fst (zero_run_step gs r i) < snd (zero_run_step gs r i)"
      for r gs i by (auto simp: zero_run_step_def Let_def)
    have "fst r = 255 \<or> fst r < snd r \<Longrightarrow> fst (foldl (zero_run_step gs) r is) = 255 \<or>
        fst (foldl (zero_run_step gs) r is) < snd (foldl (zero_run_step gs) r is)" for r gs "is"
    proof (induction "is" arbitrary: r)
      case (Cons i "is")
      from Cons.IH [OF step [OF Cons.prems]] show ?case by simp
    qed simp
    from this [of "(255, 255)" ?gs "[0..<8]"] False show ?thesis by (simp add: zero_run_def)
  qed
  have len: "length a = fst ?r" "length b = 8 - snd ?r" using r(1,2) by (simp_all add: a_def b_def)
  then have fill: "a @ replicate (8 - (length a + length b)) 0 @ b = ?gs" "length a + length b < 8"
    using r pos by simp_all
  have small: "\<forall>n\<in>set a \<union> set b. n < 65536"
    using groups6_less [of _ x] by (auto simp: a_def b_def dest: in_set_takeD in_set_dropD)
  have s: "string6 x = groups_text a @ ''::'' @ groups_text b" using False by (simp add: string6_def Let_def a_def b_def)
  have exp: "expand6 (a @ b, Some (length a)) = Some ?gs" using fill by (simp add: expand6_def)
  show ?thesis
  proof (cases "a = []")
    case True
    show ?thesis
    proof (cases "b = []")
      case bn: True
      have "of_groups6 (replicate 8 0) = 0" by (simp add: of_groups6_def eval_nat_numeral)
      moreover have "?gs = replicate 8 0" using fill(1) True bn by simp
      ultimately have "x = 0" using of_groups6_groups6 [of x] by simp
      then show ?thesis using s True bn by (simp add: parseIPv6_def groups_text_def)
    next
      case False
      then have "v6_loop [] (Some 0) (groups_text b) = Some (b, Some 0)"
        using v6_loop_groups [of b "[]"] fill(2) small by simp
      with s True False hd_groups_text [of b "[]"] exp show ?thesis
        by (simp add: parseIPv6_def groups_text_def [of "[]"] of_groups6_groups6)
    qed
  next
    case False
    have "v6_loop [] None (string6 x) = Some (a @ b, Some (length a))"
      using v6_loop_ellipsis [OF False, of "[]" b] fill(2) small s by simp
    moreover have "take 2 (string6 x) \<noteq> ''::''" using take2_groups [OF False] s by simp
    moreover from this have "string6 x \<noteq> ''::''" by auto
    ultimately show ?thesis using exp by (simp add: parseIPv6_def of_groups6_groups6)
  qed
qed

text \<open>A mapped address: the last two groups are read as a dotted quad.\<close>

lemma string4_split: "\<exists>n rest. string4 x = dec n @ CHR ''.'' # rest \<and> n \<le> 255"
proof -
  obtain n m ns where b: "bytes4 x = n # m # ns" using length_bytes4 [of x]
    by (cases "bytes4 x"; cases "tl (bytes4 x)") auto
  then show ?thesis using bytes4_le [of n x] by (auto simp: string4_def)
qed

lemma bytes4_groups: "bytes4 x = [a, b, c, d] \<Longrightarrow> Is4In6 y \<Longrightarrow> ucast y = x \<Longrightarrow> groups6 y = replicate 5 0 @ [65535, a * 256 + b, c * 256 + d]"
proof -
  assume bs: "bytes4 x = [a, b, c, d]" and y: "Is4In6 y" "ucast y = x"
  have n: "unat x = unat y mod 2 ^ 32" using y(2) by (simp add: unsigned_ucast_eq take_bit_eq_mod flip: y(2))
  have hi: "unat y div 2 ^ 32 = 65535"
  proof -
    have "unat (drop_bit 32 y) = unat y div 2 ^ 32" by (rule trans [OF unat_drop_bit_eq drop_bit_eq_div])
    with y(1) show ?thesis by (simp add: Is4In6_def)
  qed
  define l where "l = unat x"
  have l: "unat y = 65535 * 2 ^ 32 + l" "l < 2 ^ 32"
    using div_mult_mod_eq [of "unat y" "2 ^ 32", unfolded hi] n by (simp_all only: l_def mod_less_divisor zero_less_power zero_less_numeral)
  have x: "unat x = l" by (simp add: l_def)
  have u: "[0..<4] = [0, 1, 2, 3 :: nat]" "[0..<8] = [0, 1, 2, 3, 4, 5, 6, 7 :: nat]" by (simp_all add: upt_rec)
  have "bytes4 x = [l div 2 ^ 24 mod 256, l div 2 ^ 16 mod 256, l div 2 ^ 8 mod 256, l mod 256]"
    unfolding bytes4_def u list.map word_digit x by simp
  then have abcd: "a = l div 2 ^ 24 mod 256" "b = l div 2 ^ 16 mod 256" "c = l div 2 ^ 8 mod 256" "d = l mod 256"
    using bs by simp_all
  have e1: "l div 2 ^ 24 = l div 2 ^ 16 div 256" by (simp add: div_mult2_eq [symmetric])
  have e2: "l mod 2 ^ 16 = 256 * (l div 2 ^ 8 mod 256) + l mod 256" using mod_mult2_eq [of l 256 256] by simp
  have e3: "l div 2 ^ 16 div 256 mod 256 = l div 2 ^ 16 div 256" using l(2) by (simp add: div_mult2_eq [symmetric])
  have "a * 256 + b = l div 2 ^ 16" unfolding abcd(1,2) e1 e3 by (rule div_mult_mod_eq)
  moreover have "c * 256 + d = l mod 2 ^ 16" unfolding abcd(3,4) e2 by (simp only: mult.commute)
  moreover have "groups6 y = replicate 5 0 @ [65535, l div 2 ^ 16, l mod 2 ^ 16]"
  proof -
    have z: "unat y div 2 ^ k = 0" if "48 \<le> k" for k
    proof -
      have "unat y < 2 ^ 48" using l by simp
      also have "\<dots> \<le> 2 ^ k" using that by (rule power_increasing) simp
      finally show ?thesis by simp
    qed
    have "unat y div 2 ^ 16 = 65535 * 65536 + l div 2 ^ 16" using l(1) div_mult_self1 [of 65536 l "65535 * 65536"] by (simp add: add.commute)
    moreover have "l div 2 ^ 16 < 65536" using l(2) by (simp add: div_less_iff_less_mult)
    ultimately have g6: "unat y div 2 ^ 16 mod 65536 = l div 2 ^ 16" using mod_mult_self1 [of "l div 2 ^ 16" 65535 65536] by (simp add: add.commute)
    have g7: "unat y mod 65536 = l mod 65536" using l(1) mod_mult_self1 [of l "65535 * 65536" 65536] by (simp add: add.commute)
    have r5: "replicate 5 0 = [0, 0, 0, 0, 0 :: nat]" by (simp add: numeral_eq_Suc)
    show ?thesis unfolding groups6_def u list.map word_digit r5 using z [of 112] z [of 96] z [of 80] z [of 64] z [of 48] hi g6 g7 by simp
  qed
  ultimately show ?thesis by simp
qed

lemma parseIPv6_mapped:
  assumes "Is4In6 y"
  shows "parseIPv6 (''::ffff:'' @ string4 (ucast y)) = Some (Addr6 y)"
proof -
  let ?x = "ucast y :: u32"
  obtain a b c d where bs: "bytes4 ?x = [a, b, c, d]"
    using length_bytes4 [of ?x] by (cases "bytes4 ?x"; cases "tl (bytes4 ?x)"; cases "tl (tl (bytes4 ?x))"; cases "tl (tl (tl (bytes4 ?x)))") auto
  obtain n rest where s: "string4 ?x = dec n @ CHR ''.'' # rest" "n \<le> 255" using string4_split by blast
  have "length (dec n) \<le> 3" unfolding dec_def using s(2) by (intro length_radix) simp_all
  moreover note tw = takeWhile_hexdigits [OF set_dec, of "CHR ''.'' # rest" n]
  ultimately have "v6_loop [65535] (Some 0) (string4 ?x) = Some ([65535, a * 256 + b, c * 256 + d], Some 0)"
    using bs parseIPv4Fields_string4 [of ?x] colon_not_hexdigit
    by (subst v6_loop.simps) (simp add: s(1) Let_def)
  moreover have "v6_loop [] (Some 0) (''ffff:'' @ string4 ?x) = v6_loop [65535] (Some 0) (string4 ?x)"
  proof -
    obtain ch t where t: "string4 ?x = ch # t" "ch \<in> hexchars"
      using s(1) set_dec [of n] by (cases "dec n") auto
    have "hex 65535 = ''ffff''" by (simp add: hex_def radix.simps hexdigit_def)
    with t v6_loop_group [of "[]" 65535 "CHR '':'' # string4 ?x" "Some 0"] show ?thesis by auto
  qed
  moreover have "of_groups6 (replicate 5 0 @ [65535, a * 256 + b, c * 256 + d]) = y"
    using bytes4_groups [OF bs assms refl] of_groups6_groups6 [of y] by simp
  ultimately show ?thesis by (simp add: parseIPv6_def expand6_def)
qed

lemma dropWhile_first:
  "set s \<subseteq> insert sep hexchars \<Longrightarrow> sep \<in> set s \<Longrightarrow> sep \<in> {CHR ''.'', CHR '':''} \<Longrightarrow>
   \<exists>t. dropWhile (\<lambda>c. c \<noteq> CHR ''.'' \<and> c \<noteq> CHR '':'' \<and> c \<noteq> CHR ''%'') s = sep # t"
proof (induction s)
  case (Cons c s)
  then show ?case by (cases "c = sep") (auto simp: hexchars_def)
qed simp

theorem ParseAddr_String: "addr_IsValid a \<Longrightarrow> ParseAddr (addr_String a) = Some a"
proof (cases a)
  case (Addr4 x)
  from dropWhile_first [OF set_string4 dot_in_string4, of x] obtain t where
    "dropWhile (\<lambda>c. c \<noteq> CHR ''.'' \<and> c \<noteq> CHR '':'' \<and> c \<noteq> CHR ''%'') (string4 x) = CHR ''.'' # t" by auto
  with Addr4 show ?thesis by (simp add: ParseAddr_def parseIPv4Fields_string4 of_bytes4_bytes4)
next
  case (Addr6 x)
  show ?thesis
  proof (cases "Is4In6 x")
    case True
    with Addr6 parseIPv6_mapped [OF True] show ?thesis by (simp add: ParseAddr_def)
  next
    case False
    from dropWhile_first [OF set_string6 colon_in_string6, of x] obtain t where
      "dropWhile (\<lambda>c. c \<noteq> CHR ''.'' \<and> c \<noteq> CHR '':'' \<and> c \<noteq> CHR ''%'') (string6 x) = CHR '':'' # t" by auto
    with Addr6 False show ?thesis by (simp add: ParseAddr_def parseIPv6_string6)
  qed
qed (simp add: addr_IsValid_def)

lemma takeWhile_sep:
  "c \<notin> set h \<Longrightarrow> takeWhile (\<lambda>x. x \<noteq> c) (h @ c # t) = h" "c \<notin> set h \<Longrightarrow> dropWhile (\<lambda>x. x \<noteq> c) (h @ c # t) = c # t"
  by (induction h) auto

theorem ParsePrefix_String:
  assumes "prefix_wf p" and "pfx_IsValid p"
  shows "ParsePrefix (addr_String (pfx_Addr p) @ ''/'' @ dec (nat (pfx_Bits p))) = Some p"
proof -
  let ?b = "dec (nat (pfx_Bits p))" and ?a = "addr_String (pfx_Addr p)"
  have v: "addr_IsValid (pfx_Addr p)" "0 \<le> pfx_Bits p" "pfx_Bits p \<le> BitLen (pfx_Addr p)"
    using assms by (auto simp: prefix_wf_def pfx_IsValid_def addr_IsValid_def)
  have "CHR ''/'' \<notin> set (rev ?b)" using set_dec [of "nat (pfx_Bits p)"] by auto
  from takeWhile_sep [OF this, of "rev ?a"]
  have "takeWhile (\<lambda>c. c \<noteq> CHR ''/'') (rev ?b @ CHR ''/'' # rev ?a) = rev ?b"
    "dropWhile (\<lambda>c. c \<noteq> CHR ''/'') (rev ?b @ CHR ''/'' # rev ?a) = CHR ''/'' # rev ?a" .
  moreover have "pfx_Bits p \<le> (if Is6 (pfx_Addr p) then 128 else 32)" using v by (cases "pfx_Addr p") auto
  moreover have "PrefixFrom (pfx_Addr p) (pfx_Bits p) = p" using v by (simp add: PrefixFrom_def)
  ultimately show ?thesis using v by (simp add: ParsePrefix_def ParseAddr_String parse_bits_dec)
qed

lemma ParsePrefix_pfx_String: "prefix_wf p \<Longrightarrow> pfx_IsValid p \<Longrightarrow> ParsePrefix (pfx_String p) = Some p"
  using ParsePrefix_String [of p] by (simp add: pfx_String_def itoa_def pfx_IsValid_def)

end
