(* ===== verification/BgpSource.thy ===== *)
theory BgpSource
  imports Manager NetipText
begin

text \<open>
  The FlowSpec source (package \<^verbatim>\<open>internal/bgp\<close>): the events of the embedded GoBGP speaker as updates
  for the manager (watch.go, server.go), and the advertisement of a rule to peers (encode.go,
  advertise.go). GoBGP itself is a library: its decoded events are input data, its constructors
  are a record of functions with laws in a locale, and calls of its server are values.
\<close>

unbundle bit_operations_syntax

section \<open>Events of the speaker\<close>

record PeerOptions =
  po_Address :: string
  po_PeerASN :: u32
  po_Port :: u16
  po_Passive :: bool
  po_Receive :: bool
  po_Send :: bool

definition normalizeAddr :: "string \<Rightarrow> string" where
  "normalizeAddr s = (case ParseAddr s of Some a \<Rightarrow> addr_String a | None \<Rightarrow> s)"

text \<open>The set of peers whose routes are applied.\<close>

definition receive_peers :: "PeerOptions list \<Rightarrow> string list" where
  "receive_peers peers = fold (\<lambda>p m. if po_Receive p then sput (normalizeAddr (po_Address p)) m else m) peers []"

text \<open>A path of the watched table: its route and attributes as decoded, or the error of decoding.\<close>

record api_path =
  pt_NeighborIp :: string
  pt_SourceId :: string
  pt_Nlri :: "string + nlri"
  pt_Attrs :: "string + path_attribute list"
  pt_IsWithdraw :: bool

definition handlePath :: "string list \<Rightarrow> api_path \<Rightarrow> Update option" where
  "handlePath receivePeers path =
     (let session0 = (if pt_NeighborIp path = '''' then pt_SourceId path else pt_NeighborIp path);
          session = normalizeAddr session0
      in if session \<notin> set receivePeers then None
         else case pt_Nlri path of
                Inl e \<Rightarrow> None
              | Inr n \<Rightarrow>
                  (case pt_Attrs path of
                     Inl e \<Rightarrow> None
                   | Inr attrs \<Rightarrow>
                       (case ParseNLRI n attrs of
                          Inl e \<Rightarrow> None
                        | Inr rule \<Rightarrow>
                            Some \<lparr>u_Session = session, u_Op = (if pt_IsWithdraw path then OpWithdraw else OpAnnounce),
                                  u_Rule = Some rule, u_Peer = session\<rparr>)))"

datatype PeerState = ESTABLISHED | OtherPeerState string

text \<open>A peer event; its state is absent when the event has no peer or no state.\<close>

record PeerEvent =
  pe_IsState :: bool
  pe_State :: "(string \<times> PeerState) option"

definition handlePeerEvent :: "PeerEvent \<Rightarrow> Update option" where
  "handlePeerEvent pe =
     (if \<not> pe_IsState pe then None
      else case pe_State pe of
             None \<Rightarrow> None
           | Some (address, state) \<Rightarrow>
               let addr = normalizeAddr address
               in if state = ESTABLISHED then None
                  else Some \<lparr>u_Session = addr, u_Op = OpSessionDown, u_Rule = None, u_Peer = addr\<rparr>)"

record WatchEventResponse =
  we_Paths :: "api_path list"
  we_Peer :: "PeerEvent option"

text \<open>The updates sent for an event, in order; a send waits for the manager, so none is lost before the server stops.\<close>

definition watch_handleEvent :: "string list \<Rightarrow> WatchEventResponse \<Rightarrow> Update list" where
  "watch_handleEvent receivePeers r =
     concat (map (\<lambda>p. case handlePath receivePeers p of None \<Rightarrow> [] | Some u \<Rightarrow> [u]) (we_Paths r)) @
     (case we_Peer r of None \<Rightarrow> [] | Some pe \<Rightarrow> (case handlePeerEvent pe of None \<Rightarrow> [] | Some u \<Rightarrow> [u]))"

lemma ParseAddr_IsValid: "ParseAddr s = Some a \<Longrightarrow> addr_IsValid a"
  by (auto simp: ParseAddr_def parseIPv6_def addr_IsValid_def split: list.splits if_splits option.splits)

lemma normalizeAddr_eq:
  assumes "ParseAddr s = Some a"
  shows "normalizeAddr s = addr_String a" "normalizeAddr s = normalizeAddr t \<longleftrightarrow> ParseAddr t = Some a"
proof -
  show s: "normalizeAddr s = addr_String a" using assms by (simp add: normalizeAddr_def)
  have rt: "ParseAddr (addr_String a) = Some a" using ParseAddr_IsValid [OF assms] by (rule ParseAddr_String)
  show "normalizeAddr s = normalizeAddr t \<longleftrightarrow> ParseAddr t = Some a"
    using s rt by (auto simp: normalizeAddr_def addr_String_inject split: option.splits)
qed

lemma set_receive_peers: "set (receive_peers peers) = {normalizeAddr (po_Address p) | p. p \<in> set peers \<and> po_Receive p}"
proof -
  have "set (fold (\<lambda>p m. if po_Receive p then sput (normalizeAddr (po_Address p)) m else m) peers m) =
      set m \<union> {normalizeAddr (po_Address p) | p. p \<in> set peers \<and> po_Receive p}" for m
    by (induction peers arbitrary: m) auto
  then show ?thesis by (simp add: receive_peers_def)
qed

text \<open>
  C37: The receive gate is exact and does not depend on spelling: a path of a neighbour with
  address \<open>a\<close>, however written, becomes an update exactly when a configured peer with that address,
  however written, may be received from, and the path decodes to a FlowSpec route; the update
  carries the parsed rule and the canonical text of the address as its session.
\<close>

theorem receive_gate_exact:
  assumes "ParseAddr (pt_NeighborIp path) = Some a"
  shows "handlePath (receive_peers peers) path =
    (if \<exists>p. p \<in> set peers \<and> po_Receive p \<and> ParseAddr (po_Address p) = Some a
     then case (pt_Nlri path, pt_Attrs path) of
            (Inr n, Inr attrs) \<Rightarrow>
              (case ParseNLRI n attrs of
                 Inr rule \<Rightarrow> Some \<lparr>u_Session = addr_String a, u_Op = (if pt_IsWithdraw path then OpWithdraw else OpAnnounce),
                                u_Rule = Some rule, u_Peer = addr_String a\<rparr>
               | Inl e \<Rightarrow> None)
          | _ \<Rightarrow> None
     else None)"
proof -
  have ne: "pt_NeighborIp path \<noteq> ''''" using assms by (auto simp: ParseAddr_def)
  note norm = normalizeAddr_eq [OF assms]
  have "normalizeAddr (pt_NeighborIp path) \<in> set (receive_peers peers) \<longleftrightarrow>
      (\<exists>p. p \<in> set peers \<and> po_Receive p \<and> ParseAddr (po_Address p) = Some a)"
    using norm(2) by (auto simp: set_receive_peers)
  with ne norm(1) show ?thesis by (auto simp: handlePath_def Let_def split: sum.splits)
qed

lemma peer_groups: "groups6 0x20010db8000000000000000000000001 = [0x2001, 0xdb8, 0, 0, 0, 0, 0, 1]" by code_simp

lemma peer_texts: "groups_text [0x2001, 0xdb8] = ''2001:db8''" "groups_text [0x2001, 0xdb8, 0, 0] = ''2001:db8:0:0''" "groups_text [1] = ''1''"
  by (simp_all add: groups_text_def hex_def radix.simps hexdigit_def)

lemma peer_run: "zero_run [0x2001, 0xdb8, 0, 0, 0, 0, 0, 1] = (2, 7)" by code_simp

lemma peer_String: "addr_String (Addr6 0x20010db8000000000000000000000001) = ''2001:db8::1''"
proof -
  have "\<not> Is4In6 0x20010db8000000000000000000000001" by code_simp
  then show ?thesis using peer_texts by (simp add: string6_def peer_groups peer_run Let_def del: One_nat_def)
qed

lemma peer_Parse: "ParseAddr ''2001:db8:0:0::1'' = Some (Addr6 0x20010db8000000000000000000000001)"
proof -
  have "ParseAddr ''2001:db8:0:0::1'' = parseIPv6 ''2001:db8:0:0::1''" by (simp add: ParseAddr_def)
  also have "\<dots> = Some (Addr6 (of_groups6 (groups6 0x20010db8000000000000000000000001)))"
    using parseIPv6_ellipsis [of "[0x2001, 0xdb8, 0, 0]" "[1]"] by (simp add: peer_texts peer_groups numeral_3_eq_3 del: One_nat_def)
  finally show ?thesis by (simp only: of_groups6_groups6)
qed

theorem receive_gate_exact_witness:
  "handlePath (receive_peers [\<lparr>po_Address = ''2001:db8:0:0::1'', po_PeerASN = 65000, po_Port = 0, po_Passive = True,
       po_Receive = True, po_Send = False\<rparr>])
     \<lparr>pt_NeighborIp = ''2001:db8::1'', pt_SourceId = '''', pt_Nlri = Inr (FlowSpecIPv4Unicast [] ''''), pt_Attrs = Inr [],
       pt_IsWithdraw = True\<rparr> =
   Some \<lparr>u_Session = ''2001:db8::1'', u_Op = OpWithdraw,
     u_Rule = Some \<lparr>r_Family = FamilyIPv4, r_Match = Match_zero, r_Action = parseAction [], r_Raw = ''''\<rparr>,
     u_Peer = ''2001:db8::1''\<rparr>"
proof -
  have "ParseAddr ''2001:db8::1'' = Some (Addr6 0x20010db8000000000000000000000001)"
    using ParseAddr_String [of "Addr6 0x20010db8000000000000000000000001", unfolded peer_String] by (simp add: addr_IsValid_def)
  then show ?thesis
    by (subst receive_gate_exact [where a = "Addr6 0x20010db8000000000000000000000001"])
      (simp_all add: peer_Parse peer_String del: addr_String.simps)
qed

end
