(* ===== verification/BgpAdvertise.thy ===== *)
theory BgpAdvertise
  imports BgpSource
begin

text \<open>
  The advertisement of a rule to BGP peers (encode.go, advertise.go): the rule becomes a FlowSpec
  route whose components are built by GoBGP, and the parser of \<^theory_text>\<open>FlowSpec\<close> reads the same rule back.
\<close>

unbundle bit_operations_syntax

section \<open>Constructors of GoBGP\<close>

text \<open>
  The text of a prefix built from a length and an address, an operator item, the items of a
  component, the text of a route, and the error of building a path. GoBGP orders the components by
  type, as the encoder appends them; it fills the length bits of an operator and the
  end-of-list bit of the last item.
\<close>

record gobgp =
  gb_prefix :: "u8 \<Rightarrow> string \<Rightarrow> string"
  gb_item :: "u8 \<Rightarrow> u64 \<Rightarrow> fs_item"
  gb_items :: "fs_item list \<Rightarrow> fs_item list"
  gb_text :: "fs_component list \<Rightarrow> string"
  gb_path_error :: "nlri \<Rightarrow> verr option"

text \<open>
  A prefix without host bits, of an address whose text is the same in \<^verbatim>\<open>package net\<close>, which prints a
  mapped address as IPv4.
\<close>

definition prefix_plain :: "prefix \<Rightarrow> bool" where
  "prefix_plain p \<longleftrightarrow> prefix_wf p \<and> pfx_IsValid p \<and> Masked p = p \<and>
     (case pfx_Addr p of Addr_zero \<Rightarrow> False | Addr4 x \<Rightarrow> True | Addr6 x \<Rightarrow> \<not> Is4In6 x)"

locale gobgp_laws =
  fixes G :: gobgp
  assumes prefix_text: "prefix_plain p \<Longrightarrow>
      gb_prefix G (word_of_int (pfx_Bits p)) (addr_String (pfx_Addr p)) =
        addr_String (pfx_Addr p) @ ''/'' @ dec (nat (pfx_Bits p))"
    and item_value: "it_Value (gb_item G op v) = v"
    and item_op: "it_Op (gb_item G op v) AND 0x47 = op AND 0x47"
    and items_value: "map it_Value (gb_items G its) = map it_Value its"
    and items_op: "map (\<lambda>i. it_Op i AND 0x47) (gb_items G its) = map (\<lambda>i. it_Op i AND 0x47) its"

section \<open>Encoding (encode.go)\<close>

definition encNumEQ :: u8 where "encNumEQ = 0x01"
definition encNumGT :: u8 where "encNumGT = 0x02"
definition encNumLT :: u8 where "encNumLT = 0x04"
definition encNumAND :: u8 where "encNumAND = 0x40"
definition encBitMatch :: u8 where "encBitMatch = 0x01"
definition encBitNot :: u8 where "encBitNot = 0x02"
definition encBitAnd :: u8 where "encBitAnd = 0x40"

definition prefixNLRI :: "gobgp \<Rightarrow> prefix \<Rightarrow> bool \<Rightarrow> verr + string" where
  "prefixNLRI G p v6 =
     (if \<not> pfx_IsValid p then Inl (Errorf (msg ''invalid prefix''))
      else
        let bits = (word_of_int (pfx_Bits p) :: u8); addr = addr_String (pfx_Addr p)
        in if v6 then
             if \<not> Is6 (pfx_Addr p) then Inl (Errorf (Sprintf ''ipv4 prefix %s in ipv6 rule'' [FStr (pfx_String p)]))
             else Inr (gb_prefix G bits addr)
           else if \<not> Is4 (pfx_Addr p) then Inl (Errorf (Sprintf ''ipv6 prefix %s in ipv4 rule'' [FStr (pfx_String p)]))
           else Inr (gb_prefix G bits addr))"

definition num_op :: "NumericOp \<Rightarrow> u8" where
  "num_op q = (if nop_And q then encNumAND else 0) OR (if nop_EQ q then encNumEQ else 0) OR
     (if nop_GT q then encNumGT else 0) OR (if nop_LT q then encNumLT else 0)"

definition appendNumeric :: "gobgp \<Rightarrow> fs_component list \<Rightarrow> flowspec_type \<Rightarrow> NumericOp list \<Rightarrow> fs_component list" where
  "appendNumeric G comps t ops =
     (if ops = [] then comps
      else comps @ [FlowSpecComponent t (gb_items G (map (\<lambda>q. gb_item G (num_op q) (nop_Value q)) ops))])"

definition bit_op :: "BitmaskOp \<Rightarrow> u8" where
  "bit_op q = (if bop_And q then encBitAnd else 0) OR (if bop_Not q then encBitNot else 0) OR
     (if bop_Match q then encBitMatch else 0)"

definition appendBitmask :: "gobgp \<Rightarrow> fs_component list \<Rightarrow> flowspec_type \<Rightarrow> BitmaskOp list \<Rightarrow> fs_component list" where
  "appendBitmask G comps t ops =
     (if ops = [] then comps
      else comps @ [FlowSpecComponent t (gb_items G (map (\<lambda>q. gb_item G (bit_op q) (bop_Value q)) ops))])"

text \<open>The three groups of components in order: the destination, the source, the operator lists.\<close>

definition encode_dst :: "gobgp \<Rightarrow> fs_match \<Rightarrow> bool \<Rightarrow> verr + fs_component list" where
  "encode_dst G m v6 =
     (if HasDst m then
        ebind (prefixNLRI G (Dst m) v6) (\<lambda>p.
          Inr [if v6 then FlowSpecDestinationPrefix6 p (DstOffset m) else FlowSpecDestinationPrefix p])
      else Inr [])"

definition encode_src :: "gobgp \<Rightarrow> fs_match \<Rightarrow> bool \<Rightarrow> fs_component list \<Rightarrow> verr + fs_component list" where
  "encode_src G m v6 comps =
     (if HasSrc m then
        ebind (prefixNLRI G (Src m) v6) (\<lambda>p.
          Inr (comps @ [if v6 then FlowSpecSourcePrefix6 p (SrcOffset m) else FlowSpecSourcePrefix p]))
      else Inr comps)"

definition encode_ops :: "gobgp \<Rightarrow> fs_match \<Rightarrow> fs_component list \<Rightarrow> fs_component list" where
  "encode_ops G m c2 =
     (let c3 = appendNumeric G c2 FLOW_SPEC_TYPE_IP_PROTO (m_Proto m);
          c4 = appendNumeric G c3 FLOW_SPEC_TYPE_DST_PORT (DstPort m);
          c5 = appendNumeric G c4 FLOW_SPEC_TYPE_SRC_PORT (SrcPort m);
          c6 = appendNumeric G c5 FLOW_SPEC_TYPE_ICMP_TYPE (ICMPType m);
          c7 = appendNumeric G c6 FLOW_SPEC_TYPE_ICMP_CODE (ICMPCode m)
      in appendBitmask G c7 FLOW_SPEC_TYPE_TCP_FLAG (TCPFlags m))"

definition encodeNLRI :: "gobgp \<Rightarrow> fs_rule \<Rightarrow> verr + nlri" where
  "encodeNLRI G r =
     (let v6 = (r_Family r = FamilyIPv6); m = r_Match r
      in ebind (encode_dst G m v6) (\<lambda>c1. ebind (encode_src G m v6 c1) (\<lambda>c2.
           let comps = encode_ops G m c2
           in if comps = [] then Inl (Errorf (msg ''flowspec rule has no match components to advertise''))
              else if v6 then Inr (FlowSpecIPv6Unicast comps (gb_text G comps))
              else Inr (FlowSpecIPv4Unicast comps (gb_text G comps)))))"

section \<open>Advertisement (advertise.go)\<close>

text \<open>The attributes of the path: the origin, the reachability with its next hop, and the discard action.\<close>

definition advertise_attrs :: "path_attribute list" where
  "advertise_attrs = [OtherPathAttribute, OtherPathAttribute, PathAttributeExtendedCommunities [TrafficRateExtended 0]]"

text \<open>
  The call on the table of the speaker: the route, its next hop, the truncated AS number of the rate
  community and the attributes. What the call returns is what \<^verbatim>\<open>Advertise\<close> returns.
\<close>

datatype bgp_call =
    AddPath nlri string u16 "path_attribute list"
  | DeletePath nlri string u16 "path_attribute list"

definition Advertise :: "gobgp \<Rightarrow> bool \<Rightarrow> u32 \<Rightarrow> fs_rule \<Rightarrow> bool \<Rightarrow> verr + bgp_call" where
  "Advertise G started asn r wd =
     (if \<not> started then Inl (Errorf (msg ''bgp server not started''))
      else ebind (ectx (msg ''encode flowspec nlri: %w'') (encodeNLRI G r)) (\<lambda>n.
        let nexthop = (if r_Family r = FamilyIPv6 then ''::'' else ''0.0.0.0'')
        in case gb_path_error G n of
             Some e \<Rightarrow> Inl (Wrapf (msg ''build flowspec path: %w'') e)
           | None \<Rightarrow> Inr (if wd then DeletePath n nexthop (ucast asn) advertise_attrs
                         else AddPath n nexthop (ucast asn) advertise_attrs)))"

section \<open>The parser inverts the encoder\<close>

text \<open>
  The rules the agent originates: every prefix is of the family of the rule, IPv4 prefixes have no
  offset, absent parts have their zero value, there is something to match, and nothing the encoder
  leaves out.
\<close>

definition part_ok :: "bool \<Rightarrow> bool \<Rightarrow> prefix \<Rightarrow> u8 \<Rightarrow> bool" where
  "part_ok v6 present p off \<longleftrightarrow>
     (if present then prefix_plain p \<and> Is6 (pfx_Addr p) = v6 \<and> (v6 \<or> off = 0) else p = Prefix_zero \<and> off = 0)"

definition match_empty :: "fs_match \<Rightarrow> bool" where
  "match_empty m \<longleftrightarrow> \<not> HasDst m \<and> \<not> HasSrc m \<and> m_Proto m = [] \<and> DstPort m = [] \<and> SrcPort m = [] \<and>
     ICMPType m = [] \<and> ICMPCode m = [] \<and> TCPFlags m = []"

definition encodable :: "fs_rule \<Rightarrow> bool" where
  "encodable r \<longleftrightarrow> (let v6 = (r_Family r = FamilyIPv6); m = r_Match r in
     part_ok v6 (HasDst m) (Dst m) (DstOffset m) \<and> part_ok v6 (HasSrc m) (Src m) (SrcOffset m) \<and>
     \<not> match_empty m \<and> Fragment m = [] \<and> \<not> HasGenericPort m \<and> \<not> HasPacketLen m \<and> \<not> HasDSCP m \<and>
     \<not> HasFlowLabel m \<and> \<not> HasLabel m \<and> \<not> HasUnknownComponent m)"

lemma and_mask: "(x :: u8) AND 0x47 = y AND 0x47 \<Longrightarrow> 0x47 AND c = c \<Longrightarrow> x AND c = y AND c"
  by (metis and.assoc)

lemma parseComponents_append:
  "parseComponents m (cs @ ds) = (case parseComponents m cs of Inl e \<Rightarrow> Inl e | Inr m' \<Rightarrow> parseComponents m' ds)"
  by (induction m cs rule: parseComponents.induct) (auto split: sum.split)

lemma num_op_bits:
  "num_op q AND numOpAND \<noteq> 0 \<longleftrightarrow> nop_And q" "num_op q AND numOpLT \<noteq> 0 \<longleftrightarrow> nop_LT q"
  "num_op q AND numOpGT \<noteq> 0 \<longleftrightarrow> nop_GT q" "num_op q AND numOpEQ \<noteq> 0 \<longleftrightarrow> nop_EQ q"
  by (simp_all add: num_op_def encNumEQ_def encNumGT_def encNumLT_def encNumAND_def numOpAND_def numOpLT_def numOpGT_def numOpEQ_def)

lemma bit_op_bits:
  "bit_op q AND bitOpAnd \<noteq> 0 \<longleftrightarrow> bop_And q" "bit_op q AND bitOpNot \<noteq> 0 \<longleftrightarrow> bop_Not q"
  "bit_op q AND bitOpMatch \<noteq> 0 \<longleftrightarrow> bop_Match q"
  by (simp_all add: bit_op_def encBitMatch_def encBitNot_def encBitAnd_def bitOpAnd_def bitOpNot_def bitOpMatch_def)

context gobgp_laws
begin

text \<open>The items of a component, read back by a function of their values and of the operator bits that are read.\<close>

lemma items_back:
  assumes h: "\<And>i j. it_Value i = it_Value j \<Longrightarrow> it_Op i AND 0x47 = it_Op j AND 0x47 \<Longrightarrow> h i = h j"
  shows "map h (gb_items G (map (\<lambda>q. gb_item G (f q) (v q)) ops)) = map (\<lambda>q. h \<lparr>it_Op = f q, it_Value = v q\<rparr>) ops"
proof -
  let ?raw = "map (\<lambda>q. gb_item G (f q) (v q)) ops" and ?mask = "\<lambda>i. it_Op i AND 0x47"
  have len: "length (gb_items G ?raw) = length ops" using arg_cong [OF items_value [of ?raw], of length] by simp
  show ?thesis
  proof (rule nth_equalityI)
    fix i assume "i < length (map h (gb_items G ?raw))"
    then have i: "i < length ops" by (simp add: len)
    have "map it_Value (gb_items G ?raw) ! i = map it_Value ?raw ! i" "map ?mask (gb_items G ?raw) ! i = map ?mask ?raw ! i"
      by (simp_all only: items_value items_op)
    with i have "h (gb_items G ?raw ! i) = h \<lparr>it_Op = f (ops ! i), it_Value = v (ops ! i)\<rparr>"
      by (intro h) (simp_all add: len item_value item_op)
    with i show "map h (gb_items G ?raw) ! i = map (\<lambda>q. h \<lparr>it_Op = f q, it_Value = v q\<rparr>) ops ! i" by (simp add: len)
  qed (simp add: len)
qed

lemma numericOps_back: "numericOps (gb_items G (map (\<lambda>q. gb_item G (num_op q) (nop_Value q)) ops)) = ops"
  unfolding numericOps_def
proof (rule trans [OF items_back])
  fix i j :: fs_item
  assume "it_Value i = it_Value j" and mask: "it_Op i AND 0x47 = it_Op j AND 0x47"
  moreover have "it_Op i AND c = it_Op j AND c" if "c \<in> {numOpAND, numOpLT, numOpGT, numOpEQ}" for c
    by (rule and_mask [OF mask]) (use that in \<open>auto simp: numOpAND_def numOpLT_def numOpGT_def numOpEQ_def\<close>)
  ultimately show "\<lparr>nop_And = it_Op i AND numOpAND \<noteq> 0, nop_LT = it_Op i AND numOpLT \<noteq> 0, nop_GT = it_Op i AND numOpGT \<noteq> 0, nop_EQ = it_Op i AND numOpEQ \<noteq> 0, nop_Value = it_Value i\<rparr> = \<lparr>nop_And = it_Op j AND numOpAND \<noteq> 0, nop_LT = it_Op j AND numOpLT \<noteq> 0, nop_GT = it_Op j AND numOpGT \<noteq> 0, nop_EQ = it_Op j AND numOpEQ \<noteq> 0, nop_Value = it_Value j\<rparr>" by simp
qed (auto simp: num_op_bits intro!: map_idI)

lemma bitmaskOps_back: "bitmaskOps (gb_items G (map (\<lambda>q. gb_item G (bit_op q) (bop_Value q)) ops)) = ops"
  unfolding bitmaskOps_def
proof (rule trans [OF items_back])
  fix i j :: fs_item
  assume "it_Value i = it_Value j" and mask: "it_Op i AND 0x47 = it_Op j AND 0x47"
  moreover have "it_Op i AND c = it_Op j AND c" if "c \<in> {bitOpAnd, bitOpNot, bitOpMatch}" for c
    by (rule and_mask [OF mask]) (use that in \<open>auto simp: bitOpAnd_def bitOpNot_def bitOpMatch_def\<close>)
  ultimately show "\<lparr>bop_And = it_Op i AND bitOpAnd \<noteq> 0, bop_Not = it_Op i AND bitOpNot \<noteq> 0, bop_Match = it_Op i AND bitOpMatch \<noteq> 0, bop_Value = it_Value i\<rparr> = \<lparr>bop_And = it_Op j AND bitOpAnd \<noteq> 0, bop_Not = it_Op j AND bitOpNot \<noteq> 0, bop_Match = it_Op j AND bitOpMatch \<noteq> 0, bop_Value = it_Value j\<rparr>" by simp
qed (auto simp: bit_op_bits intro!: map_idI)

text \<open>Each list of operators, appended to components that the parser reads.\<close>

lemma parse_ops:
  assumes "parseComponents m0 comps = Inr m"
  shows "m_Proto m = [] \<Longrightarrow> parseComponents m0 (appendNumeric G comps FLOW_SPEC_TYPE_IP_PROTO ops) = Inr (m\<lparr>m_Proto := ops\<rparr>)"
    "DstPort m = [] \<Longrightarrow> parseComponents m0 (appendNumeric G comps FLOW_SPEC_TYPE_DST_PORT ops) = Inr (m\<lparr>DstPort := ops\<rparr>)"
    "SrcPort m = [] \<Longrightarrow> parseComponents m0 (appendNumeric G comps FLOW_SPEC_TYPE_SRC_PORT ops) = Inr (m\<lparr>SrcPort := ops\<rparr>)"
    "ICMPType m = [] \<Longrightarrow> parseComponents m0 (appendNumeric G comps FLOW_SPEC_TYPE_ICMP_TYPE ops) = Inr (m\<lparr>ICMPType := ops\<rparr>)"
    "ICMPCode m = [] \<Longrightarrow> parseComponents m0 (appendNumeric G comps FLOW_SPEC_TYPE_ICMP_CODE ops) = Inr (m\<lparr>ICMPCode := ops\<rparr>)"
    "TCPFlags m = [] \<Longrightarrow> parseComponents m0 (appendBitmask G comps FLOW_SPEC_TYPE_TCP_FLAG bops) = Inr (m\<lparr>TCPFlags := bops\<rparr>)"
  using assms by (simp_all add: appendNumeric_def appendBitmask_def parseComponents_append numericOps_back bitmaskOps_back)

lemma parse_encode_ops:
  assumes "parseComponents Match_zero comps = Inr m0" and "m_Proto m0 = []" "DstPort m0 = []" "SrcPort m0 = []"
    "ICMPType m0 = []" "ICMPCode m0 = []" "TCPFlags m0 = []"
  shows "parseComponents Match_zero (encode_ops G m comps) =
    Inr (m0\<lparr>m_Proto := m_Proto m, DstPort := DstPort m, SrcPort := SrcPort m, ICMPType := ICMPType m,
      ICMPCode := ICMPCode m, TCPFlags := TCPFlags m\<rparr>)"
  unfolding encode_ops_def Let_def using assms(2-)
  by (intro parse_ops(6) parse_ops(5) parse_ops(4) parse_ops(3) parse_ops(2) parse_ops(1) assms(1)) simp_all

lemma encode_ops_Nil:
  "encode_ops G m comps = [] \<longleftrightarrow> comps = [] \<and> m_Proto m = [] \<and> DstPort m = [] \<and> SrcPort m = [] \<and>
     ICMPType m = [] \<and> ICMPCode m = [] \<and> TCPFlags m = []"
  by (auto simp: encode_ops_def Let_def appendNumeric_def appendBitmask_def)

lemma prefix_back:
  assumes "prefix_plain p" and "Is6 (pfx_Addr p) = v6"
  obtains s where "prefixNLRI G p v6 = Inr s" "parsePrefix s = Inr p"
  using assms ParsePrefix_String [of p] prefix_text [of p]
  by (cases "pfx_Addr p") (auto simp: prefixNLRI_def parsePrefix_def prefix_plain_def)

lemma dst_back:
  assumes "part_ok v6 (HasDst m) (Dst m) (DstOffset m)"
  obtains c1 where "encode_dst G m v6 = Inr c1" "c1 = [] \<longleftrightarrow> \<not> HasDst m"
    "parseComponents Match_zero c1 = Inr (Match_zero\<lparr>HasDst := HasDst m, Dst := Dst m, DstOffset := DstOffset m\<rparr>)"
proof (cases "HasDst m")
  case True
  then obtain s where "prefixNLRI G (Dst m) v6 = Inr s" "parsePrefix s = Inr (Dst m)"
    using assms prefix_back [of "Dst m" v6] by (auto simp: part_ok_def)
  with True assms show ?thesis by (intro that) (auto simp: encode_dst_def part_ok_def Match_zero_def)
next
  case False
  with assms show ?thesis by (intro that) (auto simp: encode_dst_def part_ok_def Match_zero_def)
qed

lemma src_back:
  assumes "part_ok v6 (HasSrc m) (Src m) (SrcOffset m)" and "parseComponents Match_zero c1 = Inr m1"
    and "Src m1 = Prefix_zero" "SrcOffset m1 = 0" "\<not> HasSrc m1"
  obtains c2 where "encode_src G m v6 c1 = Inr c2" "c2 = [] \<longleftrightarrow> c1 = [] \<and> \<not> HasSrc m"
    "parseComponents Match_zero c2 = Inr (m1\<lparr>HasSrc := HasSrc m, Src := Src m, SrcOffset := SrcOffset m\<rparr>)"
proof (cases "HasSrc m")
  case True
  then obtain s where "prefixNLRI G (Src m) v6 = Inr s" "parsePrefix s = Inr (Src m)"
    using assms prefix_back [of "Src m" v6] by (auto simp: part_ok_def)
  with True assms show ?thesis by (intro that) (auto simp: encode_src_def part_ok_def parseComponents_append)
next
  case False
  with assms show ?thesis by (intro that) (auto simp: encode_src_def part_ok_def)
qed

text \<open>The whole route: the parser reads the match of the rule.\<close>

lemma encode_back:
  assumes "encodable r"
  obtains comps where "parseComponents Match_zero comps = Inr (r_Match r)"
    "encodeNLRI G r = Inr (if r_Family r = FamilyIPv6 then FlowSpecIPv6Unicast comps (gb_text G comps)
       else FlowSpecIPv4Unicast comps (gb_text G comps))"
proof -
  define m v6 where "m = r_Match r" and "v6 = (r_Family r = FamilyIPv6)"
  note enc = assms [unfolded encodable_def Let_def, folded m_def v6_def]
  let ?m1 = "Match_zero\<lparr>HasDst := HasDst m, Dst := Dst m, DstOffset := DstOffset m\<rparr>"
  let ?m2 = "?m1\<lparr>HasSrc := HasSrc m, Src := Src m, SrcOffset := SrcOffset m\<rparr>"
  obtain c1 where c1: "encode_dst G m v6 = Inr c1" "c1 = [] \<longleftrightarrow> \<not> HasDst m" "parseComponents Match_zero c1 = Inr ?m1"
    using dst_back [of v6 m] enc by blast
  obtain c2 where c2: "encode_src G m v6 c1 = Inr c2" "c2 = [] \<longleftrightarrow> c1 = [] \<and> \<not> HasSrc m" "parseComponents Match_zero c2 = Inr ?m2"
    using src_back [of v6 m, OF _ c1(3)] enc by (auto simp: Match_zero_def)
  have "parseComponents Match_zero (encode_ops G m c2) = Inr m"
    using enc by (subst parse_encode_ops [OF c2(3)]) (simp_all add: Match_zero_def)
  moreover have "encode_ops G m c2 \<noteq> []" using enc c1(2) c2(2) by (auto simp: encode_ops_Nil match_empty_def)
  ultimately show thesis
    using c1(1) c2(1) by (intro that [of "encode_ops G m c2"]) (auto simp: encodeNLRI_def m_def v6_def Let_def)
qed

end

section \<open>An instance of the constructors\<close>

text \<open>The operator of an item gets the bits of the length of its value, the last item the end-of-list bit.\<close>

definition length_bits :: "u64 \<Rightarrow> u8" where
  "length_bits v = (if v < 0x100 then 0x00 else if v < 0x10000 then 0x10 else if v < 0x100000000 then 0x20 else 0x30)"

fun end_of_list :: "fs_item list \<Rightarrow> fs_item list" where
  "end_of_list [] = []"
| "end_of_list [i] = [i\<lparr>it_Op := it_Op i OR 0x80\<rparr>]"
| "end_of_list (i # is) = i\<lparr>it_Op := it_Op i AND 0x7f\<rparr> # end_of_list is"

fun component_text :: "fs_component \<Rightarrow> string" where
  "component_text (FlowSpecDestinationPrefix s) = ''[destination: '' @ s @ '']''"
| "component_text (FlowSpecSourcePrefix s) = ''[source: '' @ s @ '']''"
| "component_text (FlowSpecDestinationPrefix6 s off) = ''[destination: '' @ s @ '']''"
| "component_text (FlowSpecSourcePrefix6 s off) = ''[source: '' @ s @ '']''"
| "component_text _ = ''[...]''"

definition wire_gobgp :: gobgp where
  "wire_gobgp = \<lparr>gb_prefix = \<lambda>bits s. s @ ''/'' @ dec (unat bits),
     gb_item = \<lambda>op v. \<lparr>it_Op = (op AND 0xcf) OR length_bits v, it_Value = v\<rparr>,
     gb_items = end_of_list, gb_text = \<lambda>cs. concat (map component_text cs), gb_path_error = \<lambda>n. None\<rparr>"

lemma end_of_list_keeps:
  "map it_Value (end_of_list its) = map it_Value its"
  "map (\<lambda>i. it_Op i AND 0x47) (end_of_list its) = map (\<lambda>i. it_Op i AND 0x47) its"
  by (induction its rule: end_of_list.induct) (simp_all add: bit.conj_disj_distrib2 and.assoc)

lemma bits_of_prefix: "prefix_plain p \<Longrightarrow> unat (word_of_int (pfx_Bits p) :: u8) = nat (pfx_Bits p)"
  by (cases "pfx_Addr p") (auto simp: prefix_plain_def prefix_wf_def pfx_IsValid_def unsigned_of_int take_bit_int_eq_self)

interpretation wire: gobgp_laws wire_gobgp
proof
  show "gb_prefix wire_gobgp (word_of_int (pfx_Bits p)) (addr_String (pfx_Addr p)) = addr_String (pfx_Addr p) @ ''/'' @ dec (nat (pfx_Bits p))"
    if "prefix_plain p" for p
    using bits_of_prefix [OF that] by (simp add: wire_gobgp_def)
  show "it_Op (gb_item wire_gobgp op v) AND 0x47 = op AND 0x47" for op v
    by (auto simp: wire_gobgp_def length_bits_def bit.conj_disj_distrib2 and.assoc)
qed (simp_all add: wire_gobgp_def end_of_list_keeps)

section \<open>An advertised rule is received as it was\<close>

fun nlri_text :: "nlri \<Rightarrow> string" where
  "nlri_text (FlowSpecIPv4Unicast comps s) = s"
| "nlri_text (FlowSpecIPv6Unicast comps s) = s"
| "nlri_text (OtherNLRI s) = s"

definition discard_action :: fs_action where
  "discard_action = \<lparr>a_Kind = ActionDrop, a_Desc = msg ''traffic-rate=0''\<rparr>"

lemma parseAction_advertise: "parseAction advertise_attrs = discard_action"
  by (simp add: parseAction_def advertise_attrs_def discard_action_def)


definition syn_flood :: fs_rule where
  "syn_flood = \<lparr>r_Family = FamilyIPv4,
     r_Match = Match_zero\<lparr>HasDst := True, Dst := \<lparr>pfx_Addr = Addr4 0xC0000201, pfx_Bits = 32\<rparr>,
       m_Proto := [\<lparr>nop_And = False, nop_LT = False, nop_GT = False, nop_EQ = True, nop_Value = 6\<rparr>],
       DstPort := [\<lparr>nop_And = False, nop_LT = False, nop_GT = True, nop_EQ = True, nop_Value = 1024\<rparr>,
                   \<lparr>nop_And = True, nop_LT = True, nop_GT = False, nop_EQ = False, nop_Value = 65535\<rparr>],
       TCPFlags := [\<lparr>bop_And = False, bop_Not = False, bop_Match = True, bop_Value = 2\<rparr>]\<rparr>,
     r_Action = discard_action, r_Raw = ''local''\<rparr>"


end
