(* ===== verification/LogSink.thy ===== *)
theory LogSink
  imports DetTypes "HOL-Library.Sublist" "HOL-Library.Monad_Syntax"
begin

text \<open>
  The Telegram sink of \<^verbatim>\<open>internal/logging/telegram.go\<close>: formatted log lines wait in a bounded queue,
  are batched by a worker, and are posted in messages of limited length. Lines are valid UTF-8 (what
  the handlers of \<^verbatim>\<open>slog\<close> write), so text is a list of runes, and its size in bytes is computed.
\<close>

type_synonym rune = u32
type_synonym rtext = "rune list"

definition utf8_len :: "rune \<Rightarrow> nat" where
  "utf8_len c = (if c < 0x80 then 1 else if c < 0x800 then 2 else if c < 0x10000 then 3 else 4)"

definition byte_len :: "rtext \<Rightarrow> nat" where
  "byte_len s = sum_list (map utf8_len s)"

section \<open>Splitting a message (telegram.go)\<close>

definition runeLen :: "rtext \<Rightarrow> int" where
  "runeLen s = int (length s)"

text \<open>\<open>None\<close>: the loop does not return, or the slice panics (a negative limit).\<close>

partial_function (option) chunk_loop :: "int \<Rightarrow> rtext \<Rightarrow> rtext list \<Rightarrow> rtext list option" where
  "chunk_loop mx r out =
     (if r = [] then Some out
      else let n = (if mx > int (length r) then int (length r) else mx)
           in if n < 0 then None
              else chunk_loop mx (drop (nat n) r) (out @ [take (nat n) r]))"

definition chunkRunes :: "rtext \<Rightarrow> int \<Rightarrow> rtext list option" where
  "chunkRunes s mx = chunk_loop mx s []"

text \<open>\<^verbatim>\<open>strings.SplitAfter\<close> with a separator of one rune.\<close>

fun SplitAfter :: "rtext \<Rightarrow> rune \<Rightarrow> rtext list" where
  "SplitAfter [] c = [[]]"
| "SplitAfter (x # xs) c =
     (if x = c then [x] # SplitAfter xs c
      else case SplitAfter xs c of [] \<Rightarrow> [[x]] | l # ls \<Rightarrow> (x # l) # ls)"

text \<open>The variables of \<^verbatim>\<open>splitMessage\<close> and its closure \<^verbatim>\<open>flush\<close>.\<close>

record split_vars =
  sv_out :: "rtext list"
  sv_cur :: rtext
  sv_curRunes :: int

definition split_flush :: "split_vars \<Rightarrow> split_vars" where
  "split_flush v =
     (if byte_len (sv_cur v) > 0 then \<lparr>sv_out = sv_out v @ [sv_cur v], sv_cur = [], sv_curRunes = 0\<rparr> else v)"

definition split_line :: "int \<Rightarrow> split_vars \<Rightarrow> rtext \<Rightarrow> split_vars option" where
  "split_line maxRunes v line =
     (if line = [] then Some v
      else let lr = runeLen line
           in if lr > maxRunes then
                let v1 = split_flush v
                in map_option (\<lambda>pieces. v1\<lparr>sv_out := sv_out v1 @ pieces\<rparr>) (chunkRunes line maxRunes)
              else
                let v1 = (if sv_curRunes v + lr > maxRunes then split_flush v else v)
                in Some (v1\<lparr>sv_cur := sv_cur v1 @ line, sv_curRunes := sv_curRunes v1 + lr\<rparr>))"

fun split_lines :: "int \<Rightarrow> split_vars \<Rightarrow> rtext list \<Rightarrow> split_vars option" where
  "split_lines maxRunes v [] = Some v"
| "split_lines maxRunes v (l # ls) = (case split_line maxRunes v l of None \<Rightarrow> None | Some v' \<Rightarrow> split_lines maxRunes v' ls)"

definition splitMessage :: "rtext \<Rightarrow> int \<Rightarrow> rtext list option" where
  "splitMessage tx maxRunes =
     (if runeLen tx \<le> maxRunes then Some [tx]
      else map_option (\<lambda>v. sv_out (split_flush v))
        (split_lines maxRunes \<lparr>sv_out = [], sv_cur = [], sv_curRunes = 0\<rparr> (SplitAfter tx 10)))"

subsection \<open>It returns, and loses nothing\<close>

lemma byte_len_pos [simp]: "0 < byte_len s \<longleftrightarrow> s \<noteq> []"
  by (cases s) (auto simp: byte_len_def utf8_len_def)

lemma chunk_loop_returns:
  assumes "0 < mx"
  shows "\<exists>ps. chunk_loop mx r out = Some (out @ ps) \<and> concat ps = r \<and> (\<forall>p\<in>set ps. int (length p) \<le> mx)"
proof (induction "length r" arbitrary: r out rule: less_induct)
  case less
  show ?case
  proof (cases "r = []")
    case True
    then show ?thesis by (simp add: chunk_loop.simps)
  next
    case False
    define n where "n = nat (if mx > int (length r) then int (length r) else mx)"
    have n: "0 < n" "int n \<le> mx" "n = nat (if mx > int (length r) then int (length r) else mx)"
      using assms False by (auto simp: n_def)
    with False have "length (drop n r) < length r" by simp
    from less [OF this, of "out @ [take n r]"] obtain ps where
      ps: "chunk_loop mx (drop n r) (out @ [take n r]) = Some (out @ take n r # ps)" "concat ps = drop n r" "\<forall>p\<in>set ps. int (length p) \<le> mx"
      by auto
    have "chunk_loop mx r out = Some (out @ take n r # ps)"
      using False assms ps(1) by (subst chunk_loop.simps) (auto simp: n_def Let_def)
    with ps n show ?thesis by (intro exI [of _ "take n r # ps"]) auto
  qed
qed

lemma chunkRunes_returns:
  "0 < mx \<Longrightarrow> \<exists>ps. chunkRunes s mx = Some ps \<and> concat ps = s \<and> (\<forall>p\<in>set ps. int (length p) \<le> mx)"
  using chunk_loop_returns [of mx s "[]"] by (simp add: chunkRunes_def)

text \<open>The limit matters: with a limit of zero the loop would not return.\<close>

lemma chunk_loop_zero: "chunk_loop mx r out = Some ps \<Longrightarrow> mx = 0 \<Longrightarrow> r = []"
proof (induction arbitrary: ps rule: chunk_loop.raw_induct [rotated, consumes 1, case_names step])
  case (step f mx r out ps)
  then show ?case by (fastforce simp: Let_def split: if_splits)
qed

lemma concat_SplitAfter [simp]: "concat (SplitAfter s c) = s"
  by (induction s c rule: SplitAfter.induct) (auto split: list.splits)

text \<open>What the loop keeps: the runes read so far, the limit, and the count of the piece being built.\<close>

definition split_inv :: "int \<Rightarrow> rtext \<Rightarrow> split_vars \<Rightarrow> bool" where
  "split_inv mx tx v \<longleftrightarrow> concat (sv_out v) @ sv_cur v = tx \<and> sv_curRunes v = runeLen (sv_cur v) \<and>
     sv_curRunes v \<le> mx \<and> (\<forall>p\<in>set (sv_out v). runeLen p \<le> mx)"

lemma split_flush_inv: "0 < mx \<Longrightarrow> split_inv mx tx v \<Longrightarrow> split_inv mx tx (split_flush v) \<and> sv_cur (split_flush v) = []"
  by (auto simp: split_inv_def split_flush_def runeLen_def)

lemma split_line_inv:
  assumes "0 < mx" and "split_inv mx tx v"
  shows "\<exists>v'. split_line mx v l = Some v' \<and> split_inv mx (tx @ l) v'"
proof -
  note fl = split_flush_inv [OF assms]
  consider "l = []" | "runeLen l > mx" | "l \<noteq> []" "runeLen l \<le> mx" by linarith
  then show ?thesis
  proof cases
    case 1
    with assms show ?thesis by (simp add: split_line_def)
  next
    case 2
    then have "l \<noteq> []" using assms(1) by (auto simp: runeLen_def)
    with 2 fl chunkRunes_returns [OF assms(1), of l] show ?thesis
      by (auto simp: split_line_def split_inv_def runeLen_def Let_def)
  next
    case 3
    with fl assms show ?thesis by (auto simp: split_line_def split_inv_def runeLen_def Let_def)
  qed
qed

lemma split_lines_inv:
  assumes "0 < mx"
  shows "split_inv mx tx v \<Longrightarrow> \<exists>v'. split_lines mx v ls = Some v' \<and> split_inv mx (tx @ concat ls) v'"
proof (induction ls arbitrary: tx v)
  case (Cons l ls)
  from split_line_inv [OF assms Cons.prems, of l] obtain v1 where
    "split_line mx v l = Some v1" "split_inv mx (tx @ l) v1" by blast
  with Cons.IH [of "tx @ l" v1] show ?case by simp
qed simp

lemma splitMessage_returns:
  assumes "0 < mx"
  shows "\<exists>ps. splitMessage tx mx = Some ps \<and> concat ps = tx \<and> (\<forall>p\<in>set ps. runeLen p \<le> mx)"
proof (cases "runeLen tx \<le> mx")
  case False
  have "split_inv mx [] \<lparr>sv_out = [], sv_cur = [], sv_curRunes = 0\<rparr>" using assms by (simp add: split_inv_def runeLen_def)
  from split_lines_inv [OF assms this, of "SplitAfter tx 10"] obtain v where
    v: "split_lines mx \<lparr>sv_out = [], sv_cur = [], sv_curRunes = 0\<rparr> (SplitAfter tx 10) = Some v" "split_inv mx tx v" by auto
  with False split_flush_inv [OF assms v(2)] show ?thesis by (auto simp: splitMessage_def split_inv_def)
qed (simp add: splitMessage_def)

section \<open>The sink (telegram.go)\<close>

definition telegramQueueSize :: nat where "telegramQueueSize = 1024"
definition telegramBatchBytes :: nat where "telegramBatchBytes = 3500"
definition telegramMaxRunes :: int where "telegramMaxRunes = 4000"
definition telegramDefaultBackoff :: duration where "telegramDefaultBackoff = 1 * second"
definition telegramMaxBackoff :: duration where "telegramMaxBackoff = 5 * second"

text \<open>
  The answer to a request: a transport error, or a status with the \<^verbatim>\<open>retry_after\<close> of its body
  (\<open>None\<close>: the body does not decode; an absent field decodes as 0).
\<close>

datatype http_reply = PostFailed | Status int "int option"

text \<open>A request made: its text, and the pause before it when it is the retry of a message.\<close>

record http_request =
  rq_text :: rtext
  rq_wait :: "duration option"

text \<open>
  The sink with the queue of its writer, the worker's buffer, whether \<^verbatim>\<open>quit\<close> is closed, whether the
  worker drains, whether \<^verbatim>\<open>done\<close> is closed, and the requests made.
\<close>

record telegramSink =
  ts_ch :: "rtext list"
  ts_dropped :: int
  ts_buf :: rtext
  ts_quit :: bool
  ts_draining :: bool
  ts_done :: bool
  ts_requests :: "http_request list"

definition newTelegramSink :: telegramSink where
  "newTelegramSink = \<lparr>ts_ch = [], ts_dropped = 0, ts_buf = [], ts_quit = False, ts_draining = False, ts_done = False, ts_requests = []\<rparr>"

definition sink_Write :: "rtext \<Rightarrow> telegramSink \<Rightarrow> telegramSink" where
  "sink_Write p ts =
     (if length (ts_ch ts) < telegramQueueSize then ts\<lparr>ts_ch := ts_ch ts @ [p]\<rparr>
      else ts\<lparr>ts_dropped := ts_dropped ts + 1\<rparr>)"

definition parseRetryAfter :: "int option \<Rightarrow> duration" where
  "parseRetryAfter body = (case body of None \<Rightarrow> 0 | Some n \<Rightarrow> if n \<le> 0 then 0 else wrap64 (n * second))"

text \<open>The backoff after a reply; the replies of the server are an argument, by the number of the request.\<close>

fun reply_backoff :: "http_reply \<Rightarrow> duration" where
  "reply_backoff PostFailed = 0"
| "reply_backoff (Status code body) =
     (if code = 200 then 0
      else if code = 429 then (if parseRetryAfter body > 0 then parseRetryAfter body else telegramDefaultBackoff)
      else 0)"

definition postOnce :: "(nat \<Rightarrow> http_reply) \<Rightarrow> rtext \<Rightarrow> duration option \<Rightarrow> telegramSink \<Rightarrow> duration \<times> telegramSink" where
  "postOnce http t wait ts =
     (reply_backoff (http (length (ts_requests ts))), ts\<lparr>ts_requests := ts_requests ts @ [\<lparr>rq_text = t, rq_wait = wait\<rparr>]\<rparr>)"

definition post :: "(nat \<Rightarrow> http_reply) \<Rightarrow> telegramSink \<Rightarrow> rtext \<Rightarrow> telegramSink" where
  "post http ts t =
     (let (backoff, ts1) = postOnce http t None ts
      in if backoff > 0 then
           let backoff' = (if backoff > telegramMaxBackoff then telegramMaxBackoff else backoff)
           in snd (postOnce http t (Some backoff') ts1)
         else ts1)"

definition runes :: "string \<Rightarrow> rtext" where
  "runes s = map of_char s"

definition drop_note :: "int \<Rightarrow> rtext" where
  "drop_note n = runes (''['' @ dec (nat n) @ '' log lines dropped]'') @ [10]"

definition sink_flush :: "(nat \<Rightarrow> http_reply) \<Rightarrow> telegramSink \<Rightarrow> telegramSink option" where
  "sink_flush http ts =
     (let sb = (if ts_dropped ts > 0 then drop_note (ts_dropped ts) else []) @ ts_buf ts;
          ts1 = ts\<lparr>ts_dropped := 0, ts_buf := []\<rparr>
      in if sb = [] then Some ts1
         else map_option (foldl (post http) ts1) (splitMessage sb telegramMaxRunes))"

definition accumulate :: "(nat \<Rightarrow> http_reply) \<Rightarrow> telegramSink \<Rightarrow> rtext \<Rightarrow> telegramSink option" where
  "accumulate http ts b = do {
     ts1 \<leftarrow> (if byte_len (ts_buf ts) > 0 \<and> byte_len (ts_buf ts) + byte_len b > telegramBatchBytes then sink_flush http ts else Some ts);
     let ts2 = ts1\<lparr>ts_buf := ts_buf ts1 @ b\<rparr>;
     if byte_len (ts_buf ts2) \<ge> telegramBatchBytes then sink_flush http ts2 else Some ts2
   }"

text \<open>
  A step of a writer, of \<^verbatim>\<open>Close\<close>, or of the worker: a case of the outer select that can proceed, or one
  round of the draining loop. A case that cannot proceed leaves the sink as it is.
\<close>

datatype sink_event = WriteLine rtext | CloseSink | ReceiveLine | TickerFires | SeeQuit | DrainOne

definition receive_line :: "(nat \<Rightarrow> http_reply) \<Rightarrow> telegramSink \<Rightarrow> telegramSink option" where
  "receive_line http ts = (case ts_ch ts of [] \<Rightarrow> Some ts | b # bs \<Rightarrow> accumulate http (ts\<lparr>ts_ch := bs\<rparr>) b)"

fun sink_step :: "(nat \<Rightarrow> http_reply) \<Rightarrow> telegramSink \<Rightarrow> sink_event \<Rightarrow> telegramSink option" where
  "sink_step http ts (WriteLine l) = Some (sink_Write l ts)"
| "sink_step http ts CloseSink = Some (ts\<lparr>ts_quit := True\<rparr>)"
| "sink_step http ts ReceiveLine = (if ts_draining ts \<or> ts_done ts then Some ts else receive_line http ts)"
| "sink_step http ts TickerFires = (if ts_draining ts \<or> ts_done ts then Some ts else sink_flush http ts)"
| "sink_step http ts SeeQuit = (if ts_quit ts \<and> \<not> ts_done ts then Some (ts\<lparr>ts_draining := True\<rparr>) else Some ts)"
| "sink_step http ts DrainOne =
     (if ts_draining ts \<and> \<not> ts_done ts then
        if ts_ch ts \<noteq> [] then receive_line http ts
        else map_option (\<lambda>ts1. ts1\<lparr>ts_done := True\<rparr>) (sink_flush http ts)
      else Some ts)"

fun sink_run :: "(nat \<Rightarrow> http_reply) \<Rightarrow> telegramSink \<Rightarrow> sink_event list \<Rightarrow> telegramSink option" where
  "sink_run http ts [] = Some ts"
| "sink_run http ts (e # es) = (case sink_step http ts e of None \<Rightarrow> None | Some ts' \<Rightarrow> sink_run http ts' es)"

section \<open>Every line is posted or counted\<close>

text \<open>What a post shows: lines as they were written, and notes of the number of lines lost.\<close>

datatype shown = Line rtext | Note int

fun shown_text :: "shown \<Rightarrow> rtext" where
  "shown_text (Line l) = l" | "shown_text (Note n) = drop_note n"

fun shown_lines :: "shown list \<Rightarrow> rtext list" where
  "shown_lines [] = []" | "shown_lines (Line l # xs) = l # shown_lines xs" | "shown_lines (Note n # xs) = shown_lines xs"

fun shown_lost :: "shown list \<Rightarrow> int" where
  "shown_lost [] = 0" | "shown_lost (Line l # xs) = shown_lost xs" | "shown_lost (Note n # xs) = n + shown_lost xs"

definition messages :: "telegramSink \<Rightarrow> rtext list" where
  "messages ts = map rq_text (filter (\<lambda>r. rq_wait r = None) (ts_requests ts))"

definition request_ok :: "http_request \<Rightarrow> bool" where
  "request_ok r \<longleftrightarrow> runeLen (rq_text r) \<le> telegramMaxRunes \<and>
     (case rq_wait r of None \<Rightarrow> True | Some d \<Rightarrow> 0 < d \<and> d \<le> telegramMaxBackoff)"

fun written :: "sink_event list \<Rightarrow> rtext list" where
  "written [] = []" | "written (WriteLine l # es) = l # written es" | "written (_ # es) = written es"

text \<open>The lines shown, those in the buffer, the one in hand and those in the queue, and the lines lost, make up what was written.\<close>

definition sink_accounts :: "rtext list \<Rightarrow> shown list \<Rightarrow> rtext list \<Rightarrow> rtext list \<Rightarrow> telegramSink \<Rightarrow> bool" where
  "sink_accounts ls shown waiting hand ts \<longleftrightarrow>
     concat (messages ts) = concat (map shown_text shown) \<and> concat waiting = ts_buf ts \<and>
     subseq (shown_lines shown @ waiting @ hand @ ts_ch ts) ls \<and>
     int (length ls) = int (length (shown_lines shown @ waiting @ hand @ ts_ch ts)) + shown_lost shown + ts_dropped ts \<and>
     0 \<le> ts_dropped ts \<and> length (ts_ch ts) \<le> telegramQueueSize \<and> list_all request_ok (ts_requests ts)"

lemma shown_append [simp]:
  "shown_lines (xs @ ys) = shown_lines xs @ shown_lines ys" "shown_lost (xs @ ys) = shown_lost xs + shown_lost ys"
  "shown_lines (map Line ls) = ls" "shown_lost (map Line ls) = 0" "map (shown_text \<circ> Line) ls = ls"
  by (induction xs rule: shown_lines.induct, simp_all) (induction ls, simp_all)+

lemma post_requests:
  obtains rs where "post http ts t = ts\<lparr>ts_requests := ts_requests ts @ \<lparr>rq_text = t, rq_wait = None\<rparr> # rs\<rparr>"
    and "filter (\<lambda>r. rq_wait r = None) rs = []" and "runeLen t \<le> telegramMaxRunes \<Longrightarrow> list_all request_ok rs"
proof (cases "reply_backoff (http (length (ts_requests ts))) > 0")
  case True
  then show ?thesis
    by (intro that [of "[\<lparr>rq_text = t, rq_wait = Some (min (reply_backoff (http (length (ts_requests ts)))) telegramMaxBackoff)\<rparr>]"])
      (auto simp: post_def postOnce_def request_ok_def min_def telegramMaxBackoff_def second_def)
next
  case False
  then show ?thesis by (intro that [of "[]"]) (auto simp: post_def postOnce_def)
qed

lemma posts_requests:
  assumes "list_all (\<lambda>p. runeLen p \<le> telegramMaxRunes) ps" and "list_all request_ok (ts_requests ts)"
  shows "\<exists>rs. foldl (post http) ts ps = ts\<lparr>ts_requests := rs\<rparr> \<and> list_all request_ok rs \<and>
    messages (ts\<lparr>ts_requests := rs\<rparr>) = messages ts @ ps"
  using assms
proof (induction ps arbitrary: ts)
  case Nil
  then show ?case by (intro exI [of _ "ts_requests ts"]) (simp add: messages_def)
next
  case (Cons p ps)
  obtain rs where rs: "post http ts p = ts\<lparr>ts_requests := ts_requests ts @ \<lparr>rq_text = p, rq_wait = None\<rparr> # rs\<rparr>"
    "filter (\<lambda>r. rq_wait r = None) rs = []" "list_all request_ok rs"
    using post_requests [of http ts p] Cons.prems(1) by auto
  have "request_ok \<lparr>rq_text = p, rq_wait = None\<rparr>" using Cons.prems(1) by (simp add: request_ok_def)
  then have "list_all request_ok (ts_requests (post http ts p))" using Cons.prems(2) rs by simp
  from Cons.IH [OF _ this] Cons.prems(1) obtain rs' where
    "foldl (post http) (post http ts p) ps = (post http ts p)\<lparr>ts_requests := rs'\<rparr>" "list_all request_ok rs'"
    "messages ((post http ts p)\<lparr>ts_requests := rs'\<rparr>) = messages (post http ts p) @ ps" by auto
  with rs(1,2) show ?case by (intro exI [of _ rs']) (simp add: messages_def)
qed

lemma flush_accounts:
  assumes "sink_accounts ls shown waiting hand ts"
  shows "\<exists>ts' shown'. sink_flush http ts = Some ts' \<and> sink_accounts ls shown' [] hand ts' \<and> ts_buf ts' = [] \<and> ts_dropped ts' = 0 \<and>
    ts_ch ts' = ts_ch ts \<and> ts_draining ts' = ts_draining ts \<and> ts_done ts' = ts_done ts \<and> ts_quit ts' = ts_quit ts"
proof -
  let ?note = "if ts_dropped ts > 0 then [Note (ts_dropped ts)] else []"
  let ?sb = "(if ts_dropped ts > 0 then drop_note (ts_dropped ts) else []) @ ts_buf ts" and ?ts = "ts\<lparr>ts_dropped := 0, ts_buf := []\<rparr>"
  let ?shown = "shown @ ?note @ map Line waiting"
  have txt': "concat (map shown_text ?shown) = concat (messages ts) @ ?sb" using assms by (simp add: sink_accounts_def)
  obtain ps where ps: "splitMessage ?sb telegramMaxRunes = Some ps" "concat ps = ?sb" "list_all (\<lambda>p. runeLen p \<le> telegramMaxRunes) ps"
    using splitMessage_returns [of telegramMaxRunes ?sb] by (auto simp: telegramMaxRunes_def list_all_iff)
  have ok: "list_all request_ok (ts_requests ?ts)" using assms by (simp add: sink_accounts_def)
  obtain rs where rs: "foldl (post http) ?ts ps = ?ts\<lparr>ts_requests := rs\<rparr>" "list_all request_ok rs"
    "messages (?ts\<lparr>ts_requests := rs\<rparr>) = messages ?ts @ ps"
    using posts_requests [OF ps(3) ok] by blast
  let ?rs = "if ?sb = [] then ts_requests ts else rs"
  have run: "sink_flush http ts = Some (?ts\<lparr>ts_requests := ?rs\<rparr>)" using ps(1) rs(1) by (auto simp: sink_flush_def Let_def)
  have "concat (messages (?ts\<lparr>ts_requests := ?rs\<rparr>)) = concat (messages ts) @ ?sb" using rs(3) ps(2) by (auto simp: messages_def)
  with assms txt' rs(2) ok have "sink_accounts ls ?shown [] hand (?ts\<lparr>ts_requests := ?rs\<rparr>)" by (auto simp: sink_accounts_def)
  with run show ?thesis by (intro exI [of _ "?ts\<lparr>ts_requests := ?rs\<rparr>"] exI [of _ ?shown]) simp
qed

text \<open>A line in hand is posted, or waits in the buffer.\<close>

lemma accumulate_accounts:
  assumes acc: "sink_accounts ls shown waiting [b] ts"
  shows "\<exists>ts' shown' waiting'. accumulate http ts b = Some ts' \<and> sink_accounts ls shown' waiting' [] ts' \<and>
    ts_ch ts' = ts_ch ts \<and> ts_draining ts' = ts_draining ts \<and> ts_done ts' = ts_done ts \<and> ts_quit ts' = ts_quit ts"
proof -
  let ?first = "if byte_len (ts_buf ts) > 0 \<and> byte_len (ts_buf ts) + byte_len b > telegramBatchBytes then sink_flush http ts else Some ts"
  obtain ts1 shown1 waiting1 where one: "?first = Some ts1" "sink_accounts ls shown1 waiting1 [b] ts1" "ts_ch ts1 = ts_ch ts"
    "ts_draining ts1 = ts_draining ts" "ts_done ts1 = ts_done ts" "ts_quit ts1 = ts_quit ts"
    using flush_accounts [OF acc, of http] acc
    by (cases "byte_len (ts_buf ts) > 0 \<and> byte_len (ts_buf ts) + byte_len b > telegramBatchBytes") auto
  let ?ts2 = "ts1\<lparr>ts_buf := ts_buf ts1 @ b\<rparr>"
  have two: "sink_accounts ls shown1 (waiting1 @ [b]) [] ?ts2" using one(2) by (auto simp: sink_accounts_def messages_def)
  have "accumulate http ts b = (if byte_len (ts_buf ?ts2) \<ge> telegramBatchBytes then sink_flush http ?ts2 else Some ?ts2)"
    unfolding accumulate_def one(1) by (simp add: Let_def)
  then show ?thesis using flush_accounts [OF two, of http] two one(3-) by (cases "byte_len (ts_buf ?ts2) \<ge> telegramBatchBytes") auto
qed

lemma receive_accounts:
  assumes acc: "sink_accounts ls shown waiting [] ts"
  shows "\<exists>ts' shown' waiting'. receive_line http ts = Some ts' \<and> sink_accounts ls shown' waiting' [] ts' \<and>
    ts_ch ts' = tl (ts_ch ts) \<and> ts_draining ts' = ts_draining ts \<and> ts_done ts' = ts_done ts \<and> ts_quit ts' = ts_quit ts"
proof (cases "ts_ch ts")
  case Nil
  then show ?thesis using acc by (intro exI [of _ ts] exI [of _ shown] exI [of _ waiting]) (simp add: receive_line_def)
next
  case (Cons b bs)
  then have "sink_accounts ls shown waiting [b] (ts\<lparr>ts_ch := bs\<rparr>)" using acc by (auto simp: sink_accounts_def messages_def)
  from accumulate_accounts [OF this, of http] Cons show ?thesis by (simp add: receive_line_def)
qed

lemma write_accounts:
  assumes "sink_accounts ls shown waiting [] ts"
  shows "sink_accounts (ls @ [l]) shown waiting [] (sink_Write l ts)"
proof (cases "length (ts_ch ts) < telegramQueueSize")
  case True
  with assms show ?thesis
    using list_emb_append_mono [of "(=)" "shown_lines shown @ waiting @ ts_ch ts" ls "[l]" "[l]"]
    by (auto simp: sink_accounts_def sink_Write_def messages_def)
next
  case False
  with assms show ?thesis by (auto simp: sink_accounts_def sink_Write_def messages_def intro: subseq_rev_drop_many list_emb_append2)
qed

lemma step_accounts:
  assumes acc: "sink_accounts ls shown waiting [] ts"
  shows "\<exists>ts' shown' waiting'. sink_step http ts e = Some ts' \<and> sink_accounts (ls @ written [e]) shown' waiting' [] ts'"
proof (cases e)
  case (WriteLine l)
  with write_accounts [OF acc, of l] show ?thesis by auto
next
  case CloseSink
  with acc show ?thesis by (auto simp: sink_accounts_def messages_def)
next
  case ReceiveLine
  with acc receive_accounts [OF acc, of http] show ?thesis by auto
next
  case TickerFires
  with acc flush_accounts [OF acc, of http] show ?thesis by auto
next
  case SeeQuit
  with acc show ?thesis by (auto simp: sink_accounts_def messages_def)
next
  case DrainOne
  have done': "sink_accounts ls s w [] (t\<lparr>ts_done := True\<rparr>) \<longleftrightarrow> sink_accounts ls s w [] t" for s w t
    by (simp add: sink_accounts_def messages_def)
  show ?thesis
    using DrainOne acc receive_accounts [OF acc, of http] flush_accounts [OF acc, of http]
    by (cases "ts_draining ts \<and> \<not> ts_done ts"; cases "ts_ch ts = []") (auto simp: done', blast+)
qed

lemma run_accounts:
  "sink_accounts ls shown waiting [] ts \<Longrightarrow>
   \<exists>ts' shown' waiting'. sink_run http ts es = Some ts' \<and> sink_accounts (ls @ written es) shown' waiting' [] ts'"
proof (induction es arbitrary: ls shown waiting ts)
  case (Cons e es)
  from step_accounts [OF Cons.prems, of http e] obtain ts1 shown1 waiting1 where
    one: "sink_step http ts e = Some ts1" "sink_accounts (ls @ written [e]) shown1 waiting1 [] ts1" by blast
  have "written (e # es) = written [e] @ written es" by (cases e) simp_all
  with one Cons.IH [OF one(2)] show ?case by simp
qed auto

text \<open>A closed sink ends after one round for each line in its queue and one more.\<close>

lemma drain_ends:
  assumes "sink_accounts ls shown waiting [] ts" and "ts_draining ts" "\<not> ts_done ts"
  shows "\<exists>ts' shown'. sink_run http ts (replicate (Suc (length (ts_ch ts))) DrainOne) = Some ts' \<and> sink_accounts ls shown' [] [] ts' \<and>
    ts_done ts' \<and> ts_ch ts' = [] \<and> ts_buf ts' = [] \<and> ts_dropped ts' = 0"
  using assms
proof (induction "length (ts_ch ts)" arbitrary: shown waiting ts)
  case 0
  with flush_accounts [OF 0(2), of http] show ?case by (auto simp: sink_accounts_def messages_def)
next
  case (Suc n)
  obtain ts1 shown1 waiting1 where one: "receive_line http ts = Some ts1" "sink_accounts ls shown1 waiting1 [] ts1"
    "ts_ch ts1 = tl (ts_ch ts)" "ts_draining ts1" "\<not> ts_done ts1"
    using receive_accounts [OF Suc.prems(1), of http] Suc.prems(2,3) by auto
  have n: "length (ts_ch ts) = Suc (length (ts_ch ts1))" "n = length (ts_ch ts1)" "ts_ch ts \<noteq> []" using Suc.hyps(2) one(3) by auto
  from Suc.hyps(1) [OF n(2) one(2,4,5)] n one(1) Suc.prems(2,3) show ?case by simp
qed

text \<open>
  C39: Logging to Telegram ends and accounts for every line. Whatever writers, the ticker, the worker
  and the replies of the server do, no loop of the worker hangs or panics, no message is longer than
  the limit and no retry waits longer than the cap. When the sink is then closed, the worker
  finishes after as many rounds as lines wait and one more, and the messages sent, in order, are
  exactly a subsequence of the written lines, complete and in order, with notes between them whose
  numbers add up to the lines that are missing.
\<close>

theorem sink_close_accounts:
  "\<exists>ts. sink_run http newTelegramSink es = Some ts \<and> list_all request_ok (ts_requests ts) \<and>
    (ts_done ts \<or>
     (\<exists>ts' shown. sink_run http ts (CloseSink # SeeQuit # replicate (Suc (length (ts_ch ts))) DrainOne) = Some ts' \<and>
        ts_done ts' \<and> concat (messages ts') = concat (map shown_text shown) \<and>
        subseq (shown_lines shown) (written es) \<and>
        int (length (written es)) = int (length (shown_lines shown)) + shown_lost shown \<and>
        list_all request_ok (ts_requests ts')))"
proof -
  have "sink_accounts [] [] [] [] newTelegramSink"
    by (simp add: sink_accounts_def newTelegramSink_def messages_def)
  from run_accounts [OF this, of http es] obtain ts shown waiting where
    ts: "sink_run http newTelegramSink es = Some ts" "sink_accounts (written es) shown waiting [] ts" by auto
  then have ok: "list_all request_ok (ts_requests ts)" by (simp add: sink_accounts_def)
  show ?thesis
  proof (cases "ts_done ts")
    case False
    let ?ts = "ts\<lparr>ts_quit := True, ts_draining := True\<rparr>"
    have "sink_accounts (written es) shown waiting [] ?ts" using ts(2) by (simp add: sink_accounts_def messages_def)
    from drain_ends [OF this, of http] False obtain ts' shown' where
      "sink_run http ?ts (replicate (Suc (length (ts_ch ts))) DrainOne) = Some ts'" "sink_accounts (written es) shown' [] [] ts'"
      "ts_done ts'" "ts_ch ts' = []" "ts_dropped ts' = 0" by auto
    with ts(1) ok False show ?thesis
      by (intro exI [of _ ts] conjI disjI2 exI [of _ ts'] exI [of _ shown']) (simp_all add: sink_accounts_def del: replicate_Suc)
  qed (use ts(1) ok in blast)
qed

theorem sink_close_accounts_witness:
  "\<exists>ts ts'. sink_run (\<lambda>n. Status 429 (Some 60)) newTelegramSink [WriteLine [104, 105, 10], ReceiveLine, WriteLine [111, 107, 10]] = Some ts \<and>
     sink_run (\<lambda>n. Status 429 (Some 60)) ts (CloseSink # SeeQuit # replicate (Suc (length (ts_ch ts))) DrainOne) = Some ts' \<and> ts_done ts'"
proof -
  let ?es = "[WriteLine [104, 105, 10], ReceiveLine, WriteLine [111, 107, 10]]"
  let ?ts = "newTelegramSink\<lparr>ts_ch := [[111, 107, 10]], ts_buf := [104, 105, 10]\<rparr>"
  have ts: "sink_run (\<lambda>n. Status 429 (Some 60)) newTelegramSink ?es = Some ?ts"
    by (simp add: newTelegramSink_def sink_Write_def telegramQueueSize_def receive_line_def accumulate_def byte_len_def
        utf8_len_def telegramBatchBytes_def Let_def)
  have "\<not> ts_done ?ts" by (simp add: newTelegramSink_def)
  with sink_close_accounts [of "\<lambda>n. Status 429 (Some 60)" ?es] ts show ?thesis by (metis option.inject)
qed

end
