(* ===== verification/Spec2Isabelle.thy ===== *)
theory Spec2Isabelle
  imports Pipeline Leases Sampling HistoryRings Spread Instances Mitigation DetRuntime DetPersist StatsPersist BgpAdvertise LogSink
begin

text \<open>
  Verification of flowspec-vpp-agent, a daemon that receives BGP FlowSpec routes, detects attacks
  in sampled traffic, and enforces both as access control lists (ACLs) of VPP, a software router.

  \<^bold>\<open>The program and its model.\<close> A FlowSpec route of a peer is parsed into a rule, translated
  into one ACL entry or refused, and handed to the manager, which counts references to entries
  over all sessions and routes and keeps one managed ACL per address family in VPP. Beside it,
  packet samples (sFlow datagrams, PSAMPLE messages) are decoded and counted by detection rules;
  a rule that fires gives a FlowSpec rule to the local rule controller, which leases it to the same
  manager. Each theory models one part, in the names of the source (Go, under \<^verbatim>\<open>src/\<close>):

  \<^item> \<^verbatim>\<open>Prelude\<close>: Go integers as words, maps as association lists, errors as values, decimal text;
    \<^verbatim>\<open>Netip\<close>, \<^verbatim>\<open>NetipParse\<close>: the used part of \<^verbatim>\<open>net/netip\<close>; \<^verbatim>\<open>GoStrings\<close>: of \<^verbatim>\<open>strings\<close> and \<^verbatim>\<open>strconv\<close>.
  \<^item> \<^verbatim>\<open>FlowSpec\<close> (\<^verbatim>\<open>internal/flowspec\<close>: \<^verbatim>\<open>ParseNLRI\<close>, \<^verbatim>\<open>parseAction\<close>), \<^verbatim>\<open>VppTypes\<close> (\<^verbatim>\<open>internal/vpp/types.go\<close>:
    \<^verbatim>\<open>ACLRule\<close>, \<^verbatim>\<open>Key\<close>), \<^verbatim>\<open>Translate\<close>, \<^verbatim>\<open>TranslateRange\<close>, \<^verbatim>\<open>TranslateFlags\<close> (\<^verbatim>\<open>internal/translate\<close>),
    \<^verbatim>\<open>Matching\<close> (what a rule, an operator list and an entry match, after RFC 8955 and 8956), and
    \<^verbatim>\<open>Pipeline\<close>, the theorems: an entry matches exactly what its route matches, or the route is
    refused with a typed reason; \<^verbatim>\<open>reduceRange\<close> and \<^verbatim>\<open>reduceTCPFlags\<close> are exact.
  \<^item> \<^verbatim>\<open>Manager\<close>, \<^verbatim>\<open>ManagerInv\<close>, \<^verbatim>\<open>ManagerSpec\<close>, \<^verbatim>\<open>ManagerSync\<close> (\<^verbatim>\<open>internal/manager\<close>): the tables and update
    handlers, their invariant, their refinement of a map from sessions and routes to entries, and
    reconciliation. \<^verbatim>\<open>VppClient\<close>, \<^verbatim>\<open>VppData\<close>, \<^verbatim>\<open>VppLife\<close> (\<^verbatim>\<open>internal/vpp\<close>): the client of VPP's binary
    API over an abstract data plane, attachment to interfaces, reconnection. \<^verbatim>\<open>Enforcement\<close> puts
    them together: after any updates and reconnections VPP holds exactly the desired entries.
  \<^item> \<^verbatim>\<open>Packet\<close> (\<^verbatim>\<open>internal/packet\<close>), \<^verbatim>\<open>SFlow\<close> (\<^verbatim>\<open>internal/sflow/decode.go\<close>), \<^verbatim>\<open>Sampling\<close> (with the decoding of
    \<^verbatim>\<open>internal/psample\<close>): decoders on lists of bytes, total, and inverse to encoders of valid input.
  \<^item> \<^verbatim>\<open>DetTypes\<close>, \<^verbatim>\<open>HistoryRings\<close>, \<^verbatim>\<open>Spread\<close>, \<^verbatim>\<open>HeavyKeeper\<close>, \<^verbatim>\<open>Instances\<close>, \<^verbatim>\<open>Template\<close>, \<^verbatim>\<open>DetConfig\<close>,
    \<^verbatim>\<open>RuleCompile\<close>, \<^verbatim>\<open>DetRule\<close> (\<^verbatim>\<open>types.go\<close>, \<^verbatim>\<open>store.go\<close>, \<^verbatim>\<open>spread.go\<close>, \<^verbatim>\<open>heavykeeper.go\<close>, \<^verbatim>\<open>template.go\<close>,
    \<^verbatim>\<open>config.go\<close>, \<^verbatim>\<open>compile.go\<close>, \<^verbatim>\<open>rule.go\<close> of \<^verbatim>\<open>internal/detector\<close>): time-indexed rings, diversity gates, the
    admission sketch, the pool of tracked identities, and the compiler and the run of a rule.
    \<^verbatim>\<open>RuleInv\<close> shows that a compiled rule never panics; \<^verbatim>\<open>Mitigation\<close> that its ACL entry drops exactly the
    packets it counted; \<^verbatim>\<open>DetEngine\<close> (\<^verbatim>\<open>engine.go\<close>) that the engine is the parallel composition of its
    rules; \<^verbatim>\<open>DetRuntime\<close> (\<^verbatim>\<open>snapshot.go\<close>, \<^verbatim>\<open>runtime.go\<close>) that the runner loses no event unaccounted.
    \<^verbatim>\<open>DetPersist\<close> (\<^verbatim>\<open>persist.go\<close>): a restart restores the history, and no state file breaks the detector.
  \<^item> \<^verbatim>\<open>VppStats\<close>, \<^verbatim>\<open>StatsWindow\<close>, \<^verbatim>\<open>StatsPersist\<close> (\<^verbatim>\<open>store.go\<close>, \<^verbatim>\<open>poller.go\<close>, \<^verbatim>\<open>persist.go\<close> of
    \<^verbatim>\<open>internal/vppstats\<close>): the interface rates that triggers read; a window is computed from exactly its
    samples, and a restart loses none.
  \<^item> \<^verbatim>\<open>NetipText\<close> (the text of an address or prefix parses back to it), \<^verbatim>\<open>BgpSource\<close> (\<^verbatim>\<open>watch.go\<close> and
    the receive peers of \<^verbatim>\<open>server.go\<close> in \<^verbatim>\<open>internal/bgp\<close>): the receive gate is exact for every spelling of
    an address. \<^verbatim>\<open>BgpAdvertise\<close> (\<^verbatim>\<open>encode.go\<close>, \<^verbatim>\<open>advertise.go\<close>): the parser inverts the encoder.
  \<^item> \<^verbatim>\<open>LogSink\<close> (\<^verbatim>\<open>internal/logging/telegram.go\<close>): the queue and the worker of the Telegram log sink; its
    loops return, and every log line is sent or counted as lost.
  \<^item> \<^verbatim>\<open>LocalRules\<close>, \<^verbatim>\<open>Leases\<close> (\<^verbatim>\<open>internal/localrules\<close>): the controller, the lifetime of leases, and that
    the manager holds exactly the entries under lease.

  \<^bold>\<open>Conventions.\<close> A struct is a record and an operation returns the new value; objects shared by
  pointer are kept once and referred to by their position or key. Go maps are association lists with
  distinct keys; where the order of enumeration matters it is the order of the list or an argument,
  and the theorems hold for every order. An error is the \<open>Inl\<close> of a sum, with its message
  unevaluated; a run-time panic (index, slice, division, shift, nil) is \<open>None\<close> of an option, and
  that it does not occur is proved. \<^verbatim>\<open>uint8\<close> to \<^verbatim>\<open>uint64\<close> are words; \<^verbatim>\<open>int64\<close> quantities are integers with
  \<^const>\<open>wrap64\<close> where they can overflow; epochs, being quotients of times, cannot and are plain
  integers. \<^verbatim>\<open>float64\<close> is a type parameter with its operations in the record \<^typ>\<open>'f float_ops\<close>; theorems
  that need its order assume the locale \<open>float_laws\<close>, which exact real arithmetic interprets. A
  mutex makes an operation atomic, so concurrency is the order of a list of steps, over which
  theorems quantify. Loops recurse over the data they consume, and so are total; a loop that could
  run forever (\<^verbatim>\<open>chunkRunes\<close> in \<open>LogSink\<close>) is a partial function, proved to return; the only
  bounds are the source's own (eight IPv6 extension headers, sixteen sampled victims).

  \<^bold>\<open>Parameters.\<close> Code outside the repository is an argument: VPP's binary API (the record of
  \<open>VppClient\<close>, with its documented effects as the hypotheses of a locale and a concrete router as
  interpretation), the expression language of triggers (\<^verbatim>\<open>expr\<close>) and the rule fingerprint
  (SHA-256 of JSON). The GoBGP library delivers decoded routes, which are input data, and builds
  routes from components (the record of \<open>BgpAdvertise\<close>, with its laws as a locale and an instance).

  \<^bold>\<open>Not modelled.\<close> Sockets, netlink and files (\<^verbatim>\<open>sflow/collector.go\<close>, the receive loop of \<^verbatim>\<open>psample\<close>,
  \<^verbatim>\<open>cmd/flowspec-vpp-agent\<close>): I/O around the modelled functions. The start, the peers and the export policy of the GoBGP server
  (\<^verbatim>\<open>internal/bgp\<close>) and the connection to the stats segment: calls into a library. YAML decoding (\<^verbatim>\<open>internal/config\<close>, \<^verbatim>\<open>UnmarshalYAML\<close>): a library;
  the decoded configuration is the input of the compiler. Other logging, metrics and the memory
  estimate: output only. IPv6 zones and text outside ASCII do not reach the modelled functions.
\<close>

end
